(* ===== verification/Prelude.thy ===== *)
theory Prelude
  imports Main "HOL-Library.List_Lexorder" "HOL-Library.Char_ord"
begin

section \<open>Outcomes, state and effects shared by every component\<close>

text \<open>
  The C++ program is modelled as functions from a state to an outcome and a new state.
  A \<open>fault\<close> is the reason why a call does not return normally: a C++ exception that is
  thrown (and that a \<open>try\<close> of a caller can catch), a step the language leaves
  undefined, or an abort, which no handler can catch. The state after a fault keeps what was
  written before it, because the program does not roll anything back.

  Observable effects (bytes handed to \<open>send\<close>, statements handed to \<open>mysql_query\<close>,
  connection attempts, log lines) are appended in order to the field \<open>trace\<close> of the
  state. What the outside world answers is a function of everything the program has
  done so far, so an arbitrary environment is covered.
\<close>

named_theorems keeps \<open>preservation rules: one per operation and invariant\<close>
named_theorems triples \<open>rules of the triple calculus\<close>
named_theorems run_simps \<open>symbolic execution of the outcome monad\<close>

subsection \<open>Faults\<close>

datatype exn =
    Invalid_argument  \<comment> \<open>\<open>std::invalid_argument\<close>: no digits to convert\<close>
  | Out_of_range      \<comment> \<open>\<open>std::out_of_range\<close>: converted value does not fit\<close>

datatype ub =
    Null_deref         \<comment> \<open>member access through a null pointer\<close>
  | Dangling           \<comment> \<open>member access through an uninitialised pointer\<close>
  | Index_past_end     \<comment> \<open>\<open>v[i]\<close> or a string read with \<open>i\<close> out of range\<close>
  | Deref_end          \<comment> \<open>dereferencing or advancing an end iterator\<close>
  | Foreign_iterator   \<comment> \<open>comparing iterators of different containers\<close>
  | Front_of_empty     \<comment> \<open>\<open>front\<close>/\<open>back\<close>/\<open>pop\<close> of an empty container\<close>
  | Buffer_overflow    \<comment> \<open>write past the end of an array\<close>
  | Mutex_relock       \<comment> \<open>locking a mutex its owner already holds\<close>
  | Foreign_unlock     \<comment> \<open>unlocking a mutex that the thread does not hold\<close>
  | Joined_twice       \<comment> \<open>joining a thread that was joined\<close>
  | Missing_argument   \<comment> \<open>a \<open>printf\<close> conversion without its argument\<close>
  | Signed_overflow    \<comment> \<open>overflow of signed arithmetic\<close>

datatype fault =
    Throw exn
  | Undefined ub
  | Abort string       \<comment> \<open>\<open>abort()\<close> after a message, as a failed \<open>GTEST_CHECK_\<close> does\<close>

subsection \<open>The outcome monad\<close>

type_synonym ('s, 'a) cpp = "'s \<Rightarrow> (fault + 'a) \<times> 's"

definition ret :: "'a \<Rightarrow> ('s, 'a) cpp" where
  "ret x = (\<lambda>s. (Inr x, s))"

definition fail :: "fault \<Rightarrow> ('s, 'a) cpp" where
  "fail f = (\<lambda>s. (Inl f, s))"

definition bnd :: "('s, 'a) cpp \<Rightarrow> ('a \<Rightarrow> ('s, 'b) cpp) \<Rightarrow> ('s, 'b) cpp" where
  "bnd m k = (\<lambda>s. case m s of (Inl f, s') \<Rightarrow> (Inl f, s') | (Inr x, s') \<Rightarrow> k x s')"

definition seq :: "('s, 'a) cpp \<Rightarrow> ('s, 'b) cpp \<Rightarrow> ('s, 'b) cpp" where
  "seq m k = bnd m (\<lambda>_. k)"

definition get :: "('s \<Rightarrow> 'a) \<Rightarrow> ('s, 'a) cpp" where
  "get f = (\<lambda>s. (Inr (f s), s))"

definition upd :: "('s \<Rightarrow> 's) \<Rightarrow> ('s, unit) cpp" where
  "upd f = (\<lambda>s. (Inr (), f s))"

definition lift :: "fault + 'a \<Rightarrow> ('s, 'a) cpp" where
  "lift r = (\<lambda>s. (r, s))"

text \<open>\<open>try m catch h\<close>: a thrown exception runs the handler from the state it left.\<close>

definition try_catch :: "('s, 'a) cpp \<Rightarrow> (exn \<Rightarrow> ('s, 'a) cpp) \<Rightarrow> ('s, 'a) cpp" where
  "try_catch m h =
     (\<lambda>s. case m s of (Inl (Throw e), s') \<Rightarrow> h e s' | (r, s') \<Rightarrow> (r, s'))"

text \<open>Running an operation of a member object on the object that holds it.\<close>

definition zoom :: "('s \<Rightarrow> 't) \<Rightarrow> ('t \<Rightarrow> 's \<Rightarrow> 's) \<Rightarrow> ('t, 'a) cpp \<Rightarrow> ('s, 'a) cpp" where
  "zoom g p m = (\<lambda>s. case m (g s) of (r, t) \<Rightarrow> (r, p t s))"

fun for_each :: "'a list \<Rightarrow> ('a \<Rightarrow> ('s, unit) cpp) \<Rightarrow> ('s, unit) cpp" where
  "for_each [] f = ret ()"
| "for_each (x # xs) f = seq (f x) (for_each xs f)"

text \<open>\<open>v[i]\<close> of a \<open>std::vector\<close>: undefined out of range (there is no bounds check).\<close>

definition vec_at :: "'a list \<Rightarrow> nat \<Rightarrow> ('s, 'a) cpp" where
  "vec_at xs i = (if i < length xs then ret (xs ! i) else fail (Undefined Index_past_end))"

lemmas cpp_defs = ret_def fail_def bnd_def seq_def get_def upd_def lift_def
  try_catch_def zoom_def vec_at_def

subsubsection \<open>Symbolic execution\<close>

lemma ret_app [simp, run_simps]: "ret x s = (Inr x, s)"
  and fail_app [simp, run_simps]: "fail f s = (Inl f, s)"
  and get_app [simp, run_simps]: "get g s = (Inr (g s), s)"
  and upd_app [simp, run_simps]: "upd u s = (Inr (), u s)"
  and lift_app [simp, run_simps]: "lift r s = (r, s)"
  by (simp_all add: cpp_defs)

lemma bnd_app: "bnd m k s = (case m s of (Inl f, s') \<Rightarrow> (Inl f, s') | (Inr x, s') \<Rightarrow> k x s')"
  by (simp add: bnd_def)

lemma bnd_ok [run_simps]: "m s = (Inr x, s') \<Longrightarrow> bnd m k s = k x s'"
  and bnd_fault [run_simps]: "m s = (Inl f, s') \<Longrightarrow> bnd m k s = (Inl f, s')"
  and seq_ok [run_simps]: "m s = (Inr x, s') \<Longrightarrow> seq m k' s = k' s'"
  and seq_fault [run_simps]: "m s = (Inl f, s') \<Longrightarrow> seq m k' s = (Inl f, s')"
  by (simp_all add: cpp_defs)

lemma try_ok [run_simps]: "m s = (Inr x, s') \<Longrightarrow> try_catch m h s = (Inr x, s')"
  and try_throw [run_simps]: "m s = (Inl (Throw e), s') \<Longrightarrow> try_catch m h s = h e s'"
  and try_ub [run_simps]: "m s = (Inl (Undefined u), s') \<Longrightarrow> try_catch m h s = (Inl (Undefined u), s')"
  by (simp_all add: cpp_defs)

lemma bnd_simps [simp]:
  "bnd (ret x) k = k x" "bnd (fail f) k = fail f"
  "seq (ret x) k' = k'" "seq (fail f) k' = fail f"
  "bnd (bnd m k) h = bnd m (\<lambda>x. bnd (k x) h)"
  by (auto simp: cpp_defs fun_eq_iff split: prod.splits sum.splits)

lemma lift_simps [simp]: "lift (Inr x) = ret x" "lift (Inl f) = fail f"
  by (simp_all add: cpp_defs)

lemma vec_at_in [simp, run_simps]: "i < length xs \<Longrightarrow> vec_at xs i = ret (xs ! i)"
  and vec_at_out [simp, run_simps]: "length xs \<le> i \<Longrightarrow> vec_at xs i = fail (Undefined Index_past_end)"
  by (simp_all add: vec_at_def)

text \<open>A branch applied to a state.\<close>

lemma branch_app [simp, run_simps]:
  "(if b then m else k) s = (if b then m s else k s)"
  "(case x of None \<Rightarrow> m | Some y \<Rightarrow> f y) s = (case x of None \<Rightarrow> m s | Some y \<Rightarrow> f y s)"
  "(case xs of [] \<Rightarrow> m | y # ys \<Rightarrow> g y ys) s = (case xs of [] \<Rightarrow> m s | y # ys \<Rightarrow> g y ys s)"
  by (simp_all split: option.splits list.splits)

lemma for_each_append:
  "for_each (xs @ ys) f = seq (for_each xs f) (for_each ys f)"
  by (induction xs) (auto simp: cpp_defs fun_eq_iff split: prod.splits sum.splits)

subsubsection \<open>Invariants of operations\<close>

text \<open>
  \<open>preserves I m\<close>: whatever the outcome, faults included, \<open>m\<close> leaves a state with
  \<open>I\<close> when it starts in one.
\<close>

definition preserves :: "('s \<Rightarrow> bool) \<Rightarrow> ('s, 'a) cpp \<Rightarrow> bool" where
  "preserves I m \<longleftrightarrow> (\<forall>s. I s \<longrightarrow> I (snd (m s)))"

lemma preservesI: "(\<And>s. I s \<Longrightarrow> I (snd (m s))) \<Longrightarrow> preserves I m"
  by (simp add: preserves_def)

lemma preservesD: "preserves I m \<Longrightarrow> I s \<Longrightarrow> m s = (r, s') \<Longrightarrow> I s'"
  by (metis preserves_def snd_conv)

lemma preserves_ret [keeps]: "preserves I (ret x)"
  and preserves_fail [keeps]: "preserves I (fail f)"
  and preserves_get [keeps]: "preserves I (get g)"
  and preserves_lift [keeps]: "preserves I (lift r)"
  and preserves_vec_at [keeps]: "preserves I (vec_at xs i)"
  by (simp_all add: preserves_def cpp_defs)

lemma preserves_upd [keeps]: "(\<And>s. I s \<Longrightarrow> I (f s)) \<Longrightarrow> preserves I (upd f)"
  by (simp add: preserves_def)

lemma preserves_bnd [keeps]:
  "preserves I m \<Longrightarrow> (\<And>x. preserves I (k x)) \<Longrightarrow> preserves I (bnd m k)"
  by (fastforce simp: preserves_def bnd_def split: prod.splits sum.splits)

lemma preserves_seq [keeps]:
  "preserves I m \<Longrightarrow> preserves I k \<Longrightarrow> preserves I (seq m k)"
  by (simp add: seq_def preserves_bnd)

lemma preserves_try [keeps]:
  "preserves I m \<Longrightarrow> (\<And>e. preserves I (h e)) \<Longrightarrow> preserves I (try_catch m h)"
  by (fastforce simp: preserves_def try_catch_def split: prod.splits sum.splits fault.splits)

lemma preserves_if [keeps]:
  "(b \<Longrightarrow> preserves I m) \<Longrightarrow> (\<not> b \<Longrightarrow> preserves I k) \<Longrightarrow> preserves I (if b then m else k)"
  by simp

lemma preserves_for_each [keeps]:
  "(\<And>x. x \<in> set xs \<Longrightarrow> preserves I (f x)) \<Longrightarrow> preserves I (for_each xs f)"
  by (induction xs) (auto intro: keeps)

lemma preserves_zoom:
  "(\<And>s t. I s \<Longrightarrow> I (p t s)) \<Longrightarrow> preserves I (zoom g p m)"
  by (auto simp: preserves_def zoom_def split: prod.splits)

subsubsection \<open>Triples\<close>

text \<open>\<open>triple P m Q\<close>: from a state with \<open>P\<close>, if \<open>m\<close> returns, its result and state satisfy \<open>Q\<close>.\<close>

definition triple :: "('s \<Rightarrow> bool) \<Rightarrow> ('s, 'a) cpp \<Rightarrow> ('a \<Rightarrow> 's \<Rightarrow> bool) \<Rightarrow> bool" where
  "triple P m Q \<longleftrightarrow> (\<forall>s x s'. P s \<longrightarrow> m s = (Inr x, s') \<longrightarrow> Q x s')"

lemma tripleI: "(\<And>s x s'. P s \<Longrightarrow> m s = (Inr x, s') \<Longrightarrow> Q x s') \<Longrightarrow> triple P m Q"
  by (simp add: triple_def)

lemma tripleD: "triple P m Q \<Longrightarrow> P s \<Longrightarrow> m s = (Inr x, s') \<Longrightarrow> Q x s'"
  by (simp add: triple_def)

lemma preserves_triple: "preserves I m \<Longrightarrow> triple I m (\<lambda>_. I)"
  by (simp add: triple_def) (meson preservesD)

lemma triple_weaken: "triple P m Q \<Longrightarrow> (\<And>s. P' s \<Longrightarrow> P s) \<Longrightarrow> (\<And>x s. Q x s \<Longrightarrow> Q' x s) \<Longrightarrow> triple P' m Q'"
  by (simp add: triple_def) blast

lemma triple_fail [triples]: "triple P (fail e) Q"
  and triple_ret [triples]: "(\<And>s. P s \<Longrightarrow> Q x s) \<Longrightarrow> triple P (ret x) Q"
  by (auto simp: triple_def cpp_defs)

lemma triple_upd [triples]: "(\<And>s. P s \<Longrightarrow> Q () (f s)) \<Longrightarrow> triple P (upd f) Q"
  by (auto simp: triple_def cpp_defs)

lemma triple_bnd: "triple P m R \<Longrightarrow> (\<And>x. triple (R x) (k x) Q) \<Longrightarrow> triple P (bnd m k) Q"
  by (force simp: triple_def bnd_def split: prod.splits sum.splits)

lemma triple_seq: "triple P m (\<lambda>_. R) \<Longrightarrow> triple R k Q \<Longrightarrow> triple P (seq m k) Q"
  unfolding seq_def by (rule triple_bnd)

lemma triple_get_bnd [triples]:
  "(\<And>x. triple (\<lambda>s. P s \<and> x = g s) (k x) Q) \<Longrightarrow> triple P (bnd (get g) k) Q"
  by (force simp: triple_def cpp_defs)

lemma triple_lift_bnd [triples]:
  "(\<And>x. r = Inr x \<Longrightarrow> triple P (k x) Q) \<Longrightarrow> triple P (bnd (lift r) k) Q"
  by (cases r) (auto simp: triple_def cpp_defs)

lemma triple_vec_at_bnd [triples]:
  "(\<And>x. i < length xs \<Longrightarrow> x = xs ! i \<Longrightarrow> triple P (k x) Q) \<Longrightarrow> triple P (bnd (vec_at xs i) k) Q"
  by (auto simp: triple_def cpp_defs split: if_splits)

lemma triple_if [triples]:
  "(b \<Longrightarrow> triple P m Q) \<Longrightarrow> (\<not> b \<Longrightarrow> triple P k Q) \<Longrightarrow> triple P (if b then m else k) Q"
  by simp

lemma triple_option [triples]:
  "(v = None \<Longrightarrow> triple P m Q) \<Longrightarrow> (\<And>y. v = Some y \<Longrightarrow> triple P (f y) Q) \<Longrightarrow>
    triple P (case v of None \<Rightarrow> m | Some y \<Rightarrow> f y) Q"
  by (cases v) simp_all

subsection \<open>The world outside\<close>

datatype log_level = FATAL | WARN | ERROR | DEBUG | TRACE | INFO

datatype event =
    Log string log_level string                      \<comment> \<open>\<open>logwrite->write(level, text)\<close> of the writer of this type\<close>
  | Send int string                                  \<comment> \<open>\<open>send(fd, block, 1024, 0)\<close>\<close>
  | Query string                                     \<comment> \<open>\<open>mysql_query(conn, text)\<close>\<close>
  | Db_connect string string string string nat       \<comment> \<open>\<open>mysql_real_connect\<close>: host, user, password, database, port\<close>
  | Syscall string int                               \<comment> \<open>\<open>socket\<close>, \<open>bind\<close>, \<open>listen\<close>, \<open>connect\<close>, \<open>close\<close> with their number argument\<close>

record world =
  trace :: "event list"

text \<open>
  The environment: what the operating system, the C library's memory and the database
  answer, each as a function of the trace so far.
\<close>

record env =
  send_rc :: "event list \<Rightarrow> int \<Rightarrow> string \<Rightarrow> int"
  beyond_string :: "event list \<Rightarrow> nat \<Rightarrow> char"
    \<comment> \<open>the memory behind a string's terminator, which \<open>send\<close> also transmits\<close>
  query_rc :: "event list \<Rightarrow> string \<Rightarrow> int"
  query_error :: "event list \<Rightarrow> string"
  query_rows :: "event list \<Rightarrow> string option list list option"
    \<comment> \<open>\<open>mysql_store_result\<close>: \<open>None\<close> is a null result, a row field \<open>None\<close> is SQL's NULL\<close>
  connect_ok :: "event list \<Rightarrow> bool"
  socket_fd :: "event list \<Rightarrow> int"
    \<comment> \<open>the descriptor \<open>socket\<close> returns to the client, negative when it fails\<close>
  syscall_ok :: "event list \<Rightarrow> string \<Rightarrow> bool"
  rand_int :: "event list \<Rightarrow> int"
  junk_bool :: "event list \<Rightarrow> bool"
  junk_int :: "event list \<Rightarrow> int"
    \<comment> \<open>what an uninitialised member holds\<close>
  read_file :: "string \<Rightarrow> string list option"
    \<comment> \<open>the lines \<open>std::getline\<close> yields; \<open>None\<close> when the file does not open\<close>

text \<open>\<open>rand()\<close> lies between 0 and \<open>RAND_MAX\<close>.\<close>

definition rand :: "env \<Rightarrow> event list \<Rightarrow> int" where
  "rand env tr = rand_int env tr mod 2 ^ 31"

definition syscall :: "env \<Rightarrow> string \<Rightarrow> int \<Rightarrow> ('a world_scheme, bool) cpp" where
  "syscall env name n =
     (\<lambda>s. let s' = s\<lparr>trace := trace s @ [Syscall name n]\<rparr>
          in (Inr (syscall_ok env (trace s') name), s'))"

definition emit :: "event \<Rightarrow> ('a world_scheme, unit) cpp" where
  "emit e = upd (\<lambda>s. s\<lparr>trace := trace s @ [e]\<rparr>)"

lemma emit_app [simp, run_simps]: "emit e s = (Inr (), s\<lparr>trace := trace s @ [e]\<rparr>)"
  by (simp add: emit_def)

definition log_write :: "string \<Rightarrow> log_level \<Rightarrow> string \<Rightarrow> ('a world_scheme, unit) cpp" where
  "log_write ty lvl doc = emit (Log ty lvl doc)"

lemma log_write_app [simp, run_simps]:
  "log_write ty lvl doc s = (Inr (), s\<lparr>trace := trace s @ [Log ty lvl doc]\<rparr>)"
  by (simp add: log_write_def)

lemma preserves_emit [keeps]:
  "(\<And>s. I s \<Longrightarrow> I (s\<lparr>trace := trace s @ [e]\<rparr>)) \<Longrightarrow> preserves I (emit e)"
  by (simp add: preserves_def)

lemma preserves_log [keeps]:
  "(\<And>s e. I s \<Longrightarrow> I (s\<lparr>trace := trace s @ [e]\<rparr>)) \<Longrightarrow> preserves I (log_write ty lvl doc)"
  by (simp add: preserves_def)

text \<open>The effects a peer or the database sees: everything but the log.\<close>

fun is_log :: "event \<Rightarrow> bool" where
  "is_log (Log _ _ _) = True"
| "is_log _ = False"

definition visible :: "event list \<Rightarrow> event list" where
  "visible es = filter (\<lambda>e. \<not> is_log e) es"

lemma visible_simps [simp]:
  "visible [] = []" "visible (es @ fs) = visible es @ visible fs"
  "visible (Log ty lvl doc # es) = visible es"
  "visible (Send fd b # es) = Send fd b # visible es"
  "visible (Query q # es) = Query q # visible es"
  "visible (Db_connect h u pw db p # es) = Db_connect h u pw db p # visible es"
  "visible (Syscall n i # es) = Syscall n i # visible es"
  by (simp_all add: visible_def)

end
