(* ===== verification/Double.thy ===== *)
theory Double
  imports Complex_Main Prelude
begin

section \<open>The C++ type double\<close>

text \<open>
  Prices and balances are \<open>double\<close> values. They are modelled as IEEE 754 binary64:
  a finite value is a sign and a rational magnitude, arithmetic computes the exact result
  and rounds it to the nearest representable number, ties to even (\<open>fl\<close>), and the
  comparisons are false as soon as a NaN takes part. Only what the program uses is
  modelled: multiplication, the four comparisons, conversion from text and to text.
\<close>

subsection \<open>Powers of two\<close>

abbreviation pow2 :: "int \<Rightarrow> rat" where
  "pow2 e \<equiv> power_int 2 e"

lemma pow2_pos [simp]: "0 < pow2 e"
  by simp

lemma pow2_add: "pow2 (a + b) = pow2 a * pow2 b"
  by (simp add: power_int_add)

lemma pow2_mono: "a \<le> b \<Longrightarrow> pow2 a \<le> pow2 b"
  by (rule power_int_increasing) auto

lemma pow2_diff: "pow2 (a - b) = pow2 a / pow2 b"
  by (simp add: power_int_diff)

lemma pow2_nat: "pow2 (int n) = of_int (2 ^ n)"
  by simp

function ilog2 :: "int \<Rightarrow> nat" where
  "ilog2 n = (if n < 2 then 0 else Suc (ilog2 (n div 2)))"
  by pat_completeness auto
termination
  by (relation "measure nat") auto

declare ilog2.simps [simp del]

lemma ilog2_bounds: "0 < n \<Longrightarrow> 2 ^ ilog2 n \<le> n \<and> n < 2 * 2 ^ ilog2 n"
proof (induction n rule: ilog2.induct)
  case (1 n)
  show ?case
  proof (cases "n < 2")
    case True
    with "1.prems" have "n = 1" by simp
    then show ?thesis by (simp add: ilog2.simps)
  next
    case False
    with "1.IH" have "2 ^ ilog2 (n div 2) \<le> n div 2 \<and> n div 2 < 2 * 2 ^ ilog2 (n div 2)"
      by auto
    moreover have "ilog2 n = Suc (ilog2 (n div 2))"
      using False by (simp add: ilog2.simps [of n])
    ultimately show ?thesis by auto
  qed
qed

text \<open>The exponent \<open>e\<close> with \<open>2^e \<le> x < 2^(e+1)\<close>, computed from numerator and denominator.\<close>

definition binade :: "rat \<Rightarrow> int" where
  "binade x = (case quotient_of x of (n, d) \<Rightarrow>
     (let k = int (ilog2 n) - int (ilog2 d)
      in if pow2 k \<le> x then k else k - 1))"

lemma of_int_pow2_bounds:
  fixes n :: int
  shows "2 ^ k \<le> n \<Longrightarrow> (2::rat) ^ k \<le> of_int n"
    and "n < 2 * 2 ^ k \<Longrightarrow> of_int n < (2::rat) * 2 ^ k"
proof -
  assume "2 ^ k \<le> n"
  then have "(of_int (2 ^ k) :: rat) \<le> of_int n" by (simp only: of_int_le_iff)
  then show "(2::rat) ^ k \<le> of_int n" by simp
next
  assume "n < 2 * 2 ^ k"
  then have "of_int n < (of_int (2 * 2 ^ k) :: rat)" by (simp only: of_int_less_iff)
  then show "of_int n < (2::rat) * 2 ^ k" by simp
qed

lemma binade_bounds:
  assumes "0 < x"
  shows "pow2 (binade x) \<le> x" and "x < pow2 (binade x + 1)"
proof -
  obtain n d where q: "quotient_of x = (n, d)" by force
  have d: "0 < d" and x: "x = of_int n / of_int d"
    using quotient_of_denom_pos [OF q] quotient_of_div [OF q] by auto
  have n: "0 < n"
    using assms d x by (simp add: zero_less_divide_iff)
  define a where "a = ilog2 n"
  define b where "b = ilog2 d"
  have "2 ^ a \<le> n" and "n < 2 * 2 ^ a"
    using ilog2_bounds [of n] n by (simp_all add: a_def)
  then have na: "(2::rat) ^ a \<le> of_int n" "of_int n < (2::rat) * 2 ^ a"
    by (simp_all only: of_int_pow2_bounds)
  have "2 ^ b \<le> d" and "d < 2 * 2 ^ b"
    using ilog2_bounds [of d] d by (simp_all add: b_def)
  then have db: "(2::rat) ^ b \<le> of_int d" "of_int d < (2::rat) * 2 ^ b"
    by (simp_all only: of_int_pow2_bounds)
  have dpos: "(0::rat) < of_int d" using d by simp
  have k: "pow2 (int a - int b) = 2 ^ a / 2 ^ b"
    by (simp add: power_int_diff)
  have lower: "(2 ^ a / 2 ^ b) / 2 < x"
  proof -
    have "(2::rat) ^ a * of_int d < of_int n * (2 * 2 ^ b)"
      by (rule mult_le_less_imp_less) (use na db dpos in auto)
    then show ?thesis using dpos by (simp add: x field_simps)
  qed
  have upper: "x < 2 * (2 ^ a / 2 ^ b)"
  proof -
    have "of_int n * 2 ^ b < ((2::rat) * 2 ^ a) * of_int d"
      by (rule mult_less_le_imp_less) (use na db dpos \<open>0 < n\<close> in auto)
    then show ?thesis using dpos by (simp add: x field_simps)
  qed
  have bin: "binade x = (if pow2 (int a - int b) \<le> x then int a - int b else int a - int b - 1)"
    by (simp add: binade_def q a_def b_def Let_def)
  have half: "pow2 (int a - int b - 1) = (2 ^ a / 2 ^ b) / 2"
    by (simp add: power_int_diff)
  have dbl: "pow2 (int a - int b + 1) = 2 * (2 ^ a / 2 ^ b)"
    by (simp add: power_int_diff power_int_add)
  show "pow2 (binade x) \<le> x"
    using lower half by (auto simp: bin)
  show "x < pow2 (binade x + 1)"
    using upper dbl by (auto simp: bin not_le)
qed

lemma binade_eqI:
  assumes "pow2 e \<le> x" and "x < pow2 (e + 1)"
  shows "binade x = e"
proof -
  have pos: "0 < x" using assms(1) pow2_pos [of e] by linarith
  note b = binade_bounds [OF pos]
  have "pow2 e < pow2 (binade x + 1)" and "pow2 (binade x) < pow2 (e + 1)"
    using b assms by linarith+
  then have "e < binade x + 1" and "binade x < e + 1"
    using pow2_mono by (meson leD leI)+
  then show ?thesis by linarith
qed

lemma binade_mono: "0 < x \<Longrightarrow> x \<le> y \<Longrightarrow> binade x \<le> binade y"
  using binade_bounds(1) [of x] binade_bounds(2) [of y] pow2_mono [of "binade y + 1" "binade x"]
  by (cases "binade x \<le> binade y") auto

subsection \<open>Rounding to nearest, ties to even\<close>

definition round_half_even :: "rat \<Rightarrow> int" where
  "round_half_even y =
     (let f = \<lfloor>y\<rfloor>; r = y - of_int f
      in if r < 1/2 then f else if 1/2 < r then f + 1 else if even f then f else f + 1)"

lemma round_half_even_cases:
  "round_half_even y = \<lfloor>y\<rfloor> \<and> y - of_int \<lfloor>y\<rfloor> \<le> 1/2 \<or>
   round_half_even y = \<lfloor>y\<rfloor> + 1 \<and> 1/2 \<le> y - of_int \<lfloor>y\<rfloor>"
  by (auto simp: round_half_even_def Let_def)

lemma round_half_even_error: "\<bar>of_int (round_half_even y) - y\<bar> \<le> 1/2"
  using round_half_even_cases [of y] floor_correct [of y] by (auto simp: abs_le_iff)

lemma round_half_even_unique: "\<bar>y - of_int k\<bar> < 1/2 \<Longrightarrow> round_half_even y = k"
proof -
  assume near: "\<bar>y - of_int k\<bar> < 1/2"
  have "\<bar>of_int (round_half_even y) - (of_int k :: rat)\<bar> < 1"
    using round_half_even_error [of y] near by linarith
  then have "\<bar>round_half_even y - k\<bar> < 1"
    by (metis of_int_abs of_int_diff of_int_less_1_iff)
  then show ?thesis by linarith
qed

lemma round_half_even_of_int [simp]: "round_half_even (of_int k) = k"
  by (rule round_half_even_unique) simp

lemma round_half_even_mono:
  assumes "x \<le> y" shows "round_half_even x \<le> round_half_even y"
proof (cases "\<lfloor>x\<rfloor> = \<lfloor>y\<rfloor>")
  case True
  then show ?thesis using assms by (auto simp: round_half_even_def Let_def)
next
  case False
  then have "\<lfloor>x\<rfloor> + 1 \<le> \<lfloor>y\<rfloor>" using floor_mono [OF assms] by linarith
  then show ?thesis
    using round_half_even_cases [of x] round_half_even_cases [of y] by linarith
qed

lemma round_half_even_nonneg: "0 \<le> y \<Longrightarrow> 0 \<le> round_half_even y"
  using round_half_even_mono [of 0 y] round_half_even_of_int [of 0] by simp

text \<open>The spacing of binary64 numbers around \<open>x\<close>: 53 significant bits, least exponent \<open>-1074\<close>.\<close>

definition ulp_exp :: "rat \<Rightarrow> int" where
  "ulp_exp x = max (binade x - 52) (-1074)"

definition fl :: "rat \<Rightarrow> rat" where
  "fl x = (if x \<le> 0 then 0
     else of_int (round_half_even (x / pow2 (ulp_exp x))) * pow2 (ulp_exp x))"

definition max_finite :: rat where
  "max_finite = of_int ((2 ^ 53 - 1) * 2 ^ 971)"

definition min_normal :: rat where
  "min_normal = pow2 (-1022)"

lemma fl_nonneg: "0 \<le> fl x"
  by (auto simp: fl_def not_le intro!: mult_nonneg_nonneg round_half_even_nonneg)

lemma fl_zero [simp]: "fl 0 = 0"
  by (simp add: fl_def)

lemma fl_error:
  assumes "0 < x" shows "\<bar>fl x - x\<bar> \<le> pow2 (ulp_exp x) / 2"
proof -
  let ?p = "pow2 (ulp_exp x)"
  have p: "0 < ?p" by simp
  have "\<bar>of_int (round_half_even (x / ?p)) - x / ?p\<bar> * ?p \<le> (1/2) * ?p"
    by (rule mult_right_mono [OF round_half_even_error]) (use p in simp)
  moreover have "\<bar>of_int (round_half_even (x / ?p)) - x / ?p\<bar> * ?p
      = \<bar>(of_int (round_half_even (x / ?p)) - x / ?p) * ?p\<bar>"
    using p by (simp add: abs_mult)
  moreover have "(of_int (round_half_even (x / ?p)) - x / ?p) * ?p = fl x - x"
    using assms by (simp add: fl_def left_diff_distrib)
  ultimately show ?thesis by simp
qed

lemma fl_le_top:
  assumes "0 < x" and "x < pow2 (ulp_exp x + 53)"
  shows "fl x \<le> pow2 (ulp_exp x + 53)"
proof -
  have "x / pow2 (ulp_exp x) \<le> of_int (2 ^ 53)"
    using assms(2) by (simp add: power_int_add field_simps)
  then have "round_half_even (x / pow2 (ulp_exp x)) \<le> 2 ^ 53"
    using round_half_even_mono round_half_even_of_int by metis
  then have "of_int (round_half_even (x / pow2 (ulp_exp x))) \<le> (of_int (2 ^ 53) :: rat)"
    by (simp only: of_int_le_iff)
  then show ?thesis
    using assms(1) by (simp add: fl_def power_int_add mult_right_mono mult.commute)
qed

lemma ulp_top:
  assumes "0 < x" shows "x < pow2 (ulp_exp x + 53)"
proof -
  have "pow2 (binade x + 1) \<le> pow2 (ulp_exp x + 53)"
    by (rule pow2_mono) (simp add: ulp_exp_def)
  then show ?thesis using binade_bounds(2) [OF assms] by linarith
qed

lemma fl_ge_bottom:
  assumes "0 < x" and "ulp_exp x = binade x - 52"
  shows "pow2 (binade x) \<le> fl x"
proof -
  have "of_int (2 ^ 52) \<le> x / pow2 (ulp_exp x)"
    using binade_bounds(1) [OF assms(1)] unfolding assms(2) by (simp add: power_int_diff field_simps)
  then have "2 ^ 52 \<le> round_half_even (x / pow2 (ulp_exp x))"
    using round_half_even_mono round_half_even_of_int by metis
  then have "(of_int (2 ^ 52) :: rat) \<le> of_int (round_half_even (x / pow2 (ulp_exp x)))"
    by (simp only: of_int_le_iff)
  then have "of_int (2 ^ 52) * pow2 (ulp_exp x) \<le> fl x"
    using assms(1) by (simp only: fl_def) (simp add: mult_right_mono)
  moreover have "of_int (2 ^ 52) * pow2 (ulp_exp x) = pow2 (binade x)"
    by (simp add: assms(2) power_int_diff)
  ultimately show ?thesis by simp
qed

lemma fl_mono:
  assumes "x \<le> y" shows "fl x \<le> fl y"
proof (cases "0 < x")
  case False
  then show ?thesis using fl_nonneg [of y] by (simp add: fl_def)
next
  case True
  with assms have y: "0 < y" by linarith
  have b: "binade x \<le> binade y" using binade_mono [OF True assms] .
  show ?thesis
  proof (cases "ulp_exp x = ulp_exp y")
    case same: True
    have "round_half_even (x / pow2 (ulp_exp y)) \<le> round_half_even (y / pow2 (ulp_exp y))"
      by (rule round_half_even_mono) (simp add: assms divide_right_mono)
    then show ?thesis using True y by (simp add: fl_def same mult_right_mono)
  next
    case False
    with b have u: "ulp_exp y = binade y - 52" and lt: "ulp_exp x + 53 \<le> binade y"
      by (auto simp: ulp_exp_def max_def split: if_splits)
    have "fl x \<le> pow2 (ulp_exp x + 53)" by (rule fl_le_top [OF True ulp_top [OF True]])
    also have "\<dots> \<le> pow2 (binade y)" by (rule pow2_mono [OF lt])
    also have "\<dots> \<le> fl y" by (rule fl_ge_bottom [OF y u])
    finally show ?thesis .
  qed
qed

lemma fl_exact:
  assumes "0 \<le> m" and "m < 2 ^ 53" and "-1074 \<le> q"
  shows "fl (of_int m * pow2 q) = of_int m * pow2 q"
proof (cases "m = 0")
  case False
  let ?x = "of_int m * pow2 q :: rat"
  have pos: "0 < ?x" using False assms(1) by simp
  have "(of_int m :: rat) < of_int (2 ^ 53)" using assms(2) by (simp only: of_int_less_iff)
  then have "?x < pow2 (q + 53)" by (simp add: power_int_add mult.commute)
  then have "pow2 (binade ?x) < pow2 (q + 53)" using binade_bounds(1) [OF pos] by linarith
  then have "binade ?x < q + 53" using pow2_mono by (meson leD leI)
  define u where "u = ulp_exp ?x"
  from \<open>binade ?x < q + 53\<close> have le: "u \<le> q" using assms(3) by (simp add: u_def ulp_exp_def)
  define k where "k = nat (q - u)"
  have "pow2 q = pow2 u * 2 ^ k"
    using le by (simp add: k_def flip: power_int_of_nat power_int_add)
  then have x: "?x = of_int (m * 2 ^ k) * pow2 u" by simp
  then have "?x / pow2 u = of_int (m * 2 ^ k)"
    by (metis nonzero_mult_div_cancel_right order_less_irrefl pow2_pos)
  then have "fl ?x = of_int (m * 2 ^ k) * pow2 u"
    using pos by (simp only: fl_def round_half_even_of_int not_le if_not_P flip: u_def)
  with x show ?thesis by metis
qed simp

lemma fl_of_nat: "n < 2 ^ 53 \<Longrightarrow> fl (of_nat n) = of_nat n"
  using fl_exact [of "int n" 0] by (simp add: zless_nat_eq_int_zless [symmetric])

lemma fl_dyadic: "\<exists>m q. fl x = of_int m * pow2 q \<and> 0 \<le> m \<and> m < 2 ^ 53 \<and> -1074 \<le> q"
proof (cases "0 < x")
  case False
  then have "fl x = of_int 0 * pow2 0" by (simp add: fl_def)
  then show ?thesis by (intro exI [of _ 0]) simp
next
  case True
  let ?q = "ulp_exp x" and ?r = "round_half_even (x / pow2 (ulp_exp x))"
  have eq: "fl x = of_int ?r * pow2 ?q" using True by (simp add: fl_def)
  have r0: "0 \<le> ?r" using True by (intro round_half_even_nonneg) simp
  have "of_int ?r * pow2 ?q \<le> of_int (2 ^ 53) * pow2 ?q"
    using fl_le_top [OF True ulp_top [OF True]] by (simp add: eq power_int_add mult.commute)
  then have "(of_int ?r :: rat) \<le> of_int (2 ^ 53)" by simp
  then have r1: "?r \<le> 2 ^ 53" by (simp only: of_int_le_iff)
  have q: "-1074 \<le> ?q" by (simp add: ulp_exp_def)
  show ?thesis
  proof (cases "?r = 2 ^ 53")
    case False
    with r1 have "?r < 2 ^ 53" by linarith
    with eq r0 q show ?thesis by blast
  next
    case top: True
    have "fl x = of_int (2 ^ 52) * pow2 (?q + 1)"
      by (simp only: eq top) (simp add: power_int_add)
    moreover have "(0::int) \<le> 2 ^ 52" "(2::int) ^ 52 < 2 ^ 53" "-1074 \<le> ?q + 1" using q by simp_all
    ultimately show ?thesis by blast
  qed
qed

lemma fl_idem [simp]: "fl (fl x) = fl x"
  using fl_dyadic [of x] by (metis fl_exact)

subsection \<open>Values, comparison and multiplication\<close>

datatype double =
    Fin bool rat   \<comment> \<open>sign (true is negative) and magnitude\<close>
  | Inf bool
  | NaN bool

fun signed :: "bool \<Rightarrow> rat \<Rightarrow> rat" where
  "signed s m = (if s then - m else m)"

definition round_to :: "bool \<Rightarrow> rat \<Rightarrow> double" where
  "round_to s m = (if fl m > max_finite then Inf s else Fin s (fl m))"

text \<open>A decimal literal of the source, such as \<open>1.1\<close>.\<close>

definition literal :: "rat \<Rightarrow> double" where
  "literal x = round_to False x"

text \<open>What every value of type \<open>double\<close> satisfies.\<close>

fun is_double :: "double \<Rightarrow> bool" where
  "is_double (Fin s m) = (0 \<le> m \<and> fl m = m \<and> m \<le> max_finite)"
| "is_double _ = True"

instantiation double :: ord
begin

fun less_double :: "double \<Rightarrow> double \<Rightarrow> bool" where
  "less_double (NaN _) _ = False"
| "less_double _ (NaN _) = False"
| "less_double (Inf s) (Inf t) = (s \<and> \<not> t)"
| "less_double (Inf s) (Fin _ _) = s"
| "less_double (Fin _ _) (Inf t) = (\<not> t)"
| "less_double (Fin s a) (Fin t b) = (signed s a < signed t b)"

fun less_eq_double :: "double \<Rightarrow> double \<Rightarrow> bool" where
  "less_eq_double (NaN _) _ = False"
| "less_eq_double _ (NaN _) = False"
| "less_eq_double (Inf s) (Inf t) = (s \<or> \<not> t)"
| "less_eq_double (Inf s) (Fin _ _) = s"
| "less_eq_double (Fin _ _) (Inf t) = (\<not> t)"
| "less_eq_double (Fin s a) (Fin t b) = (signed s a \<le> signed t b)"

instance ..

end

instantiation double :: times
begin

fun times_double :: "double \<Rightarrow> double \<Rightarrow> double" where
  "times_double (NaN s) _ = NaN s"
| "times_double _ (NaN t) = NaN t"
| "times_double (Inf s) (Inf t) = Inf (s \<noteq> t)"
| "times_double (Inf s) (Fin t b) = (if b = 0 then NaN True else Inf (s \<noteq> t))"
| "times_double (Fin s a) (Inf t) = (if a = 0 then NaN True else Inf (s \<noteq> t))"
| "times_double (Fin s a) (Fin t b) = round_to (s \<noteq> t) (a * b)"

instance ..

end

lemma is_double_round_to: "is_double (round_to s m)"
  by (simp add: round_to_def fl_nonneg)

lemma is_double_times: "is_double a \<Longrightarrow> is_double b \<Longrightarrow> is_double (a * b)"
  by (cases a; cases b) (simp_all add: is_double_round_to del: is_double.simps(1))

text \<open>Comparison is a linear order on the values that are not NaN.\<close>

fun is_nan :: "double \<Rightarrow> bool" where
  "is_nan (NaN _) = True"
| "is_nan _ = False"

lemma double_order_simps:
  fixes a b c :: double
  shows double_le_refl: "\<not> is_nan a \<Longrightarrow> a \<le> a"
    and double_less_imp_le: "a < b \<Longrightarrow> a \<le> b"
    and double_less_not_le: "a < b \<Longrightarrow> \<not> b \<le> a"
    and double_not_less: "\<not> is_nan a \<Longrightarrow> \<not> is_nan b \<Longrightarrow> \<not> a < b \<longleftrightarrow> b \<le> a"
    and double_le_trans: "a \<le> b \<Longrightarrow> b \<le> c \<Longrightarrow> a \<le> c"
    and double_less_le_trans: "a < b \<Longrightarrow> b \<le> c \<Longrightarrow> a < c"
    and double_le_less_trans: "a \<le> b \<Longrightarrow> b < c \<Longrightarrow> a < c"
  by (cases a; cases b; cases c; auto)+

lemma nan_compares_false:
  "is_nan (a :: double) \<Longrightarrow> \<not> a < b" "is_nan (a :: double) \<Longrightarrow> \<not> b < a"
  "is_nan (a :: double) \<Longrightarrow> \<not> a \<le> b" "is_nan (a :: double) \<Longrightarrow> \<not> b \<le> a"
  by (cases a; cases b; auto)+

lemma less_imp_not_nan:
  "(a :: double) < b \<Longrightarrow> \<not> is_nan a \<and> \<not> is_nan b"
  "(a :: double) \<le> b \<Longrightarrow> \<not> is_nan a \<and> \<not> is_nan b"
  by (cases a; cases b; auto)+

text \<open>A positive number never exceeds its product with a factor of at least one.\<close>

lemma round_to_ge:
  assumes "is_double (Fin s m)" and "m \<le> x"
  shows "Fin False m \<le> round_to False x"
  using assms fl_mono [of m x] by (auto simp: round_to_def)

lemma round_to_le:
  assumes "is_double (Fin s m)" and "x \<le> m"
  shows "round_to False x \<le> Fin False m"
  using assms fl_mono [of x m] by (auto simp: round_to_def)

lemma fl_one [simp]: "fl 1 = 1"
  using fl_of_nat [of 1] by simp

subsection \<open>The error of a product with a decimal constant\<close>

lemma fl_rel:
  assumes "pow2 (-1000) \<le> x"
  shows "\<bar>fl x - x\<bar> \<le> x * pow2 (-53)"
proof -
  have x: "0 < x" using assms pow2_pos [of "-1000"] by linarith
  have b: "pow2 (binade x) \<le> x" using binade_bounds [OF x] by simp
  have "-1000 \<le> binade x"
    using binade_mono [of "pow2 (-1000)" x] assms binade_eqI [of "-1000" "pow2 (-1000)"] by simp
  then have "ulp_exp x = binade x - 52" by (simp add: ulp_exp_def)
  then have "pow2 (ulp_exp x) / 2 = pow2 (binade x) * pow2 (-53)"
    by (simp add: pow2_diff power_int_minus)
  then show ?thesis using fl_error [OF x] mult_right_mono [OF b, of "pow2 (-53)"] by simp
qed

lemma product_error:
  assumes c: "1/2 \<le> c" "c \<le> 2" and r: "pow2 (-900) \<le> r" "r \<le> pow2 900"
  shows "\<exists>u. Fin False r * literal c = Fin False u \<and> \<bar>u - c * r\<bar> \<le> c * r * pow2 (-51)"
proof -
  let ?e = "pow2 (-53)" 
  have small: "pow2 (-1000) \<le> pow2 (-900)" by (rule pow2_mono) simp
  have h: "pow2 (-1) = 1/2" "pow2 1 = 2" by (simp_all add: power_int_minus)
  have cm: "pow2 (-1000) \<le> c" using c(1) pow2_mono [of "-1000" "-1"] h by linarith
  have ec: "\<bar>fl c - c\<bar> \<le> c * ?e" by (rule fl_rel [OF cm])
  have e: "?e = 1 / 9007199254740992" by (simp add: power_int_minus)
  have fc: "1/4 \<le> fl c" "fl c \<le> 4" using ec c by (auto simp: e abs_if split: if_splits)
  have top: "\<not> max_finite < fl c"
  proof -
    have "pow2 2 \<le> max_finite" by (simp add: max_finite_def)
    then show ?thesis using fc by simp
  qed
  have lit: "literal c = Fin False (fl c)" using top by (simp add: literal_def round_to_def)
  have rpos: "0 < r" using r(1) pow2_pos [of "-900"] by linarith
  let ?x = "r * fl c"
  have xl: "pow2 (-1000) \<le> ?x"
  proof -
    have "pow2 (-1000) \<le> pow2 (-900) * pow2 (-2)" using pow2_mono [of "-1000" "-902"] by (simp flip: pow2_add)
    also have "\<dots> \<le> r * fl c" using r(1) fc(1) by (intro mult_mono) (simp_all add: power_int_minus)
    finally show ?thesis .
  qed
  have xe: "\<bar>fl ?x - ?x\<bar> \<le> ?x * ?e" by (rule fl_rel [OF xl])
  have "?x \<le> pow2 900 * pow2 2" using r(2) fc rpos by (intro mult_mono) simp_all
  then have xt: "?x \<le> pow2 902" by (simp flip: pow2_add)
  have "fl ?x \<le> pow2 902" using fl_mono [OF xt] fl_exact [of 1 902] by simp
  moreover have "pow2 902 \<le> max_finite" by (simp add: max_finite_def)
  ultimately have "\<not> max_finite < fl ?x" by linarith
  then have res: "Fin False r * literal c = Fin False (fl ?x)" by (simp add: lit round_to_def)
  have "?x - c * r = r * (fl c - c)" by (simp add: algebra_simps)
  then have "\<bar>?x - c * r\<bar> = r * \<bar>fl c - c\<bar>" using rpos by (simp only: abs_mult)
  also have "\<dots> \<le> r * (c * ?e)" using ec rpos by (intro mult_left_mono) simp_all
  finally have d1: "\<bar>?x - c * r\<bar> \<le> c * r * ?e" by (simp add: mult_ac)
  have cr: "0 < c * r" using c rpos by simp
  have "c * r * ?e \<le> c * r * 1" using cr by (intro mult_left_mono) (simp_all add: power_int_minus)
  then have xle: "?x \<le> c * r * 2" using d1 abs_ge_self [of "?x - c * r"] by linarith
  have "?x * ?e \<le> c * r * 2 * ?e" using xle by (intro mult_right_mono) simp_all
  then have "\<bar>fl ?x - c * r\<bar> \<le> c * r * 2 * ?e + c * r * ?e" using xe d1 by linarith
  also have "\<dots> \<le> c * r * pow2 (-51)" using cr by (simp add: power_int_minus)
  finally show ?thesis using res by blast
qed

end
