(* ===== verification/Text.thy ===== *)
theory Text
  imports Double
begin

section \<open>Text conversions of the C++ library\<close>

text \<open>
  \<open>std::stoi\<close>, \<open>std::stol\<close>, \<open>std::stod\<close> and \<open>std::to_string\<close> as the program uses them.
  A \<open>std::string\<close> is a list of bytes (it may hold the byte 0); \<open>c_str\<close> is what a C
  function sees of it. The conversions skip leading white space, accept an optional sign
  and stop at the first byte that cannot continue the number; they throw
  \<open>std::invalid_argument\<close> when nothing was converted and \<open>std::out_of_range\<close> when the
  value does not fit (for \<open>stod\<close> also when it underflows, as glibc reports it).
\<close>

definition NUL :: char where
  "NUL = CHR 0x00"

definition c_str :: "string \<Rightarrow> string" where
  "c_str s = takeWhile (\<lambda>c. c \<noteq> NUL) s"

definition isspace :: "char \<Rightarrow> bool" where
  "isspace c \<longleftrightarrow> c = CHR '' '' \<or> (9 \<le> (of_char c :: nat) \<and> (of_char c :: nat) \<le> 13)"

definition isdigit :: "char \<Rightarrow> bool" where
  "isdigit c \<longleftrightarrow> 48 \<le> (of_char c :: nat) \<and> (of_char c :: nat) \<le> 57"

definition tolower :: "char \<Rightarrow> char" where
  "tolower c = (if 65 \<le> (of_char c :: nat) \<and> (of_char c :: nat) \<le> 90
     then char_of ((of_char c :: nat) + 32) else c)"

definition isxdigit :: "char \<Rightarrow> bool" where
  "isxdigit c \<longleftrightarrow> isdigit c \<or> tolower c \<in> set ''abcdef''"

definition xdigit_val :: "char \<Rightarrow> int" where
  "xdigit_val c = (if isdigit c then of_char c - 48 else of_char (tolower c) - 87)"

definition base_val :: "int \<Rightarrow> string \<Rightarrow> int" where
  "base_val b ds = foldl (\<lambda>a c. a * b + xdigit_val c) 0 ds"

fun take_sign :: "string \<Rightarrow> bool \<times> string" where
  "take_sign (c # s) = (if c = CHR ''-'' then (True, s) else if c = CHR ''+'' then (False, s) else (False, c # s))"
| "take_sign [] = (False, [])"

subsection \<open>Integers\<close>

definition parse_int :: "string \<Rightarrow> int option" where
  "parse_int s =
     (case take_sign (dropWhile isspace s) of (neg, t) \<Rightarrow>
        (let ds = takeWhile isdigit t
         in if ds = [] then None
            else Some (if neg then - base_val 10 ds else base_val 10 ds)))"

definition conv_int :: "nat \<Rightarrow> string \<Rightarrow> fault + int" where
  "conv_int w s =
     (case parse_int s of
        None \<Rightarrow> Inl (Throw Invalid_argument)
      | Some v \<Rightarrow> if - (2 ^ (w - 1)) \<le> v \<and> v < 2 ^ (w - 1) then Inr v
          else Inl (Throw Out_of_range))"

definition stoi :: "string \<Rightarrow> fault + int" where
  "stoi = conv_int 32"

definition stol :: "string \<Rightarrow> fault + int" where
  "stol = conv_int 64"

function show_nonneg :: "int \<Rightarrow> string" where
  "show_nonneg n =
     (if n < 10 then [''0123456789'' ! nat n]
      else show_nonneg (n div 10) @ [''0123456789'' ! nat (n mod 10)])"
  by pat_completeness auto
termination
  by (relation "measure nat") auto

declare show_nonneg.simps [simp del]

definition to_string :: "int \<Rightarrow> string" where
  "to_string n = (if n < 0 then ''-'' @ show_nonneg (- n) else show_nonneg n)"

subsection \<open>Doubles\<close>

datatype scanned = Finite rat | Infinity | Not_a_number

definition prefix_ci :: "string \<Rightarrow> string \<Rightarrow> bool" where
  "prefix_ci p s \<longleftrightarrow> length p \<le> length s \<and> map tolower (take (length p) s) = p"

text \<open>Mantissa digits with an optional point: all digits, and how many follow the point.\<close>

definition scan_mantissa :: "(char \<Rightarrow> bool) \<Rightarrow> string \<Rightarrow> string \<times> nat \<times> string" where
  "scan_mantissa dig s =
     (let ip = takeWhile dig s; r = dropWhile dig s
      in case r of
           c # r' \<Rightarrow> if c = CHR ''.''
             then (ip @ takeWhile dig r', length (takeWhile dig r'), dropWhile dig r')
             else (ip, 0, r)
         | [] \<Rightarrow> (ip, 0, []))"

definition scan_exponent :: "char \<Rightarrow> string \<Rightarrow> int" where
  "scan_exponent e s =
     (case s of
        [] \<Rightarrow> 0
      | c # r \<Rightarrow> if tolower c \<noteq> e then 0
          else (case take_sign r of (neg, t) \<Rightarrow>
                  (let ds = takeWhile isdigit t
                   in if neg then - base_val 10 ds else base_val 10 ds)))"

definition parse_double :: "string \<Rightarrow> (bool \<times> scanned) option" where
  "parse_double s =
     (case take_sign (dropWhile isspace s) of (neg, t) \<Rightarrow>
        if prefix_ci ''inf'' t then Some (neg, Infinity)
        else if prefix_ci ''nan'' t then Some (neg, Not_a_number)
        else case scan_mantissa isxdigit (drop 2 t) of (xds, xn, xr) \<Rightarrow>
          if prefix_ci ''0x'' t \<and> xds \<noteq> [] then
            Some (neg, Finite (of_int (base_val 16 xds)
              * power_int 2 (scan_exponent CHR ''p'' xr - 4 * int xn)))
          else case scan_mantissa isdigit t of (ds, n, r) \<Rightarrow>
            if ds = [] then None
            else Some (neg, Finite (of_int (base_val 10 ds)
              * power_int 10 (scan_exponent CHR ''e'' r - int n))))"

definition stod :: "string \<Rightarrow> fault + double" where
  "stod s =
     (case parse_double s of
        None \<Rightarrow> Inl (Throw Invalid_argument)
      | Some (neg, Infinity) \<Rightarrow> Inr (Inf neg)
      | Some (neg, Not_a_number) \<Rightarrow> Inr (NaN neg)
      | Some (neg, Finite m) \<Rightarrow>
          if fl m > max_finite \<or> (0 < m \<and> fl m < min_normal \<and> fl m \<noteq> m)
          then Inl (Throw Out_of_range) else Inr (Fin neg (fl m)))"

text \<open>\<open>to_string(double)\<close> prints with \<open>%f\<close>: six decimals, correctly rounded.\<close>

definition pad0 :: "nat \<Rightarrow> string \<Rightarrow> string" where
  "pad0 n s = replicate (n - length s) (CHR ''0'') @ s"

definition show_fixed6 :: "rat \<Rightarrow> string" where
  "show_fixed6 m =
     (let k = round_half_even (m * 1000000)
      in show_nonneg (k div 1000000) @ ''.'' @ pad0 6 (show_nonneg (k mod 1000000)))"

fun to_string_double :: "double \<Rightarrow> string" where
  "to_string_double (Fin s m) = (if s then ''-'' else []) @ show_fixed6 m"
| "to_string_double (Inf s) = (if s then ''-'' else []) @ ''inf''"
| "to_string_double (NaN s) = (if s then ''-'' else []) @ ''nan''"

subsection \<open>Facts about digits and sections of text\<close>

lemma takeWhile_append_stop:
  "(\<And>x. x \<in> set xs \<Longrightarrow> P x) \<Longrightarrow> ys = [] \<or> \<not> P (hd ys) \<Longrightarrow> takeWhile P (xs @ ys) = xs"
  by (induction xs) (cases ys; auto)+

lemma dropWhile_append_stop:
  "(\<And>x. x \<in> set xs \<Longrightarrow> P x) \<Longrightarrow> ys = [] \<or> \<not> P (hd ys) \<Longrightarrow> dropWhile P (xs @ ys) = ys"
  by (induction xs) (cases ys; auto)+

lemma of_char_eq_code: "c = d \<longleftrightarrow> (of_char c :: nat) = of_char d"
  by simp

definition digit_text :: "string \<Rightarrow> bool" where
  "digit_text ds \<longleftrightarrow> ds \<noteq> [] \<and> (\<forall>c \<in> set ds. isdigit c)"

lemma digit_not_space: "isdigit c \<Longrightarrow> \<not> isspace c"
  and digit_not_sign: "isdigit c \<Longrightarrow> c \<noteq> CHR ''-'' \<and> c \<noteq> CHR ''+'' \<and> c \<noteq> CHR ''.''"
  and digit_tolower: "isdigit c \<Longrightarrow> tolower c = c"
  and digit_not_sep: "isdigit c \<Longrightarrow> c \<noteq> CHR ''|'' \<and> c \<noteq> CHR ''&'' \<and> c \<noteq> CHR ''<'' \<and> c \<noteq> NUL"
  and digit_not_letter: "isdigit c \<Longrightarrow> c \<noteq> CHR ''i'' \<and> c \<noteq> CHR ''n'' \<and> c \<noteq> CHR ''x'' \<and> c \<noteq> CHR ''e''"
  by (auto simp: isdigit_def isspace_def tolower_def NUL_def of_char_eq_code)

lemma scan_start:
  assumes "digit_text (d # ds)"
  shows "take_sign (dropWhile isspace (d # s)) = (False, d # s)"
    and "\<not> prefix_ci ''inf'' (d # s)" and "\<not> prefix_ci ''nan'' (d # s)"
  using assms digit_not_space [of d] digit_not_sign [of d] digit_tolower [of d] digit_not_letter [of d]
  by (auto simp: digit_text_def prefix_ci_def)

lemma not_hex:
  assumes "digit_text ds" and "rest = [] \<or> tolower (hd rest) \<noteq> CHR ''x''"
  shows "\<not> prefix_ci ''0x'' (ds @ rest)"
proof -
  obtain d ds' where ds: "ds = d # ds'" using assms(1) by (cases ds) (auto simp: digit_text_def)
  show ?thesis
  proof (cases ds')
    case Nil
    then show ?thesis using assms(2) by (cases rest) (auto simp: ds prefix_ci_def)
  next
    case (Cons e es)
    then have "isdigit e" using assms(1) by (simp add: ds digit_text_def)
    then show ?thesis using digit_tolower [of e] digit_not_letter [of e]
      by (auto simp: ds Cons prefix_ci_def)
  qed
qed

subsubsection \<open>Printing and reading integers\<close>

lemma foldl_base:
  fixes k :: int
  shows "foldl (\<lambda>a c. a * b + xdigit_val c) k ys
    = k * b ^ length ys + foldl (\<lambda>a c. a * b + xdigit_val c) 0 ys"
proof (induction ys arbitrary: k)
  case (Cons y ys)
  show ?case
    using Cons.IH [of "k * b + xdigit_val y"] Cons.IH [of "xdigit_val y"]
    by (simp add: algebra_simps)
qed simp

lemma base_val_append:
  "base_val b (xs @ ys) = base_val b xs * b ^ length ys + base_val b ys"
  using foldl_base [of b "base_val b xs" ys] by (simp add: base_val_def)

lemma base_val_replicate0: "base_val b (replicate n (CHR ''0'') @ ys) = base_val b ys"
proof (induction n)
  case (Suc n)
  have "base_val b (CHR ''0'' # zs) = base_val b zs" for zs
    by (simp add: base_val_def xdigit_val_def isdigit_def)
  with Suc show ?case by simp
qed simp

lemma digit_chars:
  assumes "0 \<le> n" and "n < 10"
  shows "isdigit (''0123456789'' ! nat n)" and "xdigit_val (''0123456789'' ! nat n) = n"
proof -
  have "n = 0 \<or> n = 1 \<or> n = 2 \<or> n = 3 \<or> n = 4 \<or> n = 5 \<or> n = 6 \<or> n = 7 \<or> n = 8 \<or> n = 9"
    using assms by presburger
  then show "isdigit (''0123456789'' ! nat n)" and "xdigit_val (''0123456789'' ! nat n) = n"
    by (auto simp: isdigit_def xdigit_val_def)
qed

lemma show_nonneg_digits: "0 \<le> n \<Longrightarrow> digit_text (show_nonneg n)"
proof (induction n rule: show_nonneg.induct)
  case (1 n)
  show ?case
  proof (cases "n < 10")
    case True
    then show ?thesis using 1 by (simp add: digit_text_def show_nonneg.simps [of n] digit_chars)
  next
    case False
    with 1 have "digit_text (show_nonneg (n div 10))" by simp
    then show ?thesis
      using False by (auto simp: digit_text_def show_nonneg.simps [of n] digit_chars)
  qed
qed

lemma base_val_show: "0 \<le> n \<Longrightarrow> base_val 10 (show_nonneg n) = n"
proof (induction n rule: show_nonneg.induct)
  case (1 n)
  have one: "base_val 10 [c] = xdigit_val c" for c by (simp add: base_val_def)
  show ?case
  proof (cases "n < 10")
    case True
    then show ?thesis using 1 by (simp add: one show_nonneg.simps [of n] digit_chars)
  next
    case False
    with 1 have "base_val 10 (show_nonneg (n div 10)) = n div 10" by simp
    then show ?thesis
      using False by (simp add: base_val_append one show_nonneg.simps [of n] digit_chars)
  qed
qed

lemma length_show: "0 \<le> n \<Longrightarrow> n < 10 ^ k \<Longrightarrow> 0 < k \<Longrightarrow> length (show_nonneg n) \<le> k"
proof (induction n arbitrary: k rule: show_nonneg.induct)
  case (1 n)
  show ?case
  proof (cases "n < 10")
    case True
    then show ?thesis using 1 by (simp add: show_nonneg.simps [of n])
  next
    case False
    then obtain j where j: "k = Suc j" "0 < j"
      using 1 by (cases k) (auto, fastforce)
    with "1.prems" have "n div 10 < 10 ^ j" by (simp add: div_less_iff_less_mult mult.commute)
    then have "length (show_nonneg (n div 10)) \<le> j" using "1.IH" False j by simp
    then show ?thesis using False by (simp add: j show_nonneg.simps [of n])
  qed
qed

lemma parse_int_digits:
  assumes "digit_text ds" and "rest = [] \<or> \<not> isdigit (hd rest)"
  shows "parse_int (ds @ rest) = Some (base_val 10 ds)"
proof -
  obtain d ds' where ds: "ds = d # ds'" using assms(1) by (cases ds) (auto simp: digit_text_def)
  have "takeWhile isdigit (ds @ rest) = ds"
    using assms by (intro takeWhile_append_stop) (auto simp: digit_text_def)
  then show ?thesis
    using scan_start(1) [of d ds' "ds' @ rest"] assms(1) by (simp add: parse_int_def ds)
qed

lemma stoi_digits:
  assumes "digit_text ds" and "rest = [] \<or> \<not> isdigit (hd rest)" and "base_val 10 ds < 2 ^ 31"
    and "0 \<le> base_val 10 ds"
  shows "stoi (ds @ rest) = Inr (base_val 10 ds)"
  using assms by (simp add: stoi_def conv_int_def parse_int_digits)

lemma stoi_to_string:
  assumes "0 \<le> n" and "n < 2 ^ 31"
  shows "stoi (to_string n) = Inr n"
  using assms stoi_digits [of "show_nonneg n" "[]"]
  by (simp add: to_string_def show_nonneg_digits base_val_show)

subsubsection \<open>Printing and reading prices\<close>

lemma scan_mantissa_fixed:
  assumes "digit_text ds" and "\<forall>c \<in> set fs. isdigit c"
  shows "scan_mantissa isdigit (ds @ CHR ''.'' # fs) = (ds @ fs, length fs, [])"
proof -
  have "\<not> isdigit CHR ''.''" by (simp add: isdigit_def)
  then have "takeWhile isdigit (ds @ CHR ''.'' # fs) = ds"
    and "dropWhile isdigit (ds @ CHR ''.'' # fs) = CHR ''.'' # fs"
    using assms(1) by (auto simp: digit_text_def intro!: takeWhile_append_stop dropWhile_append_stop)
  moreover have "takeWhile isdigit fs = fs" and "length (takeWhile isdigit fs) = length fs"
    and "dropWhile isdigit fs = []"
    using assms(2) by (simp_all add: takeWhile_eq_all_conv [THEN iffD2])
  ultimately show ?thesis by (simp add: scan_mantissa_def)
qed

lemma parse_double_fixed:
  assumes "digit_text ds" and "\<forall>c \<in> set fs. isdigit c"
  shows "parse_double (ds @ CHR ''.'' # fs)
    = Some (False, Finite (of_int (base_val 10 (ds @ fs)) * power_int 10 (- int (length fs))))"
proof -
  obtain d ds' where ds: "ds = d # ds'" using assms(1) by (cases ds) (auto simp: digit_text_def)
  have "\<not> prefix_ci ''0x'' (ds @ CHR ''.'' # fs)"
    by (rule not_hex [OF assms(1)]) (simp add: tolower_def)
  then show ?thesis
    using scan_start [of d ds' "ds' @ CHR ''.'' # fs"] scan_mantissa_fixed [OF assms] assms(1)
    by (simp add: parse_double_def ds scan_exponent_def split: prod.splits)
qed

lemma parse_double_int:
  assumes "digit_text ds"
  shows "parse_double ds = Some (False, Finite (of_int (base_val 10 ds)))"
proof -
  obtain d ds' where ds: "ds = d # ds'" using assms by (cases ds) (auto simp: digit_text_def)
  have tw: "takeWhile isdigit ds = ds" and dw: "dropWhile isdigit ds = []"
    using assms by (auto simp: digit_text_def takeWhile_eq_all_conv)
  have "scan_mantissa isdigit ds = (ds, 0, [])"
    by (simp only: scan_mantissa_def Let_def tw dw list.case)
  moreover have "\<not> prefix_ci ''0x'' ds" using not_hex [OF assms, of "[]"] by simp
  ultimately show ?thesis
    using scan_start [of d ds' ds'] assms
    by (simp add: parse_double_def ds scan_exponent_def split: prod.splits)
qed

text \<open>
  A price with at most six decimals below \<open>2^33\<close>, stored as the nearest double, prints as
  that decimal and reads back as the same double.
\<close>

lemma decimal_price_near:
  assumes "0 \<le> k" and "k < 1000000 * 2 ^ 33"
  shows "\<bar>fl (of_int k / 1000000) * 1000000 - of_int k\<bar> < 1/2"
proof (cases "k = 0")
  case False
  let ?x = "of_int k / 1000000 :: rat"
  have pos: "0 < ?x" using assms(1) False by simp
  have "(of_int k :: rat) < of_int (1000000 * 2 ^ 33)" using assms(2) by (simp only: of_int_less_iff)
  then have "?x < pow2 33" by simp
  then have "pow2 (binade ?x) < pow2 33" using binade_bounds(1) [OF pos] by linarith
  then have "binade ?x < 33" using pow2_mono by (meson leD leI)
  then have "ulp_exp ?x \<le> -20" by (simp add: ulp_exp_def)
  then have "pow2 (ulp_exp ?x) \<le> pow2 (-20)" by (rule pow2_mono)
  then have "\<bar>fl ?x - ?x\<bar> \<le> pow2 (-20) / 2" using fl_error [OF pos] by linarith
  moreover have "pow2 (-20) / 2 = 1 / 2097152" by (simp add: power_int_minus)
  ultimately have "\<bar>fl ?x - ?x\<bar> \<le> 1 / 2097152" by linarith
  then have "fl ?x - ?x \<le> 1 / 2097152" and "?x - fl ?x \<le> 1 / 2097152" by linarith+
  then show ?thesis unfolding abs_less_iff by (simp add: field_simps)
qed simp

lemma show_fixed6_decimal:
  assumes "0 \<le> k" and "k < 1000000 * 2 ^ 33"
  shows "show_fixed6 (fl (of_int k / 1000000))
    = show_nonneg (k div 1000000) @ CHR ''.'' # pad0 6 (show_nonneg (k mod 1000000))"
  using round_half_even_unique [OF decimal_price_near [OF assms]]
  by (simp add: show_fixed6_def)

lemma stod_finite:
  assumes "parse_double s = Some (neg, Finite x)"
    and "0 \<le> x" and "x \<le> pow2 33" and "x = 0 \<or> pow2 (-20) \<le> x"
  shows "stod s = Inr (Fin neg (fl x))"
proof -
  have "fl (pow2 33) = pow2 33" using fl_exact [of 1 33] by simp
  then have "fl x \<le> pow2 33" using fl_mono [OF assms(3)] by simp
  moreover have "pow2 33 \<le> max_finite" by (simp add: max_finite_def)
  ultimately have big: "\<not> max_finite < fl x" by linarith
  have "fl (pow2 (-20)) = pow2 (-20)" using fl_exact [of 1 "-20"] by simp
  then have "x = 0 \<or> pow2 (-20) \<le> fl x" using assms(4) fl_mono by metis
  moreover have "min_normal \<le> pow2 (-20)" unfolding min_normal_def by (rule pow2_mono) simp
  ultimately have small: "\<not> (0 < x \<and> fl x < min_normal \<and> fl x \<noteq> x)" by auto
  show ?thesis using assms(1) big small by (simp add: stod_def)
qed

lemma stod_int:
  assumes "digit_text ds" and "base_val 10 ds = n" and "0 \<le> n" and "n < 2 ^ 33"
  shows "stod ds = Inr (Fin False (of_int n))"
proof -
  have "(of_int n :: rat) < of_int (2 ^ 33)" using assms(4) by (simp only: of_int_less_iff)
  then have top: "of_int n \<le> pow2 33" by simp
  have low: "of_int n = (0::rat) \<or> pow2 (-20) \<le> of_int n"
  proof (cases "n = 0")
    case False
    then have "(1::rat) \<le> of_int n" using assms(3) by simp
    moreover have "pow2 (-20) \<le> pow2 0" by (rule pow2_mono) simp
    ultimately show ?thesis by simp
  qed simp
  have "fl (of_nat (nat n)) = of_nat (nat n)" using assms(4) by (intro fl_of_nat) simp
  then have "fl (of_int n) = of_int n" using assms(3) by simp
  then show ?thesis
    using stod_finite [OF parse_double_int [OF assms(1)]] assms(2,3) top low by simp
qed

lemma decimal_price_parse:
  assumes "0 \<le> k"
  shows "parse_double (show_nonneg (k div 1000000) @ CHR ''.'' # pad0 6 (show_nonneg (k mod 1000000)))
    = Some (False, Finite (of_int k / 1000000))"
proof -
  let ?q = "show_nonneg (k div 1000000)" and ?f = "pad0 6 (show_nonneg (k mod 1000000))"
  have q: "digit_text ?q" using assms by (intro show_nonneg_digits) simp
  have r: "digit_text (show_nonneg (k mod 1000000))" by (intro show_nonneg_digits) simp
  then have f: "\<forall>c \<in> set ?f. isdigit c" by (auto simp: pad0_def digit_text_def isdigit_def)
  have len: "length (show_nonneg (k mod 1000000)) \<le> 6"
    by (rule length_show) simp_all
  then have lf: "length ?f = 6" by (simp add: pad0_def)
  have "base_val 10 ?f = k mod 1000000"
    by (simp add: pad0_def base_val_replicate0 base_val_show)
  then have "base_val 10 (?q @ ?f) = (k div 1000000) * 10 ^ 6 + k mod 1000000"
    using assms by (simp add: base_val_append lf base_val_show pos_imp_zdiv_nonneg_iff)
  then have "base_val 10 (?q @ ?f) = k" by simp
  then show ?thesis
    using parse_double_fixed [OF q f] by (simp add: lf power_int_minus field_simps)
qed

lemma price_text_roundtrip:
  assumes "0 \<le> k" and "k < 1000000 * 2 ^ 33"
  shows "stod (to_string_double (Fin False (fl (of_int k / 1000000))))
    = Inr (Fin False (fl (of_int k / 1000000)))"
proof -
  have "(of_int k :: rat) < of_int (1000000 * 2 ^ 33)" using assms(2) by (simp only: of_int_less_iff)
  then have top: "of_int k / 1000000 \<le> pow2 33" by simp
  have low: "of_int k / 1000000 = (0::rat) \<or> pow2 (-20) \<le> of_int k / 1000000"
  proof (cases "k = 0")
    case False
    then have "(1::rat) \<le> of_int k" using assms(1) by (metis of_int_1 of_int_le_iff int_one_le_iff_zero_less order_le_less)
    then show ?thesis by (simp add: power_int_minus)
  qed simp
  have "0 \<le> (of_int k / 1000000 :: rat)" using assms(1) by simp
  from stod_finite [OF decimal_price_parse [OF assms(1)] this top low]
  show ?thesis by (simp add: show_fixed6_decimal [OF assms])
qed

end
