(* ===== verification/Tables.thy ===== *)
theory Tables
  imports Text
begin

section \<open>Records and enumerations (Database/table.h, InertiaTrader/enumStorage.h, tableObject.h)\<close>

record orderData =
  od_nid :: string
  od_volumn :: int
  od_orderPrice :: double
  od_symbol :: string
  od_userID :: string
  od_side :: int
  od_client_serialnum :: int

text \<open>Declared for the reports; nothing uses it.\<close>

record reportData =
  rd_nid :: int
  rd_orderID :: string
  rd_orderPrice :: double
  rd_orderVolumn :: int
  rd_execVolumn :: int
  rd_symbol :: string
  rd_userID :: string
  rd_side :: int

record userData =
  userID :: string
  password :: string
  balance :: double
  book_value :: double

record stock =
  stockNum :: int
  priceNow :: double
  priceMax :: double
  priceMin :: double

text \<open>
  An \<open>enum class\<close> has underlying type \<open>int\<close>, so a cast such as \<open>Side(std::stoi(s))\<close>
  can yield a value without a name; it is kept as the last constructor.
\<close>

datatype order_type = ROD | IOC | FOK | Type_NONE
datatype market = AfterHour | TradeHour | Market_NONE
datatype side = BUY | SELL | Side_NONE | Side_unnamed int
datatype order_status = VERIFIED | FAILED | Status_NONE
datatype order_situation = NORMAL | EXECUTE | CANCEL | Situation_NONE
datatype report_type = OrderReport | ExecutionReport | ErrorReport | Report_NONE

fun side_code :: "side \<Rightarrow> int" where
  "side_code BUY = 1"
| "side_code SELL = 2"
| "side_code Side_NONE = 0"
| "side_code (Side_unnamed n) = n"

definition side_of_int :: "int \<Rightarrow> side" where
  "side_of_int n = (if n = 1 then BUY else if n = 2 then SELL else if n = 0 then Side_NONE
     else Side_unnamed n)"

lemma side_code_of_int [simp]: "side_code (side_of_int n) = n"
  by (simp add: side_of_int_def)

text \<open>\<open>UPDATE ... SET Order_situation\<close> uses the codes of \<open>order_situation\<close>.\<close>

fun situation_code :: "order_situation \<Rightarrow> int" where
  "situation_code NORMAL = 1"
| "situation_code EXECUTE = 2"
| "situation_code CANCEL = 3"
| "situation_code Situation_NONE = 0"

end
