(* ===== verification/Simplefunc.thy ===== *)
theory Simplefunc
  imports Text
begin

section \<open>String helpers: split (funclib/simplefunc.cpp) and the searches of std::string\<close>

text \<open>
  \<open>split\<close> copies its two arguments to C strings and collects the tokens \<open>strtok\<close> yields:
  the maximal non-empty runs of bytes that are not delimiters. Empty fields therefore
  disappear, and everything from the first zero byte on is ignored.
\<close>

function strtok_all :: "string \<Rightarrow> string \<Rightarrow> string list" where
  "strtok_all d s =
     (let t = dropWhile (\<lambda>c. c \<in> set d) s
      in if t = [] then []
         else takeWhile (\<lambda>c. c \<notin> set d) t # strtok_all d (dropWhile (\<lambda>c. c \<notin> set d) t))"
  by pat_completeness auto
termination
proof (relation "measure (\<lambda>(d, s). length s)", goal_cases)
  case (2 d s t)
  then have "t \<noteq> []" and t: "t = dropWhile (\<lambda>c. c \<in> set d) s" by simp_all
  then have "\<not> hd t \<in> set d" using hd_dropWhile by metis
  then have "dropWhile (\<lambda>c. c \<notin> set d) t = dropWhile (\<lambda>c. c \<notin> set d) (tl t)"
    using \<open>t \<noteq> []\<close> by (cases t) auto
  then have "length (dropWhile (\<lambda>c. c \<notin> set d) t) \<le> length (tl t)"
    using length_dropWhile_le by metis
  also have "\<dots> < length t" using \<open>t \<noteq> []\<close> by simp
  also have "\<dots> \<le> length s" using length_dropWhile_le t by metis
  finally show ?case by simp
qed simp

declare strtok_all.simps [simp del]

definition split :: "string \<Rightarrow> string \<Rightarrow> string list" where
  "split str delim = (if str = [] then [] else strtok_all (c_str delim) (c_str str))"

subsection \<open>Tokens\<close>

lemma strtok_all_delims: "\<forall>c \<in> set s. c \<in> set d \<Longrightarrow> strtok_all d s = []"
  by (simp add: strtok_all.simps [of d s])

lemma strtok_all_Nil [simp]: "strtok_all d [] = []"
  by (simp add: strtok_all_delims)

lemma strtok_all_skip: "c \<in> set d \<Longrightarrow> strtok_all d (c # s) = strtok_all d s"
  using strtok_all.simps [of d "c # s"] strtok_all.simps [of d s] by (simp only: dropWhile.simps if_True)

lemma strtok_all_token:
  assumes "w \<noteq> []" and "set w \<inter> set d = {}" and "rest = [] \<or> hd rest \<in> set d"
  shows "strtok_all d (w @ rest) = w # strtok_all d rest"
proof -
  obtain c w' where w: "w = c # w'" using assms(1) by (cases w) auto
  have "dropWhile (\<lambda>c. c \<in> set d) (w @ rest) = w @ rest"
    using assms(2) by (simp add: w)
  moreover have "takeWhile (\<lambda>c. c \<notin> set d) (w @ rest) = w"
    using assms(2,3) by (intro takeWhile_append_stop) auto
  moreover have "dropWhile (\<lambda>c. c \<notin> set d) (w @ rest) = rest"
    using assms(2,3) by (intro dropWhile_append_stop) auto
  ultimately show ?thesis using assms(1) by (simp add: strtok_all.simps [of d "w @ rest"])
qed

lemma strtok_all_token_end:
  "w \<noteq> [] \<Longrightarrow> set w \<inter> set d = {} \<Longrightarrow> strtok_all d w = [w]"
  using strtok_all_token [of w d "[]"] by simp

lemma strtok_all_sound:
  "w \<in> set (strtok_all d s) \<Longrightarrow> w \<noteq> [] \<and> set w \<inter> set d = {} \<and> set w \<subseteq> set s"
proof (induction d s rule: strtok_all.induct)
  case (1 d s)
  define t where "t = dropWhile (\<lambda>c. c \<in> set d) s"
  show ?case
  proof (cases "t = []")
    case True
    then show ?thesis using "1.prems" by (simp add: strtok_all.simps [of d s] t_def)
  next
    case False
    let ?u = "takeWhile (\<lambda>c. c \<notin> set d) t"
    have tokens: "strtok_all d s = ?u # strtok_all d (dropWhile (\<lambda>c. c \<notin> set d) t)"
      using False by (simp add: strtok_all.simps [of d s] t_def Let_def)
    have sub: "set t \<subseteq> set s" unfolding t_def by (auto dest: set_dropWhileD)
    show ?thesis
    proof (cases "w = ?u")
      case True
      have "hd t \<notin> set d" using False hd_dropWhile unfolding t_def by metis
      then have "?u \<noteq> []" using False by (cases t) auto
      then show ?thesis using True sub by (auto dest: set_takeWhileD)
    next
      case wn: False
      then have "w \<in> set (strtok_all d (dropWhile (\<lambda>c. c \<notin> set d) t))"
        using "1.prems" tokens by simp
      then have "w \<noteq> [] \<and> set w \<inter> set d = {} \<and> set w \<subseteq> set (dropWhile (\<lambda>c. c \<notin> set d) t)"
        using "1.IH" [OF t_def] False by blast
      then show ?thesis using sub by (auto dest: set_dropWhileD)
    qed
  qed
qed

text \<open>No byte outside the delimiters is lost or reordered.\<close>

lemma strtok_all_concat: "concat (strtok_all d s) = filter (\<lambda>c. c \<notin> set d) s"
proof (induction d s rule: strtok_all.induct)
  case (1 d s)
  define t where "t = dropWhile (\<lambda>c. c \<in> set d) s"
  have skip: "filter (\<lambda>c. c \<notin> set d) s = filter (\<lambda>c. c \<notin> set d) t"
    unfolding t_def by (induction s) auto
  show ?case
  proof (cases "t = []")
    case True
    then show ?thesis using skip by (simp add: strtok_all.simps [of d s] t_def [symmetric])
  next
    case False
    let ?p = "\<lambda>c. c \<notin> set d"
    have "concat (strtok_all d s) = takeWhile ?p t @ filter ?p (dropWhile ?p t)"
      using False "1.IH" [OF t_def False] by (simp add: strtok_all.simps [of d s] Let_def flip: t_def)
    also have "takeWhile ?p t = filter ?p (takeWhile ?p t)"
      by (metis (no_types, lifting) filter_True set_takeWhileD)
    finally show ?thesis
      using skip by (simp only: filter_append [symmetric] takeWhile_dropWhile_id)
  qed
qed

text \<open>The fields of a message, each followed by the delimiter, are exactly what comes back.\<close>

definition field_ok :: "char \<Rightarrow> string \<Rightarrow> bool" where
  "field_ok d w \<longleftrightarrow> w \<noteq> [] \<and> d \<notin> set w \<and> NUL \<notin> set w"

definition join :: "char \<Rightarrow> string list \<Rightarrow> string" where
  "join d ws = concat (map (\<lambda>w. w @ [d]) ws)"

lemma join_simps [simp]: "join d [] = []" "join d (w # ws) = w @ d # join d ws"
  by (simp_all add: join_def)

lemma strtok_all_join:
  assumes "\<forall>w \<in> set ws. field_ok d w"
  shows "strtok_all [d] (join d ws @ rest) = ws @ strtok_all [d] rest"
  using assms
proof (induction ws)
  case (Cons w ws)
  then have "strtok_all [d] (w @ d # join d ws @ rest) = w # strtok_all [d] (d # join d ws @ rest)"
    by (intro strtok_all_token) (auto simp: field_ok_def)
  with Cons show ?case by (simp add: strtok_all_skip)
qed simp

lemma c_str_id: "NUL \<notin> set s \<Longrightarrow> c_str s = s"
  by (auto simp: c_str_def)

lemma NUL_notin_join:
  "d \<noteq> NUL \<Longrightarrow> \<forall>w \<in> set ws. field_ok d w \<Longrightarrow> NUL \<notin> set (join d ws)"
  by (induction ws) (auto simp: field_ok_def)

lemma split_join_append:
  assumes "\<forall>w \<in> set ws. field_ok d w" and "d \<noteq> NUL" and "NUL \<notin> set rest"
  shows "split (join d ws @ rest) [d] = ws @ strtok_all [d] rest"
proof (cases "join d ws @ rest = []")
  case True
  then have "ws = []" and "rest = []" by (cases ws; simp)+
  then show ?thesis by (simp add: split_def)
next
  case False
  then show ?thesis
    using assms NUL_notin_join [OF assms(2,1)]
    by (simp only: split_def) (simp add: c_str_id strtok_all_join)
qed

lemma split_join:
  "\<forall>w \<in> set ws. field_ok d w \<Longrightarrow> d \<noteq> NUL \<Longrightarrow> split (join d ws) [d] = ws"
  using split_join_append [of ws d "[]"] by simp

subsection \<open>Searching and cutting a std::string\<close>

text \<open>\<open>s.find(p)\<close>: the first position of \<open>p\<close>; \<open>None\<close> is \<open>npos\<close>.\<close>

fun str_find :: "string \<Rightarrow> string \<Rightarrow> nat option" where
  "str_find p [] = (if p = [] then Some 0 else None)"
| "str_find p (c # s) =
     (if take (length p) (c # s) = p then Some 0 else map_option Suc (str_find p s))"

text \<open>\<open>s.substr(0, s.find(p))\<close>: everything when \<open>p\<close> does not occur.\<close>

definition upto_find :: "string \<Rightarrow> string \<Rightarrow> string" where
  "upto_find p s = (case str_find p s of None \<Rightarrow> s | Some i \<Rightarrow> take i s)"

text \<open>\<open>s.find_last_of(c)\<close>.\<close>

fun find_last :: "char \<Rightarrow> string \<Rightarrow> nat option" where
  "find_last c [] = None"
| "find_last c (x # s) =
     (case find_last c s of Some i \<Rightarrow> Some (Suc i) | None \<Rightarrow> if x = c then Some 0 else None)"

lemma find_last_None: "find_last c s = None \<longleftrightarrow> c \<notin> set s"
  by (induction s) (auto split: option.splits)

lemma find_last_Some:
  "find_last c s = Some i \<Longrightarrow> s = take i s @ c # drop (Suc i) s \<and> c \<notin> set (drop (Suc i) s)"
proof (induction s arbitrary: i)
  case (Cons x s)
  then show ?case by (auto simp: find_last_None split: option.splits if_splits)
qed simp

lemma find_last_append: "c \<notin> set t \<Longrightarrow> find_last c (s @ c # t) = Some (length s)"
proof (induction s)
  case Nil
  then show ?case by (simp add: find_last_None [THEN iffD2])
qed simp

lemma str_find_char:
  "c \<notin> set w \<Longrightarrow> str_find [c] (w @ c # s) = Some (length w)"
  "c \<notin> set w \<Longrightarrow> str_find [c] w = None"
  by (induction w) auto

lemma upto_find_char [simp]:
  "c \<notin> set w \<Longrightarrow> upto_find [c] (w @ c # s) = w"
  "c \<notin> set w \<Longrightarrow> upto_find [c] w = w"
  by (simp_all add: upto_find_def str_find_char)

lemma str_find_bound: "str_find p s = Some i \<Longrightarrow> i + length p \<le> length s \<and> take (length p) (drop i s) = p"
proof (induction s arbitrary: i)
  case Nil
  then show ?case by (auto split: if_splits)
next
  case (Cons c s)
  show ?case
  proof (cases "take (length p) (c # s) = p")
    case True
    then have "length p \<le> length (c # s)" by (metis length_take min.cobounded1)
    then show ?thesis using True Cons.prems by auto
  next
    case False
    then show ?thesis using Cons by auto
  qed
qed

lemma str_find_None: "str_find p s = None \<longleftrightarrow> (\<nexists>u v. s = u @ p @ v)"
proof (induction s)
  case (Cons c s)
  have "(\<exists>u v. c # s = u @ p @ v) \<longleftrightarrow> take (length p) (c # s) = p \<or> (\<exists>u v. s = u @ p @ v)"
  proof
    assume "\<exists>u v. c # s = u @ p @ v"
    then obtain u v where uv: "c # s = u @ p @ v" by blast
    then show "take (length p) (c # s) = p \<or> (\<exists>u v. s = u @ p @ v)"
      by (cases u) auto
  next
    assume "take (length p) (c # s) = p \<or> (\<exists>u v. s = u @ p @ v)"
    then show "\<exists>u v. c # s = u @ p @ v"
      by (metis append_Cons append_Nil append_take_drop_id)
  qed
  with Cons show ?case by auto
qed auto

end
