(* ===== verification/Orders.thy ===== *)
theory Orders
  imports Tables Simplefunc "HOL-Library.Word"
begin

section \<open>Orders, risk control and reports (InertiaTrader/trader.h, trader.cpp 1-112)\<close>

text \<open>
  An \<open>Order\<close> with the members the program reads; the constructor sets none of the scalar
  ones. \<open>RiskController\<close> checks an order against the trading data of the day, and
  \<open>generateNid\<close> of \<open>Trader\<close> and \<open>Report\<close> builds a 64-bit number from two \<open>int\<close>s.
\<close>

record order =
  nid :: string
  orderPrice :: double
  execPrice :: double
  symbol :: string
  o_userID :: string
  client_serialNum :: int
  connId :: int
  o_side :: int
  side_m :: side
  price_m :: double
  orderstatus_m :: order_status
  ordersituation_m :: order_situation

text \<open>\<open>new Order\<close>: empty strings; the scalars hold what the memory held.\<close>

definition Order :: "order \<Rightarrow> order" where
  "Order memory = memory\<lparr>nid := [], symbol := [], o_userID := []\<rparr>"

definition setStatus :: "order_status \<Rightarrow> order \<Rightarrow> order" where
  "setStatus st ord = ord\<lparr>orderstatus_m := st\<rparr>"

definition getStatus :: "order \<Rightarrow> order_status" where
  "getStatus ord = orderstatus_m ord"

definition setSituation :: "order_situation \<Rightarrow> order \<Rightarrow> order" where
  "setSituation st ord = ord\<lparr>ordersituation_m := st\<rparr>"

definition getSituation :: "order \<Rightarrow> order_situation" where
  "getSituation ord = ordersituation_m ord"

definition setside :: "side \<Rightarrow> order \<Rightarrow> order" where
  "setside sd ord = ord\<lparr>side_m := sd\<rparr>"

definition getside :: "order \<Rightarrow> side" where
  "getside ord = side_m ord"

definition getPrice :: "order \<Rightarrow> double" where
  "getPrice ord = price_m ord"

text \<open>\<open>Order::operator<\<close>; the multisets of the trader hold pointers and do not use it.\<close>

definition order_before :: "order \<Rightarrow> order \<Rightarrow> bool" where
  "order_before this p \<longleftrightarrow> orderPrice p > orderPrice this
     \<or> (orderPrice p \<le> orderPrice this \<and> orderPrice this \<le> orderPrice p)"

subsection \<open>Risk control\<close>

text \<open>
  \<open>RiskController::verify\<close> with its two lists as arguments. The reference price is the
  third field of the trading data, converted anew for both comparisons.
\<close>

definition verify :: "string list \<Rightarrow> string list \<Rightarrow> order \<Rightarrow> ('s, order) cpp" where
  "verify productList tradeBasicData ord =
     bnd (vec_at tradeBasicData 2) (\<lambda>t.
     bnd (lift (stod t)) (\<lambda>reference.
       ret (if orderPrice ord > reference * literal (11/10)
               \<or> orderPrice ord < reference * literal (9/10)
               \<or> symbol ord \<notin> set productList
            then setStatus FAILED ord else setStatus VERIFIED ord)))"

subsection \<open>Serial numbers\<close>

text \<open>
  \<open>((ulong) nid_sub1) << 32 | nid_sub2\<close>: both operands are converted from \<open>int\<close> to 64
  bits with their sign. Incrementing the largest \<open>int\<close> is undefined.
\<close>

definition nid_key :: "32 word \<Rightarrow> 32 word \<Rightarrow> 64 word" where
  "nid_key sub1 sub2 = or (push_bit 32 (scast sub1)) (scast sub2)"

definition next_nid :: "32 word \<Rightarrow> 32 word \<Rightarrow> fault + (int \<times> 32 word)" where
  "next_nid sub1 sub2 =
     (if sub2 = 0x7FFFFFFF then Inl (Undefined Signed_overflow)
      else Inr (sint (nid_key sub1 sub2), sub2 + 1))"

subsection \<open>Reports\<close>

record report =
  reportType_m :: report_type
  rp_sub1 :: "32 word"
  rp_sub2 :: "32 word"

definition setReportType :: "report_type \<Rightarrow> report \<Rightarrow> report" where
  "setReportType rpt r = r\<lparr>reportType_m := rpt\<rparr>"

definition Report_generateNid :: "(report, int) cpp" where
  "Report_generateNid =
     bnd (get (\<lambda>r. next_nid (rp_sub1 r) (rp_sub2 r))) (\<lambda>res.
     bnd (lift res) (\<lambda>(key, n). seq (upd (\<lambda>r. r\<lparr>rp_sub2 := n\<rparr>)) (ret key)))"

text \<open>The order passed to \<open>composeReport\<close> is not used.\<close>

definition composeReport :: "report \<Rightarrow> string" where
  "composeReport r =
     (if reportType_m r = Report_NONE then []
      else if reportType_m r = OrderReport then ''100|success''
      else ''100|failed'')"

subsection \<open>The value of a serial number\<close>

lemma or_disjoint:
  fixes a b :: int 
  assumes "0 \<le> b" "b < 2 ^ 32"
  shows "or (push_bit 32 a) b = a * 2 ^ 32 + b"
proof -
  have "and (push_bit 32 a) b = 0"
  proof (rule bit_eqI)
    fix n
    show "bit (and (push_bit 32 a) b) n = bit (0::int) n"
    proof (cases "n < 32")
      case True
      then show ?thesis by (simp add: bit_simps)
    next
      case False
      then have "(2::int) ^ 32 \<le> 2 ^ n" by (intro power_increasing) auto
      then have "b div 2 ^ n = 0" using assms by (intro div_pos_pos_trivial) auto
      then have "\<not> bit b n" by (simp add: bit_iff_odd)
      then show ?thesis by (simp add: bit_and_iff)
    qed
  qed
  then show ?thesis by (simp add: disjunctive_add_eq_or [symmetric] push_bit_eq_mult)
qed


lemma scast_int:
  assumes "0 \<le> i" "i < 2 ^ 31"
  shows "(scast (word_of_int i :: 32 word) :: 64 word) = word_of_int i"
proof -
  have "sint (word_of_int i :: 32 word) = i" using assms by (simp add: sint_sbintrunc' signed_take_bit_int_eq_self)
  then show ?thesis by (simp add: scast_eq)
qed

lemma nid_key_value:
  assumes "0 \<le> i" "i < 2 ^ 31" "0 \<le> j" "j < 2 ^ 31"
  shows "sint (nid_key (word_of_int i) (word_of_int j)) = i * 2 ^ 32 + j"
proof -
  have "nid_key (word_of_int i) (word_of_int j) = word_of_int (or (push_bit 32 i) j)"
    unfolding nid_key_def using assms
    by (simp only: scast_int of_int_or_eq of_int_push_bit) 
  also have "or (push_bit 32 i) j = i * 2 ^ 32 + j" using assms by (intro or_disjoint) auto
  finally have key: "nid_key (word_of_int i) (word_of_int j) = word_of_int (i * 2 ^ 32 + j)" .
  have "0 \<le> i * 2 ^ 32 + j" "i * 2 ^ 32 + j < 2 ^ 63" using assms by simp_all
  then show ?thesis unfolding key by (simp only: sint_sbintrunc') (rule signed_take_bit_int_eq_self, simp_all)
qed
lemma next_nid_value:
  assumes "0 \<le> i" and "i < 2 ^ 31 - 1" and "0 < j" and "j < 2 ^ 31 - 1"
  shows "next_nid (word_of_int i) (word_of_int j) = Inr (i * 2 ^ 32 + j, word_of_int (j + 1))"
proof -
  have "(word_of_int j :: 32 word) \<noteq> word_of_int 0x7FFFFFFF"
  proof
    assume "(word_of_int j :: 32 word) = word_of_int 0x7FFFFFFF"
    then have "uint (word_of_int j :: 32 word) = uint (word_of_int 0x7FFFFFFF :: 32 word)" by simp
    then show False using assms by (simp only: uint_word_of_int) simp
  qed
  then have "(word_of_int j :: 32 word) \<noteq> 0x7FFFFFFF" by simp
  moreover have "sint (nid_key (word_of_int i) (word_of_int j)) = i * 2 ^ 32 + j"
    using assms by (intro nid_key_value) simp_all
  ultimately show ?thesis by (simp add: next_nid_def)
qed


end
