(* ===== verification/Std_Map.thy ===== *)
theory Std_Map
  imports Prelude
begin

section \<open>std::map\<close>

text \<open>
  The program keeps its connections, users, quotes and settings in \<open>std::map\<close>s and walks
  one of them by iterator, so the order of the keys matters: a map is the list of its
  entries in increasing order of the key. \<open>map_insert\<close> is \<open>insert\<close> (an existing entry
  stays), \<open>map_put\<close> is assignment through \<open>operator[]\<close>, and \<open>map_subscript\<close> is a read
  through \<open>operator[]\<close>, which inserts a default value for a missing key.
\<close>

type_synonym ('k, 'v) smap = "('k \<times> 'v) list"

abbreviation map_find :: "('k, 'v) smap \<Rightarrow> 'k \<Rightarrow> 'v option" where
  "map_find m k \<equiv> map_of m k"

fun map_insert :: "'k::linorder \<Rightarrow> 'v \<Rightarrow> ('k, 'v) smap \<Rightarrow> ('k, 'v) smap" where
  "map_insert k v [] = [(k, v)]"
| "map_insert k v ((k', v') # m) =
     (if k < k' then (k, v) # (k', v') # m
      else if k = k' then (k', v') # m
      else (k', v') # map_insert k v m)"

fun map_put :: "'k::linorder \<Rightarrow> 'v \<Rightarrow> ('k, 'v) smap \<Rightarrow> ('k, 'v) smap" where
  "map_put k v [] = [(k, v)]"
| "map_put k v ((k', v') # m) =
     (if k < k' then (k, v) # (k', v') # m
      else if k = k' then (k, v) # m
      else (k', v') # map_put k v m)"

definition map_erase :: "'k \<Rightarrow> ('k, 'v) smap \<Rightarrow> ('k, 'v) smap" where
  "map_erase k m = filter (\<lambda>e. fst e \<noteq> k) m"

definition map_subscript :: "'k::linorder \<Rightarrow> 'v \<Rightarrow> ('k, 'v) smap \<Rightarrow> 'v \<times> ('k, 'v) smap" where
  "map_subscript k d m =
     (case map_find m k of Some v \<Rightarrow> (v, m) | None \<Rightarrow> (d, map_insert k d m))"

definition ordered :: "('k::linorder, 'v) smap \<Rightarrow> bool" where
  "ordered m \<longleftrightarrow> sorted_wrt (<) (map fst m)"

lemma ordered_simps [simp]:
  "ordered []"
  "ordered ((k, v) # m) \<longleftrightarrow> (\<forall>k' \<in> fst ` set m. k < k') \<and> ordered m"
  by (simp_all add: ordered_def)

lemma keys_insert: "fst ` set (map_insert k v m) = insert k (fst ` set m)"
proof (induction m)
  case (Cons e m)
  then show ?case by (cases e) (simp add: insert_commute)
qed simp

lemma keys_put: "fst ` set (map_put k v m) = insert k (fst ` set m)"
proof (induction m)
  case (Cons e m)
  then show ?case by (cases e) (simp add: insert_commute)
qed simp

lemma ordered_insert: "ordered m \<Longrightarrow> ordered (map_insert k v m)"
proof (induction m)
  case (Cons e m)
  then show ?case
    by (cases e) (simp add: keys_insert, meson less_trans not_less_iff_gr_or_eq)
qed simp

lemma ordered_put: "ordered m \<Longrightarrow> ordered (map_put k v m)"
proof (induction m)
  case (Cons e m)
  then show ?case
    by (cases e) (simp add: keys_put, meson less_trans not_less_iff_gr_or_eq)
qed simp

lemma ordered_erase: "ordered m \<Longrightarrow> ordered (map_erase k m)"
  by (induction m) (auto simp: map_erase_def)

lemma find_ordered_less: "ordered m \<Longrightarrow> \<forall>k' \<in> fst ` set m. k < k' \<Longrightarrow> map_find m k = None"
  by (metis map_of_eq_None_iff order_less_irrefl)

lemma find_insert:
  "ordered m \<Longrightarrow> map_find (map_insert k v m)
     = (case map_find m k of None \<Rightarrow> (map_find m)(k \<mapsto> v) | Some _ \<Rightarrow> map_find m)"
proof (induction m)
  case (Cons e m)
  obtain k' v' where e: "e = (k', v')" by force
  have "k < k' \<Longrightarrow> map_find m k = None"
    using Cons.prems by (intro find_ordered_less) (auto simp: e)
  with Cons show ?case by (auto simp: e fun_eq_iff split: option.splits)
qed simp

lemma find_put: "ordered m \<Longrightarrow> map_find (map_put k v m) = (map_find m)(k \<mapsto> v)"
  by (induction m) (auto simp: fun_eq_iff)

lemma find_erase: "map_find (map_erase k m) = (map_find m)(k := None)"
  by (induction m) (auto simp: map_erase_def fun_eq_iff)

subsection \<open>The interface its clients rely on\<close>

locale ordered_map =
  fixes find :: "'m \<Rightarrow> 'k \<Rightarrow> 'v option"
    and empty :: 'm
    and insert_new :: "'k \<Rightarrow> 'v \<Rightarrow> 'm \<Rightarrow> 'm"
    and assign :: "'k \<Rightarrow> 'v \<Rightarrow> 'm \<Rightarrow> 'm"
    and erase :: "'k \<Rightarrow> 'm \<Rightarrow> 'm"
    and invar :: "'m \<Rightarrow> bool"
  assumes find_empty: "find empty = (\<lambda>_. None)"
    and find_insert_new: "invar m \<Longrightarrow> find (insert_new k v m)
      = (case find m k of None \<Rightarrow> (find m)(k \<mapsto> v) | Some _ \<Rightarrow> find m)"
    and find_assign: "invar m \<Longrightarrow> find (assign k v m) = (find m)(k \<mapsto> v)"
    and find_erased: "invar m \<Longrightarrow> find (erase k m) = (find m)(k := None)"
    and invar_empty: "invar empty"
    and invar_insert_new: "invar m \<Longrightarrow> invar (insert_new k v m)"
    and invar_assign: "invar m \<Longrightarrow> invar (assign k v m)"
    and invar_erase: "invar m \<Longrightarrow> invar (erase k m)"
begin

text \<open>Loading rows with \<open>insert\<close> keeps the first row of each key.\<close>

lemma invar_load: "invar m \<Longrightarrow> invar (foldl (\<lambda>m (k, v). insert_new k v m) m kvs)"
  by (induction kvs arbitrary: m) (auto intro: invar_insert_new)

lemma find_load:
  "invar m \<Longrightarrow> find (foldl (\<lambda>m (k, v). insert_new k v m) m kvs) = map_of kvs ++ find m"
proof (induction kvs arbitrary: m)
  case (Cons e kvs)
  obtain k v where e: "e = (k, v)" by force
  from Cons show ?case
    by (auto simp: e find_insert_new invar_insert_new fun_eq_iff map_add_def split: option.splits)
qed simp

text \<open>Assigning bindings in order keeps the last value of each key.\<close>

lemma invar_assign_all: "invar m \<Longrightarrow> invar (foldl (\<lambda>m (k, v). assign k v m) m kvs)"
  by (induction kvs arbitrary: m) (auto intro: invar_assign)

lemma find_assign_all:
  "invar m \<Longrightarrow> find (foldl (\<lambda>m (k, v). assign k v m) m kvs) = find m ++ map_of (rev kvs)"
proof (induction kvs arbitrary: m)
  case (Cons e kvs)
  obtain k v where e: "e = (k, v)" by force
  from Cons show ?case
    by (auto simp: e find_assign invar_assign fun_eq_iff map_add_def split: option.splits)
qed simp

lemma insert_present: "invar m \<Longrightarrow> find m k = Some w \<Longrightarrow> find (insert_new k v m) = find m"
  by (simp add: find_insert_new)

end

interpretation smap: ordered_map map_of "[]" map_insert map_put map_erase ordered
  by unfold_locales
     (auto simp: find_insert find_put find_erase ordered_insert ordered_put ordered_erase)

lemma map_insert_present: "ordered m \<Longrightarrow> map_find m k = Some w \<Longrightarrow> map_insert k v m = m"
proof (induction m)
  case (Cons e m)
  obtain k' v' where e: "e = (k', v')" by force
  have "k < k' \<Longrightarrow> map_find m k = None"
    using Cons.prems by (intro find_ordered_less) (auto simp: e)
  with Cons show ?case by (auto simp: e split: if_splits)
qed simp

lemma set_insert_absent: "map_find m k = None \<Longrightarrow> set (map_insert k v m) = insert (k, v) (set m)"
  by (induction m) (auto split: if_splits)

lemma subscript_present: "map_find m k = Some v \<Longrightarrow> map_subscript k d m = (v, m)"
  and subscript_absent: "map_find m k = None \<Longrightarrow> map_subscript k d m = (d, map_insert k d m)"
  by (simp_all add: map_subscript_def)

end
