(* ===== verification/Init_Parser.thy ===== *)
theory Init_Parser
  imports Simplefunc Std_Map
begin

section \<open>The settings file (funclib/initParser.cpp)\<close>

text \<open>
  \<open>InitParser(path, target)\<close> reads the section \<open>[target]\<close> of a settings file into
  \<open>iniContainer\<close>. \<open>findLine\<close> records the line numbers (from 1) of every line that starts
  with \<open>[\<close> and of the last line that contains \<open>[target]\<close>, and takes the next recorded line
  as the end of the section; \<open>readLine\<close> cuts the lines in between at every \<open>=\<close>.
  A file is the list of lines \<open>std::getline\<close> yields, or \<open>None\<close> when it does not open.
  The members keep their values between two calls, as the program's client reads its file
  before every connection attempt.
\<close>

record initParser =
  tagLineNum_m :: "int list"
  startPos_m :: int
  endPos_m :: int
  target_m :: string
  path_m :: string
  iniContainer :: "(string, string) smap"

definition InitParser :: "string \<Rightarrow> string \<Rightarrow> initParser" where
  "InitParser path target =
     \<lparr>tagLineNum_m = [], startPos_m = 0, endPos_m = 0, target_m = target, path_m = path,
      iniContainer = []\<rparr>"

text \<open>The body of the first loop for line number \<open>n\<close>; \<open>line[0]\<close> of an empty line is the terminator.\<close>

definition scan_tag :: "int \<Rightarrow> string \<Rightarrow> initParser \<Rightarrow> initParser" where
  "scan_tag n line ip =
     (let ip1 = (if line \<noteq> [] \<and> hd line = CHR ''['' then ip\<lparr>tagLineNum_m := tagLineNum_m ip @ [n]\<rparr> else ip)
      in if str_find (''['' @ target_m ip @ '']'') line \<noteq> None then ip1\<lparr>startPos_m := n\<rparr> else ip1)"

fun scan_tags :: "int \<Rightarrow> string list \<Rightarrow> initParser \<Rightarrow> initParser" where
  "scan_tags n [] ip = ip"
| "scan_tags n (l # ls) ip = scan_tags (n + 1) ls (scan_tag n l ip)"

text \<open>\<open>std::distance(begin, std::find(begin, end, x))\<close>.\<close>

fun index_of :: "'a \<Rightarrow> 'a list \<Rightarrow> nat" where
  "index_of x [] = 0"
| "index_of x (y # ys) = (if x = y then 0 else Suc (index_of x ys))"

definition findLine :: "string list option \<Rightarrow> (initParser, unit) cpp" where
  "findLine file =
     (case file of
        None \<Rightarrow> ret ()
      | Some lines \<Rightarrow>
          seq (upd (scan_tags 1 lines))
         (bnd (get startPos_m) (\<lambda>start.
            if start = 0 then ret ()
            else
              bnd (get tagLineNum_m) (\<lambda>tags.
              bnd (vec_at tags (index_of start tags + 1)) (\<lambda>e.
              upd (\<lambda>ip. ip\<lparr>endPos_m := (if e = 0 then int (length lines) + 1 else e)\<rparr>))))))"

text \<open>The inner loop: every \<open>=\<close> of the line yields one assignment to \<open>iniContainer\<close>.\<close>

function read_pairs :: "string \<Rightarrow> (string, string) smap \<Rightarrow> (string, string) smap" where
  "read_pairs s c =
     (case str_find ''='' s of
        None \<Rightarrow> c
      | Some i \<Rightarrow> read_pairs (drop (Suc i) s) (map_put (take i s) (drop (Suc i) s) c))"
  by pat_completeness auto
termination
proof (relation "measure (\<lambda>(s, c). length s)", goal_cases)
  case (2 s c i)
  then show ?case using str_find_bound [of "''=''" s i] by (simp, linarith)
qed simp

declare read_pairs.simps [simp del]

fun read_lines :: "int \<Rightarrow> string list \<Rightarrow> initParser \<Rightarrow> initParser" where
  "read_lines n [] ip = ip"
| "read_lines n (l # ls) ip = read_lines (n + 1) ls
     (if startPos_m ip < n \<and> n < endPos_m ip
      then ip\<lparr>iniContainer := read_pairs l (iniContainer ip)\<rparr> else ip)"

definition readLine :: "string list option \<Rightarrow> (initParser, unit) cpp" where
  "readLine file =
     seq (findLine file)
         (case file of None \<Rightarrow> ret () | Some lines \<Rightarrow> upd (read_lines 1 lines))"

text \<open>A read of \<open>iniContainer[key]\<close>: the empty string for a missing key.\<close>

definition ini_get :: "initParser \<Rightarrow> string \<Rightarrow> string" where
  "ini_get ip key = (case map_find (iniContainer ip) key of Some v \<Rightarrow> v | None \<Rightarrow> [])"

subsection \<open>What a settings document means\<close>

text \<open>
  A document is a list of sections: a name, its bindings and the number of blank lines
  that follow. \<open>render\<close> writes it line by line; the shipped \<open>settings.ini\<close> is of this form.
\<close>

type_synonym section_text = "string \<times> (string \<times> string) list \<times> nat"

definition render_section :: "section_text \<Rightarrow> string list" where
  "render_section sec = (case sec of (name, kvs, blanks) \<Rightarrow>
     (''['' @ name @ '']'') # map (\<lambda>(k, v). k @ ''='' @ v) kvs @ replicate blanks [])"

definition render :: "section_text list \<Rightarrow> string list" where
  "render d = concat (map render_section d)"

definition plain :: "string \<Rightarrow> bool" where
  "plain s \<longleftrightarrow> CHR ''['' \<notin> set s \<and> CHR '']'' \<notin> set s \<and> CHR ''='' \<notin> set s"

definition section_ok :: "section_text \<Rightarrow> bool" where
  "section_ok sec \<longleftrightarrow> plain (fst sec) \<and> (\<forall>(k, v) \<in> set (fst (snd sec)). plain k \<and> plain v)"

fun header_lines :: "int \<Rightarrow> section_text list \<Rightarrow> int list" where
  "header_lines n [] = []"
| "header_lines n (sec # d) = n # header_lines (n + int (length (render_section sec))) d"

fun last_header :: "string \<Rightarrow> int \<Rightarrow> section_text list \<Rightarrow> int \<Rightarrow> int" where
  "last_header t n [] s = s"
| "last_header t n (sec # d) s =
     last_header t (n + int (length (render_section sec))) d (if fst sec = t then n else s)"

lemma render_simps [simp]:
  "render [] = []" "render (sec # d) = render_section sec @ render d"
  "render (d @ e) = render d @ render e"
  by (simp_all add: render_def)

subsubsection \<open>Finding the section\<close>

lemma scan_tags_append:
  "scan_tags n (xs @ ys) ip = scan_tags (n + int (length xs)) ys (scan_tags n xs ip)"
  by (induction xs arbitrary: n ip) (simp_all add: ac_simps)

lemma find_none_without: "c \<notin> set s \<Longrightarrow> c \<in> set p \<Longrightarrow> str_find p s = None"
  by (auto simp: str_find_None)

lemma scan_tag_plain: "CHR ''['' \<notin> set l \<Longrightarrow> scan_tag n l ip = ip"
  by (cases l) (auto simp: scan_tag_def find_none_without)

lemma scan_tags_plain: "\<forall>l \<in> set ls. CHR ''['' \<notin> set l \<Longrightarrow> scan_tags n ls ip = ip"
  by (induction ls arbitrary: n) (simp_all add: scan_tag_plain)

lemma header_matches:
  assumes "plain name"
  shows "str_find (''['' @ t @ '']'') (''['' @ name @ '']'') \<noteq> None \<longleftrightarrow> name = t"
proof
  assume "str_find (''['' @ t @ '']'') (''['' @ name @ '']'') \<noteq> None"
  then have "\<exists>u v. ''['' @ name @ '']'' = u @ (''['' @ t @ '']'') @ v"
    by (simp only: str_find_None not_not)
  then obtain u v where uv: "''['' @ name @ '']'' = u @ (''['' @ t @ '']'') @ v" by blast
  show "name = t"
  proof (cases u)
    case Nil
    then have eq: "name @ '']'' = t @ CHR '']'' # v" using uv by simp
    have "takeWhile (\<lambda>c. c \<noteq> CHR '']'') (name @ '']'') = name"
      using assms by (intro takeWhile_append_stop) (auto simp: plain_def)
    moreover have "length name + 1 = length t + 1 + length v" using arg_cong [OF eq, of length] by simp
    moreover have "v = []"
    proof (rule ccontr)
      assume "v \<noteq> []"
      then have "CHR '']'' \<in> set (butlast (t @ CHR '']'' # v))" by (simp add: butlast_append)
      then show False using assms by (simp add: plain_def butlast_append flip: eq)
    qed
    ultimately show ?thesis using eq by simp
  next
    case (Cons c w)
    then have "name @ '']'' = w @ CHR ''['' # t @ CHR '']'' # v" using uv by simp
    then have "CHR ''['' \<in> set (name @ '']'')" by simp
    then show ?thesis using assms by (simp add: plain_def)
  qed
next
  assume "name = t"
  then show "str_find (''['' @ t @ '']'') (''['' @ name @ '']'') \<noteq> None"
    by (metis append_Nil append_Nil2 str_find_None)
qed

lemma scan_section:
  assumes "section_ok sec"
  shows "scan_tags n (render_section sec) ip =
    ip\<lparr>tagLineNum_m := tagLineNum_m ip @ [n],
       startPos_m := (if fst sec = target_m ip then n else startPos_m ip)\<rparr>"
proof -
  obtain name kvs b where sec: "sec = (name, kvs, b)" by (cases sec)
  have "\<forall>l \<in> set (map (\<lambda>(k, v). k @ ''='' @ v) kvs @ replicate b []). CHR ''['' \<notin> set l"
    using assms by (auto simp: section_ok_def sec plain_def)
  moreover have "scan_tag n (''['' @ name @ '']'') ip =
    ip\<lparr>tagLineNum_m := tagLineNum_m ip @ [n],
       startPos_m := (if name = target_m ip then n else startPos_m ip)\<rparr>"
    using header_matches [of name "target_m ip"] assms
    by (simp add: scan_tag_def section_ok_def sec)
  ultimately show ?thesis by (simp add: render_section_def sec scan_tags_plain)
qed

lemma scan_doc:
  "\<forall>sec \<in> set d. section_ok sec \<Longrightarrow> scan_tags n (render d) ip =
    ip\<lparr>tagLineNum_m := tagLineNum_m ip @ header_lines n d,
       startPos_m := last_header (target_m ip) n d (startPos_m ip)\<rparr>"
  by (induction d arbitrary: n ip) (simp_all add: scan_tags_append scan_section)

lemma header_lines_append:
  "header_lines n (d @ e) = header_lines n d @ header_lines (n + int (length (render d))) e"
  by (induction d arbitrary: n) (simp_all add: ac_simps)

lemma length_header_lines [simp]: "length (header_lines n d) = length d"
  by (induction d arbitrary: n) simp_all

lemma header_lines_bounds: "h \<in> set (header_lines n d) \<Longrightarrow> n \<le> h \<and> h < n + int (length (render d))"
proof (induction d arbitrary: n)
  case (Cons sec d)
  have pos: "0 < int (length (render_section sec))" by (cases sec) (simp add: render_section_def)
  show ?case
  proof (cases "h = n")
    case True
    then show ?thesis using pos by (simp, linarith)
  next
    case False
    then show ?thesis
      using Cons.prems Cons.IH [of "n + int (length (render_section sec))"] pos by auto
  qed
qed simp

lemma last_header_append:
  "last_header t n (d @ e) s = last_header t (n + int (length (render d))) e (last_header t n d s)"
  by (induction d arbitrary: n s) (simp_all add: ac_simps)

lemma last_header_absent: "t \<notin> fst ` set d \<Longrightarrow> last_header t n d s = s"
  by (induction d arbitrary: n s) auto

lemma index_of_append: "x \<notin> set xs \<Longrightarrow> index_of x (xs @ x # ys) = length xs"
  by (induction xs) auto

subsubsection \<open>Reading it\<close>

lemma read_lines_append:
  "read_lines n (xs @ ys) ip = read_lines (n + int (length xs)) ys (read_lines n xs ip)"
  by (induction xs arbitrary: n ip) (simp_all add: ac_simps)

lemma read_lines_outside:
  "n + int (length xs) \<le> startPos_m ip + 1 \<or> endPos_m ip \<le> n \<Longrightarrow> read_lines n xs ip = ip"
  by (induction xs arbitrary: n) auto

lemma read_lines_inside:
  "startPos_m ip < n \<Longrightarrow> n + int (length xs) \<le> endPos_m ip \<Longrightarrow>
   read_lines n xs ip = ip\<lparr>iniContainer := foldl (\<lambda>c l. read_pairs l c) (iniContainer ip) xs\<rparr>"
  by (induction xs arbitrary: n ip) auto

lemma read_pairs_binding:
  assumes "plain k" and "plain v"
  shows "read_pairs (k @ ''='' @ v) c = map_put k v c"
proof -
  have "str_find ''='' (k @ CHR ''='' # v) = Some (length k)"
    using assms by (intro str_find_char) (simp add: plain_def)
  moreover have "read_pairs v c' = c'" for c'
    using assms str_find_char(2) [of "CHR ''=''" v] by (simp add: read_pairs.simps [of v] plain_def)
  ultimately show ?thesis by (simp add: read_pairs.simps [of "k @ CHR ''='' # v"])
qed

lemma read_pairs_blank [simp]: "read_pairs [] c = c"
  by (simp add: read_pairs.simps)

lemma read_bindings:
  assumes "\<forall>(k, v) \<in> set kvs. plain k \<and> plain v"
  shows "foldl (\<lambda>c l. read_pairs l c) c (map (\<lambda>(k, v). k @ ''='' @ v) kvs @ replicate b [])
    = foldl (\<lambda>c (k, v). map_put k v c) c kvs"
proof -
  have blanks: "foldl (\<lambda>c l. read_pairs l c) c' (replicate b []) = c'" for c'
    by (induction b) simp_all
  show ?thesis using assms
  proof (induction kvs arbitrary: c)
    case Nil
    then show ?case by (simp add: blanks)
  next
    case (Cons e kvs)
    obtain k v where "e = (k, v)" by force
    with Cons show ?case using read_pairs_binding [of k v c] by simp
  qed
qed

subsubsection \<open>The outcome of readLine\<close>

text \<open>
  A parser that has not been used, or has read the same document before, reads the last
  section called \<open>target\<close> completely when another section follows it. When no section
  follows, the line number of the next header is fetched from behind the end of the vector.
\<close>

definition read_before :: "section_text list \<Rightarrow> initParser \<Rightarrow> bool" where
  "read_before d ip \<longleftrightarrow> (\<exists>ts. tagLineNum_m ip = [] \<or> tagLineNum_m ip = header_lines 1 d @ ts)"

lemma scan_found:
  assumes ok: "\<forall>sec \<in> set d. section_ok sec"
    and d: "d = pre @ (t, kvs, b) # post" and last: "t \<notin> fst ` set post"
    and t: "target_m ip = t" and seen: "read_before d ip"
  shows "startPos_m (scan_tags 1 (render d) ip) = 1 + int (length (render pre))"
    and "index_of (1 + int (length (render pre))) (tagLineNum_m (scan_tags 1 (render d) ip)) = length pre"
    and "\<exists>ts. tagLineNum_m (scan_tags 1 (render d) ip) = header_lines 1 d @ ts
           \<and> (tagLineNum_m ip = [] \<longrightarrow> ts = [])"
proof -
  note scan = scan_doc [OF ok, of 1 ip]
  let ?p = "1 + int (length (render pre))"
  show "startPos_m (scan_tags 1 (render d) ip) = ?p"
    using last by (subst scan) (simp add: t d last_header_append last_header_absent)
  have split: "header_lines 1 d = header_lines 1 pre @ ?p # header_lines (?p + int (length (render_section (t, kvs, b)))) post"
    by (simp add: d header_lines_append)
  show ts: "\<exists>ts. tagLineNum_m (scan_tags 1 (render d) ip) = header_lines 1 d @ ts
      \<and> (tagLineNum_m ip = [] \<longrightarrow> ts = [])"
    using seen by (auto simp: scan read_before_def)
  have "?p \<notin> set (header_lines 1 pre)" using header_lines_bounds [of ?p 1 pre] by auto
  then show "index_of ?p (tagLineNum_m (scan_tags 1 (render d) ip)) = length pre"
    using ts split index_of_append [of ?p "header_lines 1 pre"] by auto
qed

lemma findLine_run:
  "findLine (Some lines) ip =
     (let ip1 = scan_tags 1 lines ip; i = index_of (startPos_m ip1) (tagLineNum_m ip1) + 1 in
      if startPos_m ip1 = 0 then (Inr (), ip1)
      else if i < length (tagLineNum_m ip1)
        then (Inr (), ip1\<lparr>endPos_m := (if tagLineNum_m ip1 ! i = 0 then int (length lines) + 1
                else tagLineNum_m ip1 ! i)\<rparr>)
      else (Inl (Undefined Index_past_end), ip1))"
  by (auto simp: findLine_def cpp_defs Let_def)

lemma readLine_section_general:
  assumes ok: "\<forall>sec \<in> set d. section_ok sec"
    and d: "d = pre @ (t, kvs, b) # nxt # post" and last: "t \<notin> fst ` set (nxt # post)"
    and t: "target_m ip = t" and seen: "read_before d ip"
  obtains ip' where "readLine (Some (render d)) ip = (Inr (), ip')"
    and "iniContainer ip' = foldl (\<lambda>c (k, v). map_put k v c) (iniContainer ip) kvs"
    and "read_before d ip'" and "target_m ip' = t"
proof -
  let ?p = "1 + int (length (render pre))" and ?s = "(t, kvs, b)"
  let ?e = "?p + int (length (render_section ?s))"
  define ip1 where "ip1 = scan_tags 1 (render d) ip"
  have start: "startPos_m ip1 = ?p" and idx: "index_of ?p (tagLineNum_m ip1) = length pre"
    using scan_found [OF ok d last t seen] by (simp_all add: ip1_def)
  obtain ts where tags: "tagLineNum_m ip1 = header_lines 1 d @ ts"
    using scan_found(3) [OF ok d last t seen] by (auto simp: ip1_def)
  have tag: "tagLineNum_m ip1 ! (length pre + 1) = ?e" and len: "length pre + 1 < length (tagLineNum_m ip1)"
    by (simp_all add: tags d header_lines_append nth_append)
  define ip2 where "ip2 = ip1\<lparr>endPos_m := ?e\<rparr>"
  have "findLine (Some (render d)) ip = (Inr (), ip2)"
    using len tag by (simp add: findLine_run ip1_def [symmetric] start idx Let_def ip2_def)
  then have run: "readLine (Some (render d)) ip = (Inr (), read_lines 1 (render d) ip2)"
    by (simp add: readLine_def seq_ok)
  have pos: "startPos_m ip2 = ?p" "endPos_m ip2 = ?e" "iniContainer ip2 = iniContainer ip"
    by (simp_all add: ip2_def start) (simp add: ip1_def scan_doc [OF ok])
  obtain h body where sec: "render_section ?s = h # body"
    and body: "body = map (\<lambda>(k, v). k @ ''='' @ v) kvs @ replicate b []"
    by (simp add: render_section_def)
  have doc: "render d = (render pre @ [h]) @ body @ render (nxt # post)"
    by (simp add: d sec)
  let ?c = "foldl (\<lambda>c l. read_pairs l c) (iniContainer ip) body"
  have "read_lines 1 (render d) ip2 = ip2\<lparr>iniContainer := ?c\<rparr>"
    unfolding doc read_lines_append
    using pos by (simp add: read_lines_outside read_lines_inside sec)
  moreover have "?c = foldl (\<lambda>c (k, v). map_put k v c) (iniContainer ip) kvs"
    using ok read_bindings [of kvs "iniContainer ip" b] by (simp add: body d section_ok_def)
  moreover have "target_m ip2 = t" by (simp add: ip2_def ip1_def scan_doc [OF ok] t)
  moreover have "read_before d (ip2\<lparr>iniContainer := ?c\<rparr>)"
    using tags by (auto simp: read_before_def ip2_def)
  ultimately show thesis using that run by simp
qed


text \<open>The shipped \<open>settings.ini\<close>.\<close>

definition shipped_settings :: "section_text list" where
  "shipped_settings =
     [(''socket'', [(''addr'', ''127.0.0.1''), (''port'', ''1203'')], 1),
      (''TraderServer'', [(''addr'', ''192.168.56.104''), (''port'', ''1203'')], 1),
      (''database'', [(''addr'', ''192.168.56.105''), (''user'', ''root''), (''port'', ''3306''),
                      (''password'', ''Aa1234''), (''database'', ''stock'')], 1),
      (''Testdatabase'', [(''addr'', ''172.28.0.3''), (''user'', ''root''), (''port'', ''3306''),
                          (''password'', ''Aa1234''), (''database'', ''stock'')], 0)]"

lemma shipped_ok: "\<forall>sec \<in> set shipped_settings. section_ok sec"
  by (simp add: shipped_settings_def section_ok_def plain_def)


lemma readLine_past_end:
  assumes "\<forall>sec \<in> set (pre @ [(t, kvs, b)]). section_ok sec"
  shows "fst (readLine (Some (render (pre @ [(t, kvs, b)]))) (InitParser path t))
    = Inl (Undefined Index_past_end)"
proof -
  let ?d = "pre @ [(t, kvs, b)]" and ?ip = "InitParser path t"
  let ?p = "1 + int (length (render pre))"
  have seen: "read_before ?d ?ip" "target_m ?ip = t" "tagLineNum_m ?ip = []"
    by (simp_all add: read_before_def InitParser_def)
  note found = scan_found [OF assms refl _ seen(2,1)]
  have "tagLineNum_m (scan_tags 1 (render ?d) ?ip) = header_lines 1 ?d"
    using found(3) seen(3) by auto
  moreover have "startPos_m (scan_tags 1 (render ?d) ?ip) = ?p" using found(1) by simp
  ultimately have "findLine (Some (render ?d)) ?ip =
      (Inl (Undefined Index_past_end), scan_tags 1 (render ?d) ?ip)"
    using found(2) by (simp add: findLine_run Let_def)
  then show ?thesis by (simp add: readLine_def seq_fault)
qed

text \<open>
  When the section looked for is the last one of the file, the vector of section
  headers is read one past its end.
\<close>

theorem readLine_last_section:
  assumes "\<forall>sec \<in> set (pre @ [(t, kvs, b)]). section_ok sec"
  shows "fst (readLine (Some (render (pre @ [(t, kvs, b)]))) (InitParser path t))
    = Inl (Undefined Index_past_end)"
  by (rule readLine_past_end [OF assms])

theorem readLine_last_section_witness:
  "fst (readLine (Some (render [(''socket'', [(''port'', ''1203'')], 0)])) (InitParser ''settings.ini'' ''socket''))
    = Inl (Undefined Index_past_end)"
  using readLine_last_section [of "[]" "''socket''" "[(''port'', ''1203'')]" 0 "''settings.ini''"]
  by (simp add: section_ok_def plain_def)

text \<open>Reading the file again before each connection attempt changes nothing.\<close>

fun read_times :: "nat \<Rightarrow> string list option \<Rightarrow> (initParser, unit) cpp" where
  "read_times 0 f = ret ()"
| "read_times (Suc n) f = seq (readLine f) (read_times n f)"

lemma readLine_again:
  assumes "\<forall>sec \<in> set d. section_ok sec" and "d = pre @ (t, kvs, b) # nxt # post"
    and "t \<notin> fst ` set (nxt # post)" and "target_m ip = t" and "read_before d ip"
    and "ordered (iniContainer ip)"
  shows "fst (read_times (Suc n) (Some (render d)) ip) = Inr ()
    \<and> map_find (iniContainer (snd (read_times (Suc n) (Some (render d)) ip)))
      = map_find (iniContainer ip) ++ map_of (rev kvs)"
  using assms(4-6)
proof (induction n arbitrary: ip)
  case (0 ip)
  obtain ip' where "readLine (Some (render d)) ip = (Inr (), ip')"
    and "iniContainer ip' = foldl (\<lambda>c (k, v). map_put k v c) (iniContainer ip) kvs"
    using readLine_section_general [OF assms(1,2,3) "0.prems"(1,2)] by metis
  then show ?case
    using smap.find_assign_all [OF "0.prems"(3), of kvs] by (simp add: seq_ok)
next
  case (Suc n ip)
  obtain ip' where run: "readLine (Some (render d)) ip = (Inr (), ip')"
    and c: "iniContainer ip' = foldl (\<lambda>c (k, v). map_put k v c) (iniContainer ip) kvs"
    and ip': "read_before d ip'" "target_m ip' = t"
    using readLine_section_general [OF assms(1,2,3) Suc.prems(1,2)] by metis
  have "ordered (iniContainer ip')"
    using smap.invar_assign_all [OF Suc.prems(3)] by (simp add: c)
  moreover have "map_find (iniContainer ip') ++ map_of (rev kvs) = map_find (iniContainer ip) ++ map_of (rev kvs)"
    using smap.find_assign_all [OF Suc.prems(3), of kvs]
    by (simp add: c fun_eq_iff map_add_def split: option.splits)
  ultimately show ?case using Suc.IH [of ip'] ip' run by (simp add: seq_ok)
qed

end
