(* ===== verification/Data_Queue.thy ===== *)
theory Data_Queue
  imports Prelude
begin

section \<open>The message queues between threads (funclib/dataQueue.cpp)\<close>

text \<open>
  \<open>DataQueue\<close> is a mutex-protected \<open>std::queue\<close> with its own \<open>Logwriter\<close> member; the
  lines it writes are kept in \<open>dq_log\<close>. Each operation runs with the mutex held, so it is
  one atomic step. \<open>popDTA\<close> waits at most one second for the queue to become non-empty
  and then takes \<open>front()\<close> whether or not something arrived: on an empty queue that is
  undefined. The wait itself changes nothing, and an element that arrives during it is a
  \<open>pushDTA\<close> step before the pop.
\<close>

record dataQueue =
  limitation_m :: int
  dataQueue_m :: "string list"
  dq_log :: "(log_level \<times> string) list"

definition DataQueue :: "int \<Rightarrow> dataQueue" where
  "DataQueue limitation = \<lparr>limitation_m = limitation, dataQueue_m = [], dq_log = []\<rparr>"

definition dq_write :: "log_level \<Rightarrow> string \<Rightarrow> (dataQueue, unit) cpp" where
  "dq_write lvl doc = upd (\<lambda>q. q\<lparr>dq_log := dq_log q @ [(lvl, doc)]\<rparr>)"

definition pushDTA :: "string \<Rightarrow> (dataQueue, unit) cpp" where
  "pushDTA val =
     seq (upd (\<lambda>q. q\<lparr>dataQueue_m := dataQueue_m q @ [val]\<rparr>))
         (dq_write DEBUG (''(DataQueue) get data: '' @ val))"

definition popDTA :: "(dataQueue, string) cpp" where
  "popDTA =
     bnd (get dataQueue_m) (\<lambda>q. case q of
         [] \<Rightarrow> fail (Undefined Front_of_empty)
       | val # rest \<Rightarrow>
           seq (upd (\<lambda>s. s\<lparr>dataQueue_m := rest\<rparr>))
          (seq (dq_write DEBUG (''(DataQueue) pop data: '' @ val))
               (ret val)))"

definition checkSpace :: "dataQueue \<Rightarrow> int" where
  "checkSpace q = int (length (dataQueue_m q))"

lemma push_app [run_simps]: "pushDTA v q = (Inr (),
    q\<lparr>dataQueue_m := dataQueue_m q @ [v], dq_log := dq_log q @ [(DEBUG, ''(DataQueue) get data: '' @ v)]\<rparr>)"
  by (simp add: pushDTA_def dq_write_def cpp_defs)

lemma pop_Cons [run_simps]: "dataQueue_m q = v # vs \<Longrightarrow> popDTA q = (Inr v,
    q\<lparr>dataQueue_m := vs, dq_log := dq_log q @ [(DEBUG, ''(DataQueue) pop data: '' @ v)]\<rparr>)"
  by (simp add: popDTA_def dq_write_def cpp_defs)

lemma pop_Nil [run_simps]: "dataQueue_m q = [] \<Longrightarrow> popDTA q = (Inl (Undefined Front_of_empty), q)"
  by (simp add: popDTA_def cpp_defs)

lemma checkSpace_pos: "0 < checkSpace q \<longleftrightarrow> dataQueue_m q \<noteq> []"
  by (auto simp: checkSpace_def)

subsection \<open>The interface: first in, first out\<close>

text \<open>
  A client sees a list of waiting messages; \<open>drain n\<close> is a consumer that takes \<open>n\<close>
  messages, and \<open>fill\<close> a producer that adds several.
\<close>

locale fifo =
  fixes enq :: "'v \<Rightarrow> ('q, unit) cpp"
    and deq :: "('q, 'v) cpp"
    and space :: "'q \<Rightarrow> int"
    and waiting :: "'q \<Rightarrow> 'v list"
  assumes enq_ok: "fst (enq v q) = Inr ()"
    and waiting_enq: "waiting (snd (enq v q)) = waiting q @ [v]"
    and deq_ok: "waiting q = v # vs \<Longrightarrow> fst (deq q) = Inr v"
    and waiting_deq: "waiting q = v # vs \<Longrightarrow> waiting (snd (deq q)) = vs"
    and space_waiting: "space q = int (length (waiting q))"
begin

fun fill :: "'v list \<Rightarrow> ('q, unit) cpp" where
  "fill [] = ret ()"
| "fill (v # vs) = seq (enq v) (fill vs)"

fun drain :: "nat \<Rightarrow> ('q, 'v list) cpp" where
  "drain 0 = ret []"
| "drain (Suc n) = bnd deq (\<lambda>v. bnd (drain n) (\<lambda>vs. ret (v # vs)))"

lemma fill_waiting: "fst (fill vs q) = Inr () \<and> waiting (snd (fill vs q)) = waiting q @ vs"
proof (induction vs arbitrary: q)
  case (Cons v vs)
  obtain q' where q': "enq v q = (Inr (), q')" using enq_ok [of v q] by (metis prod.collapse)
  then have "waiting q' = waiting q @ [v]" using waiting_enq [of v q] by simp
  then show ?case using Cons [of q'] q' by (simp add: seq_ok)
qed simp

lemma drain_waiting:
  "n \<le> length (waiting q) \<Longrightarrow>
   fst (drain n q) = Inr (take n (waiting q)) \<and> waiting (snd (drain n q)) = drop n (waiting q)"
proof (induction n arbitrary: q)
  case (Suc n)
  then obtain v vs where w: "waiting q = v # vs" by (cases "waiting q") auto
  obtain q' where q': "deq q = (Inr v, q')" using deq_ok [OF w] by (metis prod.collapse)
  then have vs: "waiting q' = vs" using waiting_deq [OF w] by simp
  then obtain q'' where "drain n q' = (Inr (take n vs), q'')" "waiting q'' = drop n vs"
    using Suc.IH [of q'] Suc.prems w by (cases "drain n q'") auto
  then show ?case by (simp add: bnd_app q' w)
qed simp

lemma fill_then_drain:
  "waiting q = [] \<Longrightarrow> fst (seq (fill vs) (drain (length vs)) q) = Inr vs"
proof -
  assume empty: "waiting q = []"
  obtain q' where q': "fill vs q = (Inr (), q')" "waiting q' = vs"
    using fill_waiting [of vs q] empty by (metis append_Nil prod.collapse)
  then show ?thesis using drain_waiting [of "length vs" q'] by (simp add: seq_ok)
qed

end

interpretation dq: fifo pushDTA popDTA checkSpace dataQueue_m
  by unfold_locales (simp_all add: push_app pop_Cons checkSpace_def)

end
