(* ===== verification/Trading_Data.thy ===== *)
theory Trading_Data
  imports Tables Init_Parser Data_Queue
begin

section \<open>The database layer (Database/mariaDBHandler.cpp, Database/tradingDataHandler.cpp)\<close>

text \<open>
  \<open>TradingDataHandler\<close> builds SQL text and hands it to the MariaDB client library. The
  library and the server behind it are the environment: a statement is the event
  \<open>Query text\<close>, and the return code, the error text and the rows it yields are functions
  of the trace that ends with it. A row field is \<open>None\<close> for SQL's NULL (a null \<open>char*\<close>).
\<close>

abbreviation nl :: string where
  "nl \<equiv> [CHR 0x0A]"

abbreviation quo :: string where
  "quo \<equiv> [CHR 0x27]"

record tradingDataHandler =
  conn :: bool          \<comment> \<open>\<open>conn\<close> is not null\<close>
  connstatus :: bool
  sql_dq :: dataQueue

definition db_log :: "log_level \<Rightarrow> string \<Rightarrow> ('a world_scheme, unit) cpp" where
  "db_log = log_write ''DB''"

lemma db_log_app [simp, run_simps]:
  "db_log lvl doc s = (Inr (), s\<lparr>trace := trace s @ [Log ''DB'' lvl doc]\<rparr>)"
  by (simp add: db_log_def)

subsection \<open>Connecting\<close>

text \<open>Construct an \<open>InitParser\<close> and read its file.\<close>

definition load_ini :: "env \<Rightarrow> string \<Rightarrow> string \<Rightarrow> fault + initParser" where
  "load_ini env path target =
     (case readLine (read_file env path) (InitParser path target) of
        (Inl f, _) \<Rightarrow> Inl f | (Inr _, ip) \<Rightarrow> Inr ip)"

definition initialise :: "env \<Rightarrow> string \<Rightarrow> ('a world_scheme, bool) cpp" where
  "initialise env cfg =
     bnd (lift (load_ini env ''./doc/settings.ini'' cfg)) (\<lambda>ip.
     seq (emit (Db_connect (c_str (ini_get ip ''addr'')) (c_str (ini_get ip ''user'')) ''Aa1234''
                  (c_str (ini_get ip ''database'')) 3306))
    (bnd (get (\<lambda>s. connect_ok env (trace s))) (\<lambda>ok.
       if ok then ret True
       else seq (db_log ERROR ''(MariaDB) Connection Failed '') (ret False))))"

text \<open>
  The constructor's retry loop; \<open>i\<close> is its counter and \<open>st\<close> the member \<open>connstatus\<close>, which
  holds an arbitrary value before the first assignment. The result is \<open>connstatus\<close>.
\<close>

function connect_loop :: "env \<Rightarrow> string \<Rightarrow> bool \<Rightarrow> nat \<Rightarrow> ('a world_scheme, bool) cpp" where
  "connect_loop env cfg st i =
     bnd (initialise env cfg) (\<lambda>ok.
       if ok then seq (db_log DEBUG ''(MariaDB) DB connect success '') (ret True)
       else seq (db_log ERROR ''(MariaDB) DB connect failed '')
              (if 5 < i + 1 then ret st else connect_loop env cfg False (i + 1)))"
  by pat_completeness auto
termination
  by (relation "measure (\<lambda>(env, cfg, st, i). 6 - i)") auto

declare connect_loop.simps [simp del]

definition TradingDataHandler :: "env \<Rightarrow> string \<Rightarrow> bool \<Rightarrow> ('a world_scheme, tradingDataHandler) cpp" where
  "TradingDataHandler env iniopt junk =
     bnd (connect_loop env iniopt junk 0) (\<lambda>st.
       ret \<lparr>conn = True, connstatus = st, sql_dq = DataQueue 100\<rparr>)"

subsection \<open>Statements\<close>

definition mysql_query :: "env \<Rightarrow> string \<Rightarrow> ('a world_scheme, int) cpp" where
  "mysql_query env q =
     seq (emit (Query (c_str q))) (get (\<lambda>s. query_rc env (trace s) (c_str q)))"

text \<open>The common body of the statement functions: run, log, report success.\<close>

definition run_statement :: "env \<Rightarrow> string \<Rightarrow> string \<Rightarrow> string \<Rightarrow> ('a world_scheme, bool) cpp" where
  "run_statement env q failure success =
     bnd (mysql_query env q) (\<lambda>rc.
       if rc \<noteq> 0 then
         bnd (get (\<lambda>s. query_error env (trace s))) (\<lambda>msg.
         seq (db_log ERROR (failure @ msg)) (ret False))
       else seq (db_log DEBUG success) (ret True))"

definition insertOrder_query :: "orderData \<Rightarrow> string" where
  "insertOrder_query od =
     ''INSERT INTO `stock`.`Order` (`NID`, `OrderPrice`, `Symbol`, `UserID`, `Side`, `Order_situation`, `Client_SerialNum`) VALUES (''
     @ (od_nid od @ '','' @ to_string_double (od_orderPrice od) @ '','' @ quo @ od_symbol od @ quo @ '','' @ od_userID od @ '',''
        @ to_string (od_side od) @ '', '' @ quo @ ''1'' @ quo @ '' ,'' @ to_string (od_client_serialnum od)) @ '');''"

definition insertOrder :: "env \<Rightarrow> orderData \<Rightarrow> ('a world_scheme, bool) cpp" where
  "insertOrder env od = run_statement env (insertOrder_query od)
     ''(MariaDB) [EXCEPTION] Query Failure (OrderReport)'' ''(MariaDB) Insert Order Success''"

definition addTrader_query :: "userData \<Rightarrow> string" where
  "addTrader_query ud =
     ''INSERT INTO `stock`.`User` (`user`, `password`, `balance`, `book_value`) VALUES (''
     @ (userID ud @ '','' @ password ud @ '','' @ to_string_double (balance ud) @ '','' @ to_string_double (book_value ud)) @ '');''"

definition addTrader :: "env \<Rightarrow> userData \<Rightarrow> ('a world_scheme, bool) cpp" where
  "addTrader env ud = run_statement env (addTrader_query ud)
     ''(MariaDB) [EXCEPTION] Query Failure (User)'' ''(MariaDB) Add User Success''"

definition insertReport_query :: "string \<Rightarrow> string \<Rightarrow> string \<Rightarrow> string \<Rightarrow> string \<Rightarrow> string" where
  "insertReport_query nid orderPrice execPrice side client_serialNum =
     ''INSERT INTO `stock`.`ExecReport` (`NID`, `OrderPrice`, `ExecPrice`, `Side`, `Client_SerialNum`) VALUES (''
     @ (nid @ '','' @ orderPrice @ '','' @ execPrice @ '','' @ side @ '','' @ client_serialNum) @ '');''"

definition insertReport :: "env \<Rightarrow> string \<Rightarrow> string \<Rightarrow> string \<Rightarrow> string \<Rightarrow> string \<Rightarrow> ('a world_scheme, bool) cpp" where
  "insertReport env nid orderPrice execPrice side client_serialNum =
     run_statement env (insertReport_query nid orderPrice execPrice side client_serialNum)
       ''(MariaDB) [EXCEPTION] Query Failure (ExecReport)'' ''(MariaDB) Insert Report Success''"

definition updateOrderSituation_query :: "string \<Rightarrow> string \<Rightarrow> string" where
  "updateOrderSituation_query nid status =
     ''UPDATE `stock`.`Order` SET `Order_situation`='' @ quo @ status @ quo @ '' WHERE `NID`='' @ nid @ '';''"

definition updateOrderSituation :: "env \<Rightarrow> string \<Rightarrow> string \<Rightarrow> ('a world_scheme, bool) cpp" where
  "updateOrderSituation env nid status = run_statement env (updateOrderSituation_query nid status)
     ''(MariaDB) [EXCEPTION] Query Failure '' ''(MariaDB) Update Order Success''"

definition updateOrderPrice_query :: "string \<Rightarrow> string \<Rightarrow> string" where
  "updateOrderPrice_query nid price =
     ''UPDATE `stock`.`Order` SET `OrderPrice`='' @ quo @ price @ quo @ '' WHERE `NID`='' @ nid @ '';''"

definition updateOrderPrice :: "env \<Rightarrow> string \<Rightarrow> string \<Rightarrow> ('a world_scheme, bool) cpp" where
  "updateOrderPrice env nid price = run_statement env (updateOrderPrice_query nid price)
     ''(MariaDB) [EXCEPTION] Query Failure '' ''(MariaDB) Update Order Success''"

text \<open>\<open>MariaDBHandler::insertOrderData\<close>, a fixed statement the program never calls.\<close>

definition insertOrderData :: "env \<Rightarrow> ('a world_scheme, unit) cpp" where
  "insertOrderData env =
     bnd (mysql_query env (''INSERT INTO `Order` (`NID`, `OrderID`, `OrderPrice`, `Symbol`, `UserID`) VALUES (''
        @ quo @ ''222'' @ quo @ '', '' @ quo @ ''aa1234'' @ quo @ '', '' @ quo @ ''12.6'' @ quo @ '', ''
        @ quo @ ''TXO'' @ quo @ '', '' @ quo @ ''0324027'' @ quo @ '');'')) (\<lambda>rc.
       if rc \<noteq> 0 then
         bnd (get (\<lambda>s. query_error env (trace s))) (\<lambda>msg.
         db_log ERROR (''(MariaDB) [EXCEPTION] Query Failure '' @ msg))
       else db_log DEBUG ''(MariaDB) Insert Success'')"

text \<open>One turn of \<open>sqlCommandExec\<close>; with nothing queued the thread keeps waiting.\<close>

definition sqlCommandExec_turn :: "env \<Rightarrow> tradingDataHandler \<Rightarrow> ('a world_scheme, tradingDataHandler) cpp" where
  "sqlCommandExec_turn env h =
     (if checkSpace (sql_dq h) = 0 then ret h
      else case popDTA (sql_dq h) of
          (Inl f, _) \<Rightarrow> fail f
        | (Inr q, queue) \<Rightarrow>
            seq (run_statement env q ''(MariaDB) [EXCEPTION] Query Failure '' ''(MariaDB) Execute Query success'')
                (ret (h\<lparr>sql_dq := queue\<rparr>)))"

subsection \<open>Result sets\<close>

definition select_rows :: "env \<Rightarrow> tradingDataHandler \<Rightarrow> string \<Rightarrow> 'b \<Rightarrow> (string option list list \<Rightarrow> ('a world_scheme, 'b) cpp)
    \<Rightarrow> ('a world_scheme, 'b) cpp" where
  "select_rows env h sql none body =
     (if \<not> conn h then seq (db_log ERROR ''(MariaDB) DB connect failed '') (ret none)
      else seq (db_log DEBUG (''(MariaDB) sql command : '' @ sql))
          (seq (mysql_query env sql)
          (bnd (get (\<lambda>s. query_rows env (trace s))) (\<lambda>res.
             case res of None \<Rightarrow> fail (Undefined Null_deref) | Some rows \<Rightarrow> body rows))))"

definition row_field :: "string option list \<Rightarrow> nat \<Rightarrow> ('s, string) cpp" where
  "row_field row i =
     bnd (vec_at row i) (\<lambda>f. case f of None \<Rightarrow> fail (Undefined Null_deref) | Some t \<Rightarrow> ret (c_str t))"

definition user_of_row :: "string option list \<Rightarrow> ('s, userData) cpp" where
  "user_of_row row =
     bnd (row_field row 0) (\<lambda>u.
     bnd (row_field row 1) (\<lambda>p.
     bnd (row_field row 2) (\<lambda>b.
     bnd (lift (stod b)) (\<lambda>bal.
     bnd (row_field row 3) (\<lambda>v.
     bnd (lift (stod v)) (\<lambda>bv.
     ret \<lparr>userID = u, password = p, balance = bal, book_value = bv\<rparr>))))))"

fun load_users :: "string option list list \<Rightarrow> (string, userData) smap \<Rightarrow> ('s, (string, userData) smap) cpp" where
  "load_users [] m = ret m"
| "load_users (row # rows) m =
     bnd (user_of_row row) (\<lambda>ud. load_users rows (map_insert (userID ud) ud m))"

definition getUserData :: "env \<Rightarrow> tradingDataHandler \<Rightarrow> ('a world_scheme, (string, userData) smap) cpp" where
  "getUserData env h =
     select_rows env h ''SELECT * FROM stock.User;'' [] (\<lambda>rows. load_users rows [])"

text \<open>The lines \<open>showTableItems\<close> prints; the outcome of the query itself is ignored.\<close>

definition showTableItems :: "env \<Rightarrow> tradingDataHandler \<Rightarrow> string \<Rightarrow> ('a world_scheme, string list) cpp" where
  "showTableItems env h sqlcommand =
     (if \<not> conn h then ret []
      else bnd (mysql_query env sqlcommand) (\<lambda>_.
           bnd (get (\<lambda>s. query_rows env (trace s))) (\<lambda>res. case res of
             None \<Rightarrow> fail (Undefined Null_deref)
           | Some rows \<Rightarrow> ret (concat (map (map (\<lambda>f. case f of None \<Rightarrow> ''NULL'' | Some t \<Rightarrow> c_str t)) rows)))))"

text \<open>The two loops that push every field of every row.\<close>

fun push_fields :: "string option list \<Rightarrow> string list \<Rightarrow> ('s, string list) cpp" where
  "push_fields [] acc = ret acc"
| "push_fields (f # fs) acc =
     (case f of None \<Rightarrow> fail (Undefined Null_deref) | Some t \<Rightarrow> push_fields fs (acc @ [c_str t]))"

fun push_rows :: "string option list list \<Rightarrow> string list \<Rightarrow> ('s, string list) cpp" where
  "push_rows [] acc = ret acc"
| "push_rows (row # rows) acc = bnd (push_fields row acc) (push_rows rows)"

definition getTradingData :: "env \<Rightarrow> tradingDataHandler \<Rightarrow> ('a world_scheme, string list) cpp" where
  "getTradingData env h =
     select_rows env h ''SELECT * FROM stock.InitData ORDER BY ID DESC LIMIT 1;'' [] (\<lambda>rows. push_rows rows [])"

definition getProductList :: "env \<Rightarrow> tradingDataHandler \<Rightarrow> ('a world_scheme, string list) cpp" where
  "getProductList env h =
     select_rows env h ''SELECT `product_id` FROM stock.ProductList ;'' [] (\<lambda>rows. push_rows rows [])"

text \<open>\<open>new OrderData()\<close> value-initialises the members that are not read from the row.\<close>

definition order_of_row :: "string option list \<Rightarrow> ('s, orderData) cpp" where
  "order_of_row row =
     bnd (row_field row 0) (\<lambda>n.
     bnd (row_field row 1) (\<lambda>p.
     bnd (lift (stod p)) (\<lambda>price.
     bnd (row_field row 4) (\<lambda>sd.
     bnd (lift (stoi sd)) (\<lambda>side.
     bnd (row_field row 6) (\<lambda>cs.
     bnd (lift (stol cs)) (\<lambda>serial.
     ret \<lparr>od_nid = n, od_volumn = 0, od_orderPrice = price, od_symbol = [], od_userID = [],
          od_side = side, od_client_serialnum = serial\<rparr>)))))))"

fun load_orders :: "string option list list \<Rightarrow> orderData list \<Rightarrow> ('s, orderData list) cpp" where
  "load_orders [] acc = ret acc"
| "load_orders (row # rows) acc = bnd (order_of_row row) (\<lambda>od. load_orders rows (acc @ [od]))"

definition getExistOrder :: "env \<Rightarrow> tradingDataHandler \<Rightarrow> ('a world_scheme, orderData list) cpp" where
  "getExistOrder env h =
     select_rows env h ''SELECT * FROM stock.Valid_Order ;'' [] (\<lambda>rows. load_orders rows [])"

subsection \<open>Facts about the operations\<close>

text \<open>
  An invariant that does not mention the trace survives every operation of this theory.
\<close>

definition trace_free :: "('a world_scheme \<Rightarrow> bool) \<Rightarrow> bool" where
  "trace_free I \<longleftrightarrow> (\<forall>s t. I s \<longrightarrow> I (s\<lparr>trace := t\<rparr>))"

lemma trace_freeD: "trace_free I \<Longrightarrow> I s \<Longrightarrow> I (s\<lparr>trace := t\<rparr>)"
  by (simp add: trace_free_def)

lemma preserves_emit_free [keeps]: "trace_free I \<Longrightarrow> preserves I (emit e)"
  and preserves_log_free [keeps]: "trace_free I \<Longrightarrow> preserves I (log_write ty lvl doc)"
  by (simp_all add: preserves_def trace_freeD)

lemma preserves_db_log [keeps]: "trace_free I \<Longrightarrow> preserves I (db_log lvl doc)"
  by (simp add: db_log_def keeps)

lemma preserves_query [keeps]: "trace_free I \<Longrightarrow> preserves I (mysql_query env q)"
  unfolding mysql_query_def by (intro keeps) simp_all

lemma preserves_statement [keeps]: "trace_free I \<Longrightarrow> preserves I (run_statement env q f ok)"
  unfolding run_statement_def by (intro keeps) simp_all

lemma preserves_updates [keeps]:
  "trace_free I \<Longrightarrow> preserves I (insertOrder env od)"
  "trace_free I \<Longrightarrow> preserves I (addTrader env ud)"
  "trace_free I \<Longrightarrow> preserves I (insertReport env n p e sd c)"
  "trace_free I \<Longrightarrow> preserves I (updateOrderSituation env n st)"
  "trace_free I \<Longrightarrow> preserves I (updateOrderPrice env n p)"
  by (simp_all add: insertOrder_def addTrader_def insertReport_def updateOrderSituation_def
      updateOrderPrice_def keeps)

lemma run_statement_app:
  "run_statement env q f ok s =
     (let t = trace s @ [Query (c_str q)] in
      if query_rc env t (c_str q) \<noteq> 0
      then (Inr False, s\<lparr>trace := t @ [Log ''DB'' ERROR (f @ query_error env t)]\<rparr>)
      else (Inr True, s\<lparr>trace := t @ [Log ''DB'' DEBUG ok]\<rparr>))"
  by (simp add: run_statement_def mysql_query_def bnd_app seq_def Let_def)

text \<open>The boolean result is the return code of exactly one statement.\<close>

lemma run_statement_result:
  obtains lg where "run_statement env q f ok s =
    (Inr (query_rc env (trace s @ [Query (c_str q)]) (c_str q) = 0),
     s\<lparr>trace := trace s @ [Query (c_str q), lg]\<rparr>)" and "is_log lg"
  by (cases "query_rc env (trace s @ [Query (c_str q)]) (c_str q) = 0")
     (auto simp: run_statement_app Let_def)

subsubsection \<open>Connection attempts\<close>

fun is_attempt :: "event \<Rightarrow> bool" where
  "is_attempt (Db_connect _ _ _ _ _) = True"
| "is_attempt _ = False"

definition attempts :: "'a world_scheme \<Rightarrow> nat" where
  "attempts s = length (filter is_attempt (trace s))"

lemma initialise_run:
  assumes "load_ini env ''./doc/settings.ini'' cfg = Inr ip"
  obtains ok s' where "initialise env cfg s = (Inr ok, s')" and "attempts s' = attempts s + 1"
proof -
  let ?e = "Db_connect (c_str (ini_get ip ''addr'')) (c_str (ini_get ip ''user'')) ''Aa1234''
              (c_str (ini_get ip ''database'')) 3306"
  let ?s = "s\<lparr>trace := trace s @ [?e]\<rparr>"
  have "initialise env cfg s =
    (if connect_ok env (trace s @ [?e]) then (Inr True, ?s)
     else (Inr False, ?s\<lparr>trace := trace ?s @ [Log ''DB'' ERROR ''(MariaDB) Connection Failed '']\<rparr>))"
    using assms by (simp add: initialise_def bnd_app seq_def)
  then show thesis
    using that by (cases "connect_ok env (trace s @ [?e])") (simp_all add: attempts_def)
qed

lemma connect_loop_step:
  assumes "initialise env cfg s = (Inr ok, s')"
  shows "connect_loop env cfg st i s =
    (let lg = (\<lambda>lvl doc. s'\<lparr>trace := trace s' @ [Log ''DB'' lvl doc]\<rparr>) in
     if ok then (Inr True, lg DEBUG ''(MariaDB) DB connect success '')
     else if 5 < i + 1 then (Inr st, lg ERROR ''(MariaDB) DB connect failed '')
     else connect_loop env cfg False (i + 1) (lg ERROR ''(MariaDB) DB connect failed ''))"
  using assms by (simp add: connect_loop.simps [of env cfg st i] bnd_app seq_def Let_def)

lemma attempts_log [simp]: "attempts (s\<lparr>trace := trace s @ [Log ty lvl doc]\<rparr>) = attempts s"
  by (simp add: attempts_def)

text \<open>
  From counter \<open>i\<close> at most \<open>6 - i\<close> more attempts are made, all of them when none succeeds.
\<close>

lemma connect_loop_attempts:
  assumes ini: "load_ini env ''./doc/settings.ini'' cfg = Inr ip" and "i \<le> 5" and "st \<longrightarrow> i = 0"
  shows "\<exists>c s'. connect_loop env cfg st i s = (Inr c, s')
     \<and> attempts s + 1 \<le> attempts s' \<and> attempts s' \<le> attempts s + (6 - i)
     \<and> (\<not> c \<longrightarrow> attempts s' = attempts s + (6 - i))"
  using assms(2,3)
proof (induction "5 - i" arbitrary: i st s)
  case 0
  then have i: "i = 5" and st: "\<not> st" by auto
  obtain ok s1 where "initialise env cfg s = (Inr ok, s1)" and "attempts s1 = attempts s + 1"
    using initialise_run [OF ini] by blast
  then show ?case by (cases ok) (simp_all add: connect_loop_step i st Let_def, blast+)
next
  case (Suc k)
  obtain ok s1 where init: "initialise env cfg s = (Inr ok, s1)" and s1: "attempts s1 = attempts s + 1"
    using initialise_run [OF ini] by blast
  show ?case
  proof (cases ok)
    case True
    then show ?thesis using init s1 Suc.prems
      by (intro exI [of _ True]) (simp add: connect_loop_step Let_def)
  next
    case False
    let ?s2 = "s1\<lparr>trace := trace s1 @ [Log ''DB'' ERROR ''(MariaDB) DB connect failed '']\<rparr>"
    have i: "\<not> 5 < i + 1" "k = 5 - (i + 1)" "i + 1 \<le> 5" using Suc.hyps(2) by linarith+
    then obtain c s' where "connect_loop env cfg False (i + 1) ?s2 = (Inr c, s')"
      and "attempts ?s2 + 1 \<le> attempts s'" and "attempts s' \<le> attempts ?s2 + (6 - (i + 1))"
      and "\<not> c \<longrightarrow> attempts s' = attempts ?s2 + (6 - (i + 1))"
      using Suc.hyps(1) [of "i + 1" False ?s2] by auto
    then show ?thesis
      using init s1 False i by (intro exI [of _ c]) (simp add: connect_loop_step Let_def, linarith?)
  qed
qed

subsubsection \<open>Loading the users\<close>

lemma load_users_rows:
  assumes "list_all2 (\<lambda>row ud. user_of_row row = (ret ud :: ('s, userData) cpp)) rows uds"
  shows "load_users rows m =
    (ret (foldl (\<lambda>m (k, v). map_insert k v m) m (map (\<lambda>ud. (userID ud, ud)) uds)) :: ('s, _) cpp)"
  using assms by (induction rows uds arbitrary: m rule: list_all2_induct) (simp_all add: ret_def bnd_def)

lemma load_users_find:
  assumes "list_all2 (\<lambda>row ud. user_of_row row = (ret ud :: ('s, userData) cpp)) rows uds"
  shows "\<exists>m. load_users rows [] = (ret m :: ('s, _) cpp) \<and> ordered m
    \<and> map_find m = map_of (map (\<lambda>ud. (userID ud, ud)) uds)"
proof -
  let ?kvs = "map (\<lambda>ud. (userID ud, ud)) uds"
  have "ordered (foldl (\<lambda>m (k, v). map_insert k v m) [] ?kvs)"
    and "map_find (foldl (\<lambda>m (k, v). map_insert k v m) [] ?kvs) = map_of ?kvs"
    using smap.invar_load [of "[]" ?kvs] smap.find_load [of "[]" ?kvs] by simp_all
  then show ?thesis using load_users_rows [OF assms, of "[]"] by blast
qed

subsubsection \<open>The text of a statement\<close>

text \<open>
  The order number goes into the statement as it came. For any two orders there is an
  order number that makes the statement of the first begin with the whole statement of
  the second.
\<close>

lemma insertOrder_prefix:
  "\<exists>n rest. insertOrder_query (od\<lparr>od_nid := n\<rparr>) = insertOrder_query od' @ rest"
proof -
  let ?n = "od_nid od' @ '','' @ to_string_double (od_orderPrice od') @ '','' @ quo @ od_symbol od' @ quo
     @ '','' @ od_userID od' @ '','' @ to_string (od_side od') @ '', '' @ quo @ ''1'' @ quo @ '' ,''
     @ to_string (od_client_serialnum od') @ '');''"
  have "\<exists>rest. insertOrder_query (od\<lparr>od_nid := ?n\<rparr>) = insertOrder_query od' @ rest"
    by (simp add: insertOrder_query_def)
  then show ?thesis by blast
qed

end
