(* ===== verification/Connection_Model.thy ===== *)
theory Connection_Model
  imports Text
begin

section \<open>One client connection (InertiaTrader/connection.cpp)\<close>

text \<open>
  A \<open>Connection\<close> wraps a socket, the number the server knows it by, a status flag and the
  login state. Its mutex protects single reads and writes of one flag, which are atomic
  steps here. \<open>recvfrom\<close> stores the received bytes in a buffer of 1024 bytes, writes a
  terminator behind them and returns the buffer as a C string; \<open>sendto\<close> always transmits
  1024 bytes starting at the string. The constructor does not initialise \<open>login_flag_\<close>:
  its first value is an argument of the model.
\<close>

record connection =
  connection_socket_m :: int
  connectionID_m :: int
  recvStatus_m :: bool
  login_flag_m :: bool
  username :: string

definition Connection :: "int \<Rightarrow> int \<Rightarrow> bool \<Rightarrow> connection" where
  "Connection new_socket ident junk =
     \<lparr>connection_socket_m = new_socket, connectionID_m = ident, recvStatus_m = True,
      login_flag_m = junk, username = []\<rparr>"

text \<open>Copy construction and assignment carry over the socket and the status only.\<close>

definition Connection_copy :: "connection \<Rightarrow> connection \<Rightarrow> connection" where
  "Connection_copy rhs junk = junk\<lparr>connection_socket_m := connection_socket_m rhs,
     recvStatus_m := recvStatus_m rhs, username := []\<rparr>"

definition Connection_assign :: "connection \<Rightarrow> connection \<Rightarrow> connection" where
  "Connection_assign this rhs = this\<lparr>connection_socket_m := connection_socket_m rhs,
     recvStatus_m := recvStatus_m rhs\<rparr>"

definition setRecvStatus :: "bool \<Rightarrow> connection \<Rightarrow> connection" where
  "setRecvStatus stat c = c\<lparr>recvStatus_m := stat\<rparr>"

definition getRecvStatus :: "connection \<Rightarrow> bool" where
  "getRecvStatus c = recvStatus_m c"

definition setloginFlag :: "bool \<Rightarrow> connection \<Rightarrow> connection" where
  "setloginFlag flag c = c\<lparr>login_flag_m := flag\<rparr>"

definition getloginstatus :: "connection \<Rightarrow> bool" where
  "getloginstatus c = login_flag_m c"

definition getConnectionID :: "connection \<Rightarrow> int" where
  "getConnectionID c = connectionID_m c"

abbreviation buffer_size :: nat where
  "buffer_size \<equiv> 1024"

text \<open>
  \<open>recv\<close> yields at most 1024 bytes; \<open>None\<close> is an error and no bytes a closed connection.
  The result is the status and the new value of the caller's string.
\<close>

definition recvfrom :: "string option \<Rightarrow> string \<Rightarrow> (connection, bool \<times> string) cpp" where
  "recvfrom received str =
     (case received of
        Some (b # bs) \<Rightarrow>
          if buffer_size \<le> length (b # bs) then fail (Undefined Buffer_overflow)
          else bnd (get getRecvStatus) (\<lambda>st. ret (st, c_str (b # bs)))
      | _ \<Rightarrow> seq (upd (setRecvStatus False)) (bnd (get getRecvStatus) (\<lambda>st. ret (st, str))))"

text \<open>The block \<open>send\<close> takes: the string, its terminator and the memory behind it.\<close>

definition send_block :: "env \<Rightarrow> event list \<Rightarrow> string \<Rightarrow> string" where
  "send_block env tr str =
     map (\<lambda>i. if i < length str then str ! i else if i = length str then NUL
              else beyond_string env tr i) [0..<buffer_size]"

definition sendto :: "env \<Rightarrow> string \<Rightarrow> connection \<Rightarrow> ('a world_scheme, connection) cpp" where
  "sendto env str c =
     bnd (get (\<lambda>s. send_block env (trace s) str)) (\<lambda>block.
     seq (emit (Send (connection_socket_m c) block))
    (bnd (get (\<lambda>s. send_rc env (trace s) (connection_socket_m c) block)) (\<lambda>rc.
       ret (if rc < 0 then setRecvStatus False c else c))))"

subsection \<open>What a receiver makes of a block\<close>

lemma length_send_block [simp]: "length (send_block env tr str) = buffer_size"
  by (simp add: send_block_def)

lemma take_send_block:
  assumes "length str < n" and "n \<le> buffer_size"
  shows "\<exists>rest. take n (send_block env tr str) = str @ NUL # rest"
proof -
  let ?f = "\<lambda>i. if i < length str then str ! i else if i = length str then NUL
              else beyond_string env tr i"
  have "[0..<n] = [0..<length str] @ length str # [Suc (length str)..<n]"
    using assms(1) upt_add_eq_append [of 0 "length str" "n - length str"] by (simp add: upt_conv_Cons)
  then have "map ?f [0..<n] = map ?f [0..<length str] @ NUL # map ?f [Suc (length str)..<n]"
    by simp
  moreover have "map ?f [0..<length str] = str"
    by (rule nth_equalityI) simp_all
  moreover have "take n (send_block env tr str) = map ?f [0..<n]"
    using assms(2) by (simp add: send_block_def take_map)
  ultimately show ?thesis by simp
qed

lemma c_str_stop: "NUL \<notin> set str \<Longrightarrow> c_str (str @ NUL # rest) = str"
  unfolding c_str_def by (rule takeWhile_append_stop) auto

lemma recvfrom_app:
  "received = Some bytes \<Longrightarrow> bytes \<noteq> [] \<Longrightarrow> length bytes < buffer_size \<Longrightarrow>
     recvfrom received str c = (Inr (recvStatus_m c, c_str bytes), c)"
  "received = Some bytes \<Longrightarrow> buffer_size \<le> length bytes \<Longrightarrow>
     recvfrom received str c = (Inl (Undefined Buffer_overflow), c)"
  "received = None \<or> received = Some [] \<Longrightarrow>
     recvfrom received str c = (Inr (False, str), c\<lparr>recvStatus_m := False\<rparr>)"
  by (auto simp: recvfrom_def seq_def bnd_app getRecvStatus_def setRecvStatus_def
      split: option.splits list.splits)

lemma sendto_app:
  "sendto env str c s =
     (let blk = send_block env (trace s) str; s' = s\<lparr>trace := trace s @ [Send (connection_socket_m c) blk]\<rparr>
      in (Inr (if send_rc env (trace s') (connection_socket_m c) blk < 0
               then setRecvStatus False c else c), s'))"
  by (simp add: sendto_def bnd_app seq_def Let_def)

text \<open>Sending changes nothing of the connection but its status.\<close>

lemma sendto_same:
  obtains c' where "sendto env str c s = (Inr c', s\<lparr>trace := trace s @
      [Send (connection_socket_m c) (send_block env (trace s) str)]\<rparr>)"
    and "c' = c \<or> c' = c\<lparr>recvStatus_m := False\<rparr>"
proof -
  let ?blk = "send_block env (trace s) str" and ?fd = "connection_socket_m c"
  let ?t = "trace s @ [Send ?fd ?blk]"
  show thesis
    by (rule that [of "if send_rc env ?t ?fd ?blk < 0 then setRecvStatus False c else c"])
       (simp_all add: sendto_app Let_def setRecvStatus_def)
qed

end
