(* ===== verification/Server_Model.thy ===== *)
theory Server_Model
  imports Trading_Data Connection_Model
begin

section \<open>The trading server (InertiaTrader/server.cpp)\<close>

text \<open>
  The server owns the connections, the user list, the quotes and the two message queues
  the trader reads from. \<open>Connection\<close> objects live in \<open>conn_heap\<close> and are never freed; a
  pointer to one is its index there. \<open>connStorage_m\<close> and \<open>quotesList\<close> are maps from
  keys to pointers, in which \<open>operator[]\<close> can leave a null pointer (\<open>None\<close>); a quote is
  reachable from its map entry only, so it is stored in place. The loops of the detached
  threads are modelled by their turns: one pass of the loop body.
\<close>

record server = world +
  connStatus_m :: bool
  mode_m :: bool
  initFilePath :: string
  initchosen :: string
  connStorage_m :: "(int, nat option) smap"
  conn_heap :: "connection list"
  userList :: "(string, userData) smap"
  quotesList :: "(string, stock option) smap"
  dq :: dataQueue
  dq_orderhandle :: dataQueue
  sr_db :: tradingDataHandler

definition sr_log :: "log_level \<Rightarrow> string \<Rightarrow> ('a world_scheme, unit) cpp" where
  "sr_log = log_write ''SR''"

lemma sr_log_app [simp, run_simps]:
  "sr_log lvl doc s = (Inr (), s\<lparr>trace := trace s @ [Log ''SR'' lvl doc]\<rparr>)"
  by (simp add: sr_log_def)

definition setconnStatus :: "bool \<Rightarrow> ('a server_scheme, unit) cpp" where
  "setconnStatus st = upd (\<lambda>s. s\<lparr>connStatus_m := st\<rparr>)"

definition getconnStatus :: "('a server_scheme, bool) cpp" where
  "getconnStatus = get connStatus_m"

subsection \<open>Connections by number\<close>

definition deref_conn :: "nat \<Rightarrow> ('a server_scheme, connection) cpp" where
  "deref_conn a = bnd (get conn_heap) (\<lambda>h. if a < length h then ret (h ! a) else fail (Undefined Dangling))"

definition put_conn :: "nat \<Rightarrow> connection \<Rightarrow> ('a server_scheme, unit) cpp" where
  "put_conn a c = upd (\<lambda>s. s\<lparr>conn_heap := (conn_heap s)[a := c]\<rparr>)"

definition conn_sendto :: "env \<Rightarrow> nat \<Rightarrow> string \<Rightarrow> ('a server_scheme, unit) cpp" where
  "conn_sendto env a str = bnd (deref_conn a) (\<lambda>c. bnd (sendto env str c) (put_conn a))"

definition conn_recvfrom :: "nat \<Rightarrow> string option \<Rightarrow> string \<Rightarrow> ('a server_scheme, bool \<times> string) cpp" where
  "conn_recvfrom a received str =
     bnd (deref_conn a) (\<lambda>c. zoom (\<lambda>_. c) (\<lambda>c' s. s\<lparr>conn_heap := (conn_heap s)[a := c']\<rparr>)
       (recvfrom received str))"

text \<open>\<open>connStorage_[connNum]\<close>: a missing number is entered with a null pointer.\<close>

definition getConnObject :: "int \<Rightarrow> ('a server_scheme, nat option) cpp" where
  "getConnObject connNum =
     bnd (get (\<lambda>s. map_subscript connNum None (connStorage_m s))) (\<lambda>(p, m).
     seq (upd (\<lambda>s. s\<lparr>connStorage_m := m\<rparr>)) (ret p))"

definition sendToClient :: "env \<Rightarrow> int \<Rightarrow> string \<Rightarrow> ('a server_scheme, unit) cpp" where
  "sendToClient env connNum msg =
     seq (sr_log DEBUG (''(Server) Send to client '' @ to_string connNum))
    (bnd (getConnObject connNum) (\<lambda>p. case p of
         None \<Rightarrow> fail (Undefined Null_deref)
       | Some a \<Rightarrow> conn_sendto env a (msg @ nl)))"

text \<open>
  The loop of \<open>freeEmptysocket\<close> from an iterator on: after an erase the iterator already
  stands on the next entry and is advanced once more, past the end if there is none.
\<close>

fun free_from :: "(int \<times> nat option) list \<Rightarrow> ('a server_scheme, unit) cpp" where
  "free_from [] = ret ()"
| "free_from ((k, p) # rest) =
     (case p of
        None \<Rightarrow> fail (Undefined Null_deref)
      | Some a \<Rightarrow>
          bnd (deref_conn a) (\<lambda>c.
            if getRecvStatus c then free_from rest
            else seq (sr_log DEBUG (''(Server): free empty socket '' @ to_string k))
                (seq (upd (\<lambda>s. s\<lparr>connStorage_m := map_erase k (connStorage_m s)\<rparr>))
                     (case rest of [] \<Rightarrow> fail (Undefined Deref_end) | _ # rest' \<Rightarrow> free_from rest'))))"

definition freeEmptysocket :: "('a server_scheme, unit) cpp" where
  "freeEmptysocket = bnd (get connStorage_m) free_from"

text \<open>
  One turn of \<open>acceptConn\<close> with the result of \<open>accept\<close>; the pointer returned is handed to
  the two new threads. The number is drawn at random and may be taken already, in which
  case \<open>insert\<close> leaves the map as it is.
\<close>

definition acceptConn_turn :: "env \<Rightarrow> int \<Rightarrow> ('a server_scheme, nat option) cpp" where
  "acceptConn_turn env connfd =
     (if connfd = -1 then seq (sr_log WARN ''accept failed with Error: '') (ret None)
      else seq (setconnStatus True)
          (bnd (get (\<lambda>s. rand env (trace s) mod 99)) (\<lambda>space.
           bnd (get (\<lambda>s. length (conn_heap s))) (\<lambda>cn.
           seq (upd (\<lambda>s. s\<lparr>conn_heap := conn_heap s @ [Connection connfd space (junk_bool env (trace s))]\<rparr>))
          (seq (upd (\<lambda>s. s\<lparr>connStorage_m := map_insert space (Some cn) (connStorage_m s)\<rparr>))
          (seq (sr_log DEBUG (''get socket connection: '' @ to_string space))
               (ret (Some cn))))))))"

text \<open>One turn of \<open>heartbeat\<close>; the result says whether the thread goes on.\<close>

definition heartbeat_turn :: "env \<Rightarrow> nat \<Rightarrow> ('a server_scheme, bool) cpp" where
  "heartbeat_turn env a =
     bnd getconnStatus (\<lambda>run. if \<not> run then ret False else
     seq (conn_sendto env a (''<3&'' @ nl))
    (seq (sr_log DEBUG ''Send heartbeat'')
    (bnd (deref_conn a) (\<lambda>c.
       if \<not> getRecvStatus c then seq freeEmptysocket (ret False) else ret True))))"

subsection \<open>Quotes\<close>

definition deref_quote :: "string \<Rightarrow> ('a server_scheme, stock) cpp" where
  "deref_quote k =
     bnd (get (\<lambda>s. map_subscript k None (quotesList s))) (\<lambda>(p, m).
     seq (upd (\<lambda>s. s\<lparr>quotesList := m\<rparr>))
         (case p of None \<Rightarrow> fail (Undefined Null_deref) | Some st \<Rightarrow> ret st))"

definition put_quote :: "string \<Rightarrow> stock \<Rightarrow> ('a server_scheme, unit) cpp" where
  "put_quote k st = upd (\<lambda>s. s\<lparr>quotesList := map_put k (Some st) (quotesList s)\<rparr>)"

definition quoteUpdate :: "string \<Rightarrow> double \<Rightarrow> ('a server_scheme, unit) cpp" where
  "quoteUpdate product execPrice =
     try_catch
       (bnd (deref_quote product) (\<lambda>st.
        seq (put_quote product (st\<lparr>priceNow := execPrice\<rparr>))
       (bnd (deref_quote product) (\<lambda>st.
          if execPrice < priceMin st
          then put_quote product (st\<lparr>priceMin := execPrice\<rparr>)
          else if priceMax st < execPrice
          then put_quote product (st\<lparr>priceMax := execPrice\<rparr>)
          else ret ()))))
       (\<lambda>_. ret ())"

subsection \<open>Messages of logged-in clients\<close>

definition utf8_order_received :: string where
  "utf8_order_received = [CHR 0xE6, CHR 0x94, CHR 0xB6, CHR 0xE5, CHR 0x88, CHR 0xB0, CHR 0xE4, CHR 0xB8,
     CHR 0x8B, CHR 0xE5, CHR 0x96, CHR 0xAE, CHR 0xE9, CHR 0x9B, CHR 0xBB, CHR 0xE6, CHR 0x96, CHR 0x87]"

definition utf8_change_received :: string where
  "utf8_change_received = [CHR 0xE6, CHR 0x94, CHR 0xB6, CHR 0xE5, CHR 0x88, CHR 0xB0, CHR 0xE5, CHR 0x88,
     CHR 0xAA, CHR 0xE5, CHR 0x96, CHR 0xAE, CHR 0xE6, CHR 0x88, CHR 0x96, CHR 0xE6, CHR 0x94, CHR 0xB9,
     CHR 0xE5, CHR 0x96, CHR 0xAE, CHR 0xE9, CHR 0x9B, CHR 0xBB, CHR 0xE6, CHR 0x96, CHR 0x87]"

text \<open>
  The body of \<open>case 1233\<close>. The arguments of \<open>sendToClient\<close> are evaluated from left to
  right (the standard leaves the order open).
\<close>

definition quote_reply :: "env \<Rightarrow> string \<Rightarrow> ('a server_scheme, unit) cpp" where
  "quote_reply env msg =
     try_catch
       (seq (sr_log DEBUG ''(Server) recv price asking'')
       (let temp = split msg ''|'' in
        bnd (vec_at temp 2) (\<lambda>t2.
        bnd (lift (stoi t2)) (\<lambda>n.
        bnd (vec_at temp 1) (\<lambda>t1.
        bnd (deref_quote t1) (\<lambda>st.
        sendToClient env n (''1233|'' @ to_string_double (priceNow st) @ ''|&'')))))))
       (\<lambda>_. ret ())"

text \<open>\<open>case 88\<close> and \<open>case 89\<close> have no \<open>break\<close>: they go on into \<open>case 1233\<close>.\<close>

definition msgHandler :: "env \<Rightarrow> string \<Rightarrow> ('a server_scheme, unit) cpp" where
  "msgHandler env msg =
     (if take 2 msg = ''<3'' then ret ()
      else
        try_catch
          (bnd (lift (stoi (upto_find ''|'' msg))) (\<lambda>code.
             if code = 87 then
               seq (sr_log DEBUG (''(Server) '' @ utf8_order_received))
                   (zoom dq (\<lambda>q s. s\<lparr>dq := q\<rparr>) (pushDTA msg))
             else if code = 88 \<or> code = 89 then
               seq (sr_log DEBUG (''(Server) '' @ utf8_change_received))
              (seq (zoom dq_orderhandle (\<lambda>q s. s\<lparr>dq_orderhandle := q\<rparr>) (pushDTA msg))
                   (quote_reply env msg))
             else if code = 1233 then quote_reply env msg
             else ret ()))
          (\<lambda>_. sr_log DEBUG ''(Server) Handle Msg error ''))"


subsection \<open>Messages of clients that are not logged in\<close>

definition login_attempt :: "env \<Rightarrow> string list \<Rightarrow> nat \<Rightarrow> ('a server_scheme, unit) cpp" where
  "login_attempt env res a =
     bnd (get userList) (\<lambda>users.
       if users = [] then ret ()
       else
         bnd (vec_at res 1) (\<lambda>user.
         case map_find users user of
           None \<Rightarrow> fail (Undefined Deref_end)
         | Some ud \<Rightarrow>
             bnd (vec_at res 2) (\<lambda>pw.
               if password ud = pw then
                 seq (sr_log DEBUG ''(Server) login success'')
                (bnd (get (\<lambda>s. rand env (trace s) mod 100000)) (\<lambda>r1.
                 seq (conn_sendto env a (''login|'' @ to_string r1 @ nl))
                (bnd (get (\<lambda>s. rand env (trace s) mod 100000)) (\<lambda>r2.
                 seq (conn_sendto env a (''1234|'' @ to_string r2 @ nl))
                (bnd (deref_conn a) (\<lambda>c.
                 put_conn a ((setloginFlag True c)\<lparr>username := user\<rparr>)))))))
               else ret ())))"

definition register_user :: "env \<Rightarrow> string \<Rightarrow> ('a server_scheme, unit) cpp" where
  "register_user env msg =
     seq (sr_log DEBUG ''(Server) Add new user'')
    (let res = split msg ''|'' in
     bnd (vec_at res 1) (\<lambda>user.
     bnd (vec_at res 2) (\<lambda>pw.
     bnd (vec_at res 3) (\<lambda>b.
     bnd (lift (stod b)) (\<lambda>bal.
     bnd (vec_at res 4) (\<lambda>v.
     bnd (lift (stod v)) (\<lambda>bv.
     let ud = \<lparr>userID = user, password = pw, balance = bal, book_value = bv\<rparr> in
     bnd (addTrader env ud) (\<lambda>ok.
       if ok then upd (\<lambda>s. s\<lparr>userList := map_insert user ud (userList s)\<rparr>) else ret ()))))))))"

definition loginMsgHandle :: "env \<Rightarrow> string \<Rightarrow> nat \<Rightarrow> ('a server_scheme, unit) cpp" where
  "loginMsgHandle env msg a =
     (if take 4 msg = ''1234'' then
        let res = split msg ''|'' in
        seq (sr_log DEBUG ''(Server) login verify'')
            (try_catch (login_attempt env res a) (\<lambda>_. ret ()))
      else if take 4 msg = ''1238'' then
        try_catch (register_user env msg) (\<lambda>_. ret ())
      else ret ())"

subsection \<open>Receiving\<close>

text \<open>
  How \<open>msgRecv\<close> cuts what it has received: the part to be handled now and the rest kept
  for the next turn, given the rest kept so far. A heartbeat answer \<open><3&\<close> is handled by
  itself and leaves the rest as it is. With no \<open>&\<close> at all, \<open>find_last_of\<close> yields \<open>npos\<close>,
  and the whole string is both handled and kept.
\<close>

definition frame :: "string \<Rightarrow> string \<Rightarrow> fault + (string \<times> string)" where
  "frame tempStr recvStr =
     (let joined = tempStr \<noteq> [] \<and> recvStr \<noteq> ''<3&'';
          str = (if joined then tempStr @ recvStr else recvStr);
          temp = (if joined then [] else tempStr)
      in if str = [] then Inl (Undefined Front_of_empty)
         else if last str \<noteq> CHR ''&'' then
           (case find_last (CHR ''&'') str of
              None \<Rightarrow> Inr (str, str)
            | Some found \<Rightarrow> Inr (take found str, drop (found + 1) str))
         else Inr (butlast str, temp))"

definition handle_frame :: "env \<Rightarrow> nat \<Rightarrow> string \<Rightarrow> ('a server_scheme, unit) cpp" where
  "handle_frame env a subStr =
     seq (sr_log DEBUG ('' Server Receive : '' @ subStr))
    (bnd (deref_conn a) (\<lambda>c.
       if getloginstatus c then
         for_each (split subStr ''&'') (\<lambda>m. msgHandler env (m @ ''|'' @ to_string (getConnectionID c) @ ''|''))
       else loginMsgHandle env subStr a))"

text \<open>
  One turn of \<open>msgRecv\<close> with what \<open>recv\<close> yields. Between turns the thread keeps the rest
  of the stream and the last string received; \<open>None\<close> says that it ends.
\<close>

definition msgRecv_turn :: "env \<Rightarrow> nat \<Rightarrow> string option \<Rightarrow> string \<times> string
    \<Rightarrow> ('a server_scheme, (string \<times> string) option) cpp" where
  "msgRecv_turn env a received = (\<lambda>(tempStr, recvStr).
     bnd getconnStatus (\<lambda>run. if \<not> run then ret None else
     bnd (conn_recvfrom a received recvStr) (\<lambda>(st, str).
     seq (sr_log DEBUG (''Recv row msg : '' @ str))
         (if st then
            bnd (lift (frame tempStr str)) (\<lambda>(sub, temp).
            let str' = (if tempStr \<noteq> [] \<and> str \<noteq> ''<3&'' then tempStr @ str else str) in
            seq (if last str' \<noteq> CHR ''&'' then sr_log DEBUG (''Temp String : '' @ temp) else ret ())
           (seq (handle_frame env a sub) (ret (Some (temp, str')))))
          else seq freeEmptysocket (ret None)))))"

definition insertOrderToDB :: "env \<Rightarrow> orderData \<Rightarrow> ('a server_scheme, bool) cpp" where
  "insertOrderToDB env od =
     bnd (insertOrder env od) (\<lambda>ok.
       if ok then seq (sr_log DEBUG ''(Server) Sent to db success'') (ret True)
       else seq (sr_log DEBUG ''(Server) Sent to db failed'') (ret False))"

subsection \<open>Start-up\<close>

text \<open>
  \<open>printf\<close> with two conversions and no arguments is undefined, so a failing \<open>socket\<close>
  ends there. The port goes through a 16-bit field; the address read is not used.
\<close>

definition socketini :: "env \<Rightarrow> ('a server_scheme, bool) cpp" where
  "socketini env =
     bnd (get (\<lambda>s. load_ini env (initFilePath s) (initchosen s))) (\<lambda>r.
     bnd (lift r) (\<lambda>ip.
     bnd (lift (stoi (ini_get ip ''port''))) (\<lambda>port.
     bnd (syscall env ''socket'' 0) (\<lambda>ok. if \<not> ok then fail (Undefined Missing_argument) else
     bnd (syscall env ''bind'' (port mod 2 ^ 16)) (\<lambda>ok.
       if \<not> ok then seq (sr_log WARN ''bind failed with Error'') (ret False) else
     bnd (syscall env ''listen'' 4096) (\<lambda>ok.
       if \<not> ok then seq (sr_log WARN ''listen failed with Error: '') (ret False)
       else seq (setconnStatus True)
           (seq (sr_log DEBUG ''server socket init success'') (ret True))))))))"

definition essentialData_initialise :: "env \<Rightarrow> ('a server_scheme, unit) cpp" where
  "essentialData_initialise env =
     bnd (get (\<lambda>s. (mode_m s, junk_bool env (trace s)))) (\<lambda>(mode, junk).
     bnd (TradingDataHandler env (if mode then ''Testdatabase'' else ''database'') junk) (\<lambda>h.
     seq (upd (\<lambda>s. s\<lparr>sr_db := h\<rparr>))
    (seq (if connstatus h
          then bnd (getUserData env h) (\<lambda>users. upd (\<lambda>s. s\<lparr>userList := users\<rparr>))
          else sr_log ERROR ''(Server) Connect to DB failed'')
    (seq (sr_log ERROR ''(Server) Load price status'')
         (upd (\<lambda>s. s\<lparr>quotesList := map_insert ''KKC''
            (Some \<lparr>stockNum = junk_int env (trace s), priceNow = literal 60,
                   priceMax = literal 60, priceMin = literal 60\<rparr>) (quotesList s)\<rparr>))))))"

text \<open>The constructor; the result says whether the accepting thread was started.\<close>

definition Server :: "env \<Rightarrow> string \<Rightarrow> string \<Rightarrow> bool \<Rightarrow> ('a server_scheme, bool) cpp" where
  "Server env path chosen mode =
     seq (upd (\<lambda>s. s\<lparr>connStatus_m := junk_bool env (trace s), mode_m := mode, initFilePath := path,
            initchosen := chosen, connStorage_m := [], conn_heap := [], userList := [], quotesList := [],
            dq := DataQueue 100, dq_orderhandle := DataQueue 100\<rparr>))
    (seq (essentialData_initialise env)
    (bnd (get (\<lambda>s. connstatus (sr_db s))) (\<lambda>up.
     bnd (if up then socketini env else ret False) (\<lambda>ready.
       if ready then ret True else seq (setconnStatus False) (ret False)))))"

end
