(* ===== verification/Trader_Model.thy ===== *)
theory Trader_Model
  imports Orders Server_Model
begin

section \<open>The trader (InertiaTrader/trader.cpp)\<close>

text \<open>
  The trader holds the server object, so its state extends the server's. \<open>Order\<close> objects
  live in \<open>order_heap\<close>, at addresses the allocator chooses, and are never freed. The four
  books and the report list hold addresses. \<open>rawBuyside_\<close> and \<open>rawSellside_\<close> are
  \<open>multiset<Order*>\<close>: their order is that of the addresses, so they are the sorted lists
  of them. \<open>cv_m\<close> says whether the mutex of that name is locked. The loops of the four
  threads are modelled by their turns.
\<close>

record trader = server +
  tr_db :: tradingDataHandler
  productList :: "string list"
  tradeBasicData :: "string list"
  od_ptr :: "nat option"
  order_heap :: "nat \<Rightarrow> order option"
  buyside_m :: "nat list"
  sellside_m :: "nat list"
  reportList_m :: "nat list"
  rawBuyside_m :: "nat list"
  rawSellside_m :: "nat list"
  traderstatus_m :: bool
  serverstatus :: bool
  testmode :: bool
  sideFlag :: side
  nid_sub1 :: "32 word"
  nid_sub2 :: "32 word"
  cv_m :: bool

definition td_log :: "log_level \<Rightarrow> string \<Rightarrow> ('a world_scheme, unit) cpp" where
  "td_log = log_write ''TD''"

lemma td_log_app [simp, run_simps]:
  "td_log lvl doc s = (Inr (), s\<lparr>trace := trace s @ [Log ''TD'' lvl doc]\<rparr>)"
  by (simp add: td_log_def)

definition setTraderStatus :: "bool \<Rightarrow> ('a trader_scheme, unit) cpp" where
  "setTraderStatus status = upd (\<lambda>s. s\<lparr>traderstatus_m := status\<rparr>)"

definition getTraderStatus :: "('a trader_scheme, bool) cpp" where
  "getTraderStatus = get traderstatus_m"

definition endTransaction :: "('a trader_scheme, unit) cpp" where
  "endTransaction = upd (\<lambda>s. s\<lparr>serverstatus := True\<rparr>)"

subsection \<open>Orders by address\<close>

definition deref_order :: "nat \<Rightarrow> ('a trader_scheme, order) cpp" where
  "deref_order a = bnd (get (\<lambda>s. order_heap s a)) (\<lambda>p. case p of
     None \<Rightarrow> fail (Undefined Dangling) | Some ord \<Rightarrow> ret ord)"

definition put_order :: "nat \<Rightarrow> order \<Rightarrow> ('a trader_scheme, unit) cpp" where
  "put_order a ord = upd (\<lambda>s. s\<lparr>order_heap := (order_heap s)(a \<mapsto> ord)\<rparr>)"

definition generateNid :: "('a trader_scheme, int) cpp" where
  "generateNid =
     bnd (get (\<lambda>s. next_nid (nid_sub1 s) (nid_sub2 s))) (\<lambda>r.
     bnd (lift r) (\<lambda>(key, n). seq (upd (\<lambda>s. s\<lparr>nid_sub2 := n\<rparr>)) (ret key)))"

text \<open>
  \<open>orderDataInsert\<close> ends with an \<open>unlock\<close> of a mutex its thread has not locked. The
  standard leaves that undefined; the model has the plain mutex of the platform, where
  it frees the mutex whoever holds it.
\<close>

definition orderDataInsert :: "nat \<Rightarrow> ('a trader_scheme, unit) cpp" where
  "orderDataInsert a =
     bnd (deref_order a) (\<lambda>ord.
     seq (if getside ord = BUY then
            seq (upd (\<lambda>s. s\<lparr>rawBuyside_m := insort a (rawBuyside_m s)\<rparr>))
                (td_log DEBUG ''(Trader) Get Buyside Order'')
          else
            seq (upd (\<lambda>s. s\<lparr>rawSellside_m := insort a (rawSellside_m s)\<rparr>))
                (td_log DEBUG ''(Trader) Get SellSide Order''))
         (upd (\<lambda>s. s\<lparr>cv_m := False\<rparr>)))"

subsection \<open>New orders\<close>

text \<open>The members \<open>getOrder\<close> fills in from the fields of the message.\<close>

definition fill_order :: "string list \<Rightarrow> order \<Rightarrow> ('s, order) cpp" where
  "fill_order res ord =
     bnd (vec_at res 1) (\<lambda>r1.
     bnd (vec_at res 2) (\<lambda>r2.
     bnd (lift (stod r2)) (\<lambda>price.
     bnd (vec_at res 3) (\<lambda>r3.
     bnd (lift (stoi r3)) (\<lambda>sd.
     bnd (vec_at res 6) (\<lambda>r6.
     bnd (vec_at res 7) (\<lambda>r7.
     bnd (lift (stoi r7)) (\<lambda>conn_no.
     ret (setSituation NORMAL
           ((setside (if r3 = ''1'' then BUY else SELL) ord)
              \<lparr>nid := r1, orderPrice := price, o_side := sd, symbol := r6,
               o_userID := ''0324027'', connId := conn_no\<rparr>))))))))))"

text \<open>The row of the database made from a verified order.\<close>

definition order_data :: "order \<Rightarrow> orderData" where
  "order_data ord = \<lparr>od_nid = nid ord, od_volumn = 0, od_orderPrice = orderPrice ord,
     od_symbol = symbol ord, od_userID = o_userID ord, od_side = side_code (getside ord),
     od_client_serialnum = client_serialNum ord\<rparr>"

definition accept_order :: "env \<Rightarrow> nat \<Rightarrow> order \<Rightarrow> ('a trader_scheme, unit) cpp" where
  "accept_order env a ord =
     bnd generateNid (\<lambda>key.
     let ord' = ord\<lparr>client_serialNum := key\<rparr> in
     seq (put_order a ord')
    (seq (upd (\<lambda>s. s\<lparr>sideFlag := side_of_int (o_side ord)\<rparr>))
    (seq (orderDataInsert a)
    (seq (td_log DEBUG ''(Trader) Input data to db'')
    (bnd (insertOrderToDB env (order_data ord')) (\<lambda>ok.
       if ok then sendToClient env (connId ord) (nid ord @ ''|success'')
       else sendToClient env (connId ord) (nid ord @ ''|failed, repeat nid'')))))))"

definition admit_order :: "env \<Rightarrow> nat \<Rightarrow> order \<Rightarrow> ('a trader_scheme, unit) cpp" where
  "admit_order env a ord =
     bnd (getConnObject (connId ord)) (\<lambda>p. case p of
       None \<Rightarrow> fail (Undefined Null_deref)
     | Some ca \<Rightarrow>
         bnd (deref_conn ca) (\<lambda>cn.
         bnd (get (\<lambda>s. map_find (userList s) (username cn))) (\<lambda>u. case u of
           None \<Rightarrow> fail (Undefined Deref_end)
         | Some ud \<Rightarrow>
             if balance ud > orderPrice ord * literal 1000 then accept_order env a ord
             else seq (td_log DEBUG ''(Trader) Insufficient balance'')
                      (sendToClient env (connId ord) (nid ord @ ''|failed, Insufficient balance'')))))"

text \<open>
  One message of \<open>getOrder\<close>: \<open>a\<close> is the address \<open>new Order\<close> yields and \<open>memory\<close> what was
  there before. No other thread looks at the members while they are filled in, so they
  are stored at once.
\<close>

definition handle_order :: "env \<Rightarrow> nat \<Rightarrow> order \<Rightarrow> string list \<Rightarrow> ('a trader_scheme, unit) cpp" where
  "handle_order env a memory res =
     seq (upd (\<lambda>s. s\<lparr>od_ptr := Some a\<rparr>))
    (seq (put_order a (Order memory))
    (bnd (fill_order res (Order memory)) (\<lambda>ord.
     seq (put_order a ord)
    (bnd (get (\<lambda>s. (productList s, tradeBasicData s))) (\<lambda>(products, basics).
     bnd (verify products basics ord) (\<lambda>ord.
     seq (put_order a ord)
         (if getStatus ord = VERIFIED then admit_order env a ord
          else seq (td_log DEBUG ''(Trader) Send Error report'')
                   (sendToClient env (connId ord) (nid ord @ ''|failed'')))))))))"

text \<open>One turn of \<open>getOrder\<close>; the result says whether the thread goes on.\<close>

definition getOrder_turn :: "env \<Rightarrow> nat \<Rightarrow> order \<Rightarrow> ('a trader_scheme, bool) cpp" where
  "getOrder_turn env a memory =
     bnd getTraderStatus (\<lambda>run. if \<not> run then ret False else
     bnd (get (\<lambda>s. checkSpace (dq s))) (\<lambda>n.
       if 0 < n then
         seq (td_log DEBUG ''(Trader) Handle Order Msg'')
        (bnd (zoom dq (\<lambda>q s. s\<lparr>dq := q\<rparr>) popDTA) (\<lambda>msg.
         seq (handle_order env a memory (split msg ''|'')) (ret True)))
       else ret True))"

subsection \<open>Cancelling and changing orders\<close>

text \<open>\<open>std::find_if\<close> for an order number; \<open>None\<close> is the end iterator.\<close>

fun find_order :: "string \<Rightarrow> nat list \<Rightarrow> ('a trader_scheme, nat option) cpp" where
  "find_order n [] = ret None"
| "find_order n (a # as) =
     bnd (deref_order a) (\<lambda>ord. if nid ord = n then ret (Some a) else find_order n as)"

text \<open>The answer with text \<open>t\<close> to the connection the eighth field names.\<close>

definition answer :: "env \<Rightarrow> string list \<Rightarrow> string \<Rightarrow> ('a trader_scheme, unit) cpp" where
  "answer env res t =
     bnd (vec_at res 7) (\<lambda>r7.
     bnd (lift (stoi r7)) (\<lambda>n.
     bnd (vec_at res 1) (\<lambda>r1. sendToClient env n (r1 @ t))))"

definition cancel_in :: "env \<Rightarrow> string list \<Rightarrow> string
    \<Rightarrow> ('a trader_scheme \<Rightarrow> nat list) \<Rightarrow> (nat list \<Rightarrow> 'a trader_scheme \<Rightarrow> 'a trader_scheme)
    \<Rightarrow> ('a trader_scheme, unit) cpp" where
  "cancel_in env res doc book set_book =
     seq (td_log DEBUG doc)
    (bnd (vec_at res 1) (\<lambda>n.
     bnd (bnd (get book) (find_order n)) (\<lambda>it. case it of
       Some a \<Rightarrow>
         seq (td_log DEBUG ''(Trader) find target, try delete'')
        (seq (upd (\<lambda>s. set_book (remove1 a (book s)) s))
        (seq (answer env res ''|cancel order success'')
        (bnd (updateOrderSituation env n ''3'') (\<lambda>_. ret ()))))
     | None \<Rightarrow>
         seq (td_log DEBUG ''(Trader) target not found'')
             (answer env res ''|no this order''))))"

text \<open>
  Changing an order always searches \<open>buyside_\<close>; the branch for sell orders then compares
  the iterator with the end of \<open>sellside_\<close>, which is undefined.
\<close>

definition modify_order :: "env \<Rightarrow> string list \<Rightarrow> ('a trader_scheme, unit) cpp" where
  "modify_order env res =
     seq (td_log DEBUG ''(Trader) Handle modify order'')
    (bnd (vec_at res 1) (\<lambda>n.
     bnd (bnd (get buyside_m) (find_order n)) (\<lambda>it.
     bnd (vec_at res 3) (\<lambda>r3.
       if r3 = ''1'' then
         (case it of
            Some a \<Rightarrow>
              seq (td_log DEBUG ''(Trader) find target, try modify'')
             (bnd (deref_order a) (\<lambda>ord.
              bnd (vec_at res 2) (\<lambda>r2.
              bnd (lift (stod r2)) (\<lambda>price.
              seq (put_order a (ord\<lparr>orderPrice := price\<rparr>))
             (seq (answer env res ''|modify order success'')
             (bnd (updateOrderPrice env n r2) (\<lambda>_. ret ())))))))
          | None \<Rightarrow>
              seq (td_log DEBUG ''(Trader) modify target not found'')
                  (answer env res ''|no this order, modify failed''))
       else fail (Undefined Foreign_iterator)))))"

definition handle_change :: "env \<Rightarrow> string list \<Rightarrow> ('a trader_scheme, unit) cpp" where
  "handle_change env res =
     bnd (vec_at res 0) (\<lambda>r0.
       if r0 = ''88'' then
         bnd (vec_at res 3) (\<lambda>r3.
           if r3 = ''1'' then
             cancel_in env res ''(Trader) Delete buy order'' buyside_m (\<lambda>b s. s\<lparr>buyside_m := b\<rparr>)
           else if r3 = ''2'' then
             cancel_in env res ''(Trader) Delete sell order'' sellside_m (\<lambda>b s. s\<lparr>sellside_m := b\<rparr>)
           else answer env res ''|cancel order error'')
       else modify_order env res)"

definition getCancelOrder_turn :: "env \<Rightarrow> ('a trader_scheme, bool) cpp" where
  "getCancelOrder_turn env =
     bnd getTraderStatus (\<lambda>run. if \<not> run then ret False else
     bnd (get (\<lambda>s. checkSpace (dq_orderhandle s))) (\<lambda>n.
       if 0 < n then
         seq (td_log DEBUG ''(Trader) Handle Order Cancel/Modify'')
        (bnd (zoom dq_orderhandle (\<lambda>q s. s\<lparr>dq_orderhandle := q\<rparr>) popDTA) (\<lambda>msg.
         seq (handle_change env (split msg ''|'')) (ret True)))
       else ret True))"

subsection \<open>Matching\<close>

text \<open>
  The \<open>for\<close> loop of \<open>matchup\<close> over the buy orders, up to the second \<open>cv_m.lock()\<close>: the
  buy order the iterator stands on and the last sell order, if the condition holds. The
  condition reads the member \<open>od\<close>, not \<open>odb\<close>.
\<close>

fun scan_buys :: "nat list \<Rightarrow> ('a trader_scheme, (nat \<times> nat) option) cpp" where
  "scan_buys [] = ret None"
| "scan_buys (odb # buys) =
     bnd (get rawSellside_m) (\<lambda>sells. if sells = [] then fail (Undefined Deref_end) else
     let ods = last sells in
     bnd (get od_ptr) (\<lambda>p. case p of
       None \<Rightarrow> fail (Undefined Dangling)
     | Some od \<Rightarrow>
         bnd (deref_order od) (\<lambda>odo.
         bnd (deref_order ods) (\<lambda>odso.
           if orderPrice odo \<ge> orderPrice odso then ret (Some (odb, ods))
           else scan_buys buys))))"

text \<open>The body of the loop up to there; the \<open>while\<close> around it runs at most once.\<close>

definition match_select :: "('a trader_scheme, (nat \<times> nat) option) cpp" where
  "match_select =
     seq (td_log DEBUG ''(Trader) Do Match up process'')
    (bnd (get (\<lambda>s. (rawSellside_m s, rawBuyside_m s))) (\<lambda>(sells, buys).
       if 0 < length sells \<and> 0 < length buys then
         seq (td_log DEBUG ''(Trader) Execute Match up'') (scan_buys buys)
       else ret None))"

text \<open>
  What follows the second \<open>cv_m.lock()\<close>: the two orders were chosen before it, the sell
  order erased is the last one now.
\<close>

definition match_execute :: "nat \<Rightarrow> nat \<Rightarrow> ('a trader_scheme, unit) cpp" where
  "match_execute odb ods =
     bnd (deref_order ods) (\<lambda>so.
     bnd (deref_order odb) (\<lambda>bo.
     seq (put_order odb (bo\<lparr>execPrice := orderPrice so\<rparr>))
    (bnd (deref_order ods) (\<lambda>so.
     seq (put_order ods (so\<lparr>execPrice := orderPrice so\<rparr>))
    (seq (quoteUpdate ''KKC'' (orderPrice so))
    (seq (upd (\<lambda>s. s\<lparr>reportList_m := reportList_m s @ [odb]\<rparr>))
    (seq (upd (\<lambda>s. s\<lparr>reportList_m := reportList_m s @ [ods]\<rparr>))
    (bnd (get rawSellside_m) (\<lambda>sells.
     if sells = [] then fail (Undefined Deref_end) else
     seq (upd (\<lambda>s. s\<lparr>rawSellside_m := butlast sells\<rparr>))
    (seq (upd (\<lambda>s. s\<lparr>rawBuyside_m := remove1 odb (rawBuyside_m s)\<rparr>))
         (td_log DEBUG ''(Trader) Match up success'')))))))))))"

text \<open>
  The matching thread by program points. \<open>lk1\<close> holds \<open>cv_m\<close> from the first lock to the end
  of the function, and each pass locks \<open>cv_m\<close> again with a \<open>lock_guard\<close> and a third time
  before a match. Locking a mutex one already holds is undefined by the standard; on the
  plain mutex of the platform the thread waits until somebody unlocks it, which is what
  happens here: a step from a point that locks leaves everything as it is while \<open>cv_m\<close>
  is locked.
\<close>

datatype match_pc =
    At_start
  | At_lock                 \<comment> \<open>line 192\<close>
  | At_wait                 \<comment> \<open>line 193, \<open>cv_m\<close> held by \<open>lk1\<close>\<close>
  | At_sleep                \<comment> \<open>line 193, waiting without \<open>cv_m\<close>; nobody notifies \<open>cv_\<close>\<close>
  | At_loop                 \<comment> \<open>line 194\<close>
  | At_guard                \<comment> \<open>line 196\<close>
  | At_match nat nat        \<comment> \<open>line 212, with \<open>odb\<close> and \<open>ods\<close>\<close>
  | At_done                 \<comment> \<open>line 229\<close>
  | At_end

definition lock_cv :: "match_pc \<Rightarrow> ('a trader_scheme, match_pc) cpp \<Rightarrow> ('a trader_scheme, match_pc) cpp" where
  "lock_cv pc body = bnd (get cv_m) (\<lambda>locked.
     if locked then ret pc else seq (upd (\<lambda>s. s\<lparr>cv_m := True\<rparr>)) body)"

definition unlock_cv :: "('a trader_scheme, unit) cpp" where
  "unlock_cv = upd (\<lambda>s. s\<lparr>cv_m := False\<rparr>)"

fun matchup_step :: "match_pc \<Rightarrow> ('a trader_scheme, match_pc) cpp" where
  "matchup_step At_start = seq (td_log DEBUG ''(Trader) Match up thread start'') (ret At_lock)"
| "matchup_step At_lock = lock_cv At_lock (ret At_wait)"
| "matchup_step At_wait = bnd getconnStatus (\<lambda>ready.
     if ready then ret At_loop else seq unlock_cv (ret At_sleep))"
| "matchup_step At_sleep = lock_cv At_sleep (ret At_wait)"
| "matchup_step At_loop = bnd getTraderStatus (\<lambda>run.
     if run then ret At_guard else seq unlock_cv (ret At_end))"
| "matchup_step At_guard = lock_cv At_guard
     (bnd match_select (\<lambda>m. case m of None \<Rightarrow> ret At_done | Some (b, sl) \<Rightarrow> ret (At_match b sl)))"
| "matchup_step (At_match b sl) = lock_cv (At_match b sl)
     (seq (match_execute b sl) (seq unlock_cv (ret At_done)))"
| "matchup_step At_done =
     seq (td_log DEBUG ''(Trader) Match up process done'') (seq unlock_cv (ret At_loop))"
| "matchup_step At_end = ret At_end"

subsection \<open>Execution reports\<close>

definition sendExecReport :: "env \<Rightarrow> nat \<Rightarrow> ('a trader_scheme, unit) cpp" where
  "sendExecReport env a =
     bnd (deref_order a) (\<lambda>ord.
     seq (sendToClient env (connId ord) (nid ord @ ''|OrderExec''))
    (bnd (insertReport env (nid ord) (to_string_double (orderPrice ord)) (to_string_double (execPrice ord))
            (if getside ord = BUY then ''1'' else ''2'') (to_string (client_serialNum ord))) (\<lambda>ok.
     seq (if ok then td_log DEBUG ''(Trader) Execution report send'' else ret ())
    (bnd (updateOrderSituation env (nid ord) ''2'') (\<lambda>_. ret ())))))"

text \<open>
  \<open>generateExecReport\<close> has two program points: while it sends the report it has taken from
  the back of the list, other threads run, and the entry removed afterwards is the one at
  the back then.
\<close>

datatype report_pc = Report_poll | Report_pop | Report_end

fun generateExecReport_step :: "env \<Rightarrow> report_pc \<Rightarrow> ('a trader_scheme, report_pc) cpp" where
  "generateExecReport_step env Report_poll =
     bnd getTraderStatus (\<lambda>run. if \<not> run then ret Report_end else
     bnd (get reportList_m) (\<lambda>reports.
       if reports = [] then ret Report_poll
       else seq (td_log DEBUG ''(Trader) Handle Exec Order'')
           (seq (sendExecReport env (last reports)) (ret Report_pop))))"
| "generateExecReport_step env Report_pop =
     bnd (get reportList_m) (\<lambda>reports.
       if reports = [] then fail (Undefined Front_of_empty)
       else seq (upd (\<lambda>s. s\<lparr>reportList_m := butlast reports\<rparr>)) (ret Report_poll))"
| "generateExecReport_step env Report_end = ret Report_end"

subsection \<open>Start-up\<close>

definition Trader_essentialData_initialise :: "env \<Rightarrow> ('a trader_scheme, unit) cpp" where
  "Trader_essentialData_initialise env =
     bnd (get (\<lambda>s. (testmode s, junk_bool env (trace s)))) (\<lambda>(test, junk).
     bnd (TradingDataHandler env (if test then ''Testdatabase'' else ''database'') junk) (\<lambda>h.
     seq (upd (\<lambda>s. s\<lparr>tr_db := h\<rparr>))
         (if connstatus h then
            bnd (getTradingData env h) (\<lambda>basics.
            seq (upd (\<lambda>s. s\<lparr>tradeBasicData := basics\<rparr>))
           (bnd (getProductList env h) (\<lambda>products.
            upd (\<lambda>s. s\<lparr>productList := products\<rparr>))))
          else td_log ERROR ''(Trader) Initial failed'')))"

text \<open>
  Loading the valid orders of the database. \<open>alloc\<close> gives, for the orders in turn, the
  address \<open>new Order\<close> yields and what was there before.
\<close>

fun load_exist :: "(nat \<times> order) list \<Rightarrow> orderData list \<Rightarrow> ('a trader_scheme, unit) cpp" where
  "load_exist ((a, memory) # alloc) (x # xs) =
     seq (put_order a ((Order memory)\<lparr>nid := od_nid x, orderPrice := od_orderPrice x,
            o_side := od_side x, client_serialNum := od_client_serialnum x\<rparr>))
    (seq (if od_side x = 1 then upd (\<lambda>s. s\<lparr>buyside_m := buyside_m s @ [a]\<rparr>)
          else upd (\<lambda>s. s\<lparr>sellside_m := sellside_m s @ [a]\<rparr>))
         (load_exist alloc xs))"
| "load_exist alloc xs = ret ()"

text \<open>
  The log line adds the number of orders to the address of a text of 30 characters, so
  the line is the text from that character on, and beyond 30 the address is outside it.
\<close>

definition exist_order_text :: string where
  "exist_order_text = ''(Trader) exist order volume : ''"

definition loadExistOrder :: "env \<Rightarrow> (nat \<times> order) list \<Rightarrow> ('a trader_scheme, unit) cpp" where
  "loadExistOrder env alloc =
     seq (td_log DEBUG ''(Trader) start load exist order'')
    (bnd (get tr_db) (\<lambda>h.
     bnd (getExistOrder env h) (\<lambda>existOrder.
     if length exist_order_text < length existOrder then fail (Undefined Index_past_end) else
     seq (td_log DEBUG (drop (length existOrder) exist_order_text))
    (seq (load_exist alloc existOrder)
         (td_log DEBUG ''(Trader) load exist order success'')))))"

definition Trader :: "env \<Rightarrow> (nat \<times> order) list \<Rightarrow> bool \<Rightarrow> ('a trader_scheme, unit) cpp" where
  "Trader env alloc mode =
     seq (upd (\<lambda>s. s\<lparr>productList := [], tradeBasicData := [], od_ptr := None, order_heap := (\<lambda>_. None),
            buyside_m := [], sellside_m := [], reportList_m := [], rawBuyside_m := [], rawSellside_m := [],
            serverstatus := False, testmode := mode, cv_m := False,
            nid_sub1 := word_of_int (rand env (trace s) mod (2 ^ 31 - 1)), nid_sub2 := 1\<rparr>))
    (seq (td_log DEBUG ''Virtual trader initialise'')
    (seq (Trader_essentialData_initialise env)
    (seq (loadExistOrder env alloc)
         (setTraderStatus True))))"

text \<open>
  \<open>startTransaction\<close> up to its final wait for \<open>serverstatus\<close>, which releases \<open>cv_m\<close>. The
  result says whether the four threads were started.
\<close>

definition startTransaction :: "env \<Rightarrow> ('a trader_scheme, bool) cpp" where
  "startTransaction env =
     bnd (get testmode) (\<lambda>test.
     bnd (Server env ''./doc/settings.ini'' ''socket'' test) (\<lambda>_.
     bnd getconnStatus (\<lambda>up.
       if up \<and> test = False then ret True
       else seq (upd (\<lambda>s. s\<lparr>serverstatus := True\<rparr>)) (ret False))))"

text \<open>\<open>main\<close>: reading a missing first argument is a read through a null pointer.\<close>

definition main_program :: "env \<Rightarrow> (nat \<times> order) list \<Rightarrow> string list \<Rightarrow> ('a trader_scheme, bool) cpp" where
  "main_program env alloc args =
     (case args of
        [] \<Rightarrow> fail (Undefined Null_deref)
      | mode # _ \<Rightarrow> seq (Trader env alloc (mode = ''test'')) (startTransaction env))"

end
