(* ===== verification/Server_Facts.thy ===== *)
theory Server_Facts
  imports Server_Model
begin

section \<open>What the server does with its messages\<close>

text \<open>
  Lemmas on the operations of \<open>Server_Model\<close> and the properties that rest on them: how a
  byte stream becomes messages, who gets logged in, what each message code does, how
  connections and quotes change.
\<close>

subsection \<open>The stream of a connection\<close>

lemma strtok_all_cut:
  "d \<in> set ds \<Longrightarrow> strtok_all ds (s @ d # t) = strtok_all ds s @ strtok_all ds t"
proof (induction ds s rule: strtok_all.induct)
  case (1 ds s)
  define u where "u = dropWhile (\<lambda>c. c \<in> set ds) s"
  show ?case
  proof (cases "u = []")
    case True
    then have "\<forall>c \<in> set s. c \<in> set ds" by (simp add: u_def)
    moreover from this have "strtok_all ds (s @ d # t) = strtok_all ds (d # t)"
      by (induction s) (simp_all add: strtok_all_skip)
    ultimately show ?thesis using "1.prems" by (simp add: strtok_all_delims strtok_all_skip)
  next
    case False
    let ?p = "\<lambda>c. c \<notin> set ds"
    have skip: "strtok_all ds (s @ r) = strtok_all ds (u @ r)" for r
      unfolding u_def by (induction s) (simp_all add: strtok_all_skip)
    define w v where "w = takeWhile ?p u" and "v = dropWhile ?p u"
    have u: "u = w @ v" by (simp add: w_def v_def)
    have "hd u \<notin> set ds" using False hd_dropWhile unfolding u_def by metis
    then have w: "w \<noteq> []" "set w \<inter> set ds = {}"
      using False by (cases u; auto simp: w_def dest: set_takeWhileD)+
    have v: "v = [] \<or> hd v \<in> set ds" using hd_dropWhile [of ?p u] by (auto simp: v_def)
    have "strtok_all ds (u @ d # t) = w # strtok_all ds (v @ d # t)"
      using strtok_all_token [OF w, of "v @ d # t"] v "1.prems" by (cases v) (auto simp: u)
    moreover have "strtok_all ds (v @ d # t) = strtok_all ds v @ strtok_all ds t"
      using "1.IH" [OF u_def] False "1.prems" by (simp add: v_def)
    moreover have "strtok_all ds u = w # strtok_all ds v"
      using strtok_all_token [OF w, of v] v by (simp add: u)
    ultimately show ?thesis using skip [of "d # t"] skip [of "[]"] by simp
  qed
qed

lemma frame_cut:
  assumes "tempStr = [] \<or> recvStr \<noteq> ''<3&''" and "CHR ''&'' \<in> set (tempStr @ recvStr)"
  obtains sub rest where "frame tempStr recvStr = Inr (sub, rest)"
    and "tempStr @ recvStr = sub @ CHR ''&'' # rest" and "CHR ''&'' \<notin> set rest"
proof -
  let ?str = "tempStr @ recvStr"
  have str: "(if tempStr \<noteq> [] \<and> recvStr \<noteq> ''<3&'' then ?str else recvStr) = ?str"
    and temp: "(if tempStr \<noteq> [] \<and> recvStr \<noteq> ''<3&'' then [] else tempStr) = []"
    using assms(1) by auto
  have ne: "?str \<noteq> []" using assms(2) by auto
  show thesis
  proof (cases "last ?str = CHR ''&''")
    case True
    then have "?str = butlast ?str @ CHR ''&'' # []" using append_butlast_last_id [OF ne] by simp
    then show ?thesis using that [of "butlast ?str" "[]"] True ne by (simp only: frame_def Let_def str temp) simp
  next
    case False
    obtain i where i: "find_last (CHR ''&'') ?str = Some i"
      using assms(2) find_last_None [of "CHR ''&''" ?str] by (cases "find_last (CHR ''&'') ?str") auto
    then show ?thesis
      using that [of "take i ?str" "drop (Suc i) ?str"] find_last_Some [OF i] False ne
      by (simp only: frame_def Let_def str temp) simp
  qed
qed

lemma frame_whole:
  "tempStr = [] \<or> recvStr \<noteq> ''<3&'' \<Longrightarrow> tempStr @ recvStr \<noteq> [] \<Longrightarrow> CHR ''&'' \<notin> set (tempStr @ recvStr) \<Longrightarrow>
   frame tempStr recvStr = Inr (tempStr @ recvStr, tempStr @ recvStr)"
proof -
  assume a: "tempStr = [] \<or> recvStr \<noteq> ''<3&''" and ne: "tempStr @ recvStr \<noteq> []"
    and no: "CHR ''&'' \<notin> set (tempStr @ recvStr)"
  have str: "(if tempStr \<noteq> [] \<and> recvStr \<noteq> ''<3&'' then tempStr @ recvStr else recvStr) = tempStr @ recvStr"
    using a by auto
  have "last (tempStr @ recvStr) \<noteq> CHR ''&''" using no last_in_set [OF ne] by metis
  then show ?thesis
    using no ne find_last_None [of "CHR ''&''" "tempStr @ recvStr"]
    by (simp only: frame_def Let_def str) simp
qed

text \<open>The loop of \<open>msgRecv\<close> on successive receptions, with the messages of each turn.\<close>

fun frames :: "string \<Rightarrow> string list \<Rightarrow> fault + (string list \<times> string)" where
  "frames temp [] = Inr ([], temp)"
| "frames temp (c # cs) =
     (case frame temp c of
        Inl f \<Rightarrow> Inl f
      | Inr (sub, temp') \<Rightarrow>
          (case frames temp' cs of
             Inl f \<Rightarrow> Inl f
           | Inr (ms, rest) \<Rightarrow> Inr (split sub ''&'' @ ms, rest)))"

lemma split_amp: "NUL \<notin> set s \<Longrightarrow> split s ''&'' = strtok_all ''&'' s"
proof -
  have "c_str ''&'' = ''&''" by (simp add: c_str_def NUL_def)
  then show "NUL \<notin> set s \<Longrightarrow> split s ''&'' = strtok_all ''&'' s"
    by (simp add: split_def c_str_id)
qed

abbreviation is_message :: "string \<Rightarrow> bool" where
  "is_message m \<equiv> m \<noteq> ''<3''"

lemma frame_heartbeat: "frame temp ''<3&'' = Inr (''<3'', temp)"
  by (simp add: frame_def)

lemma split_heartbeat: "split ''<3'' ''&'' = [''<3'']"
proof -
  have "strtok_all ''&'' ''<3'' = [''<3'']" by (rule strtok_all_token_end) simp_all
  then show ?thesis by (simp add: split_amp NUL_def)
qed

lemma frames_stream:
  assumes "\<forall>c \<in> set cs. c = ''<3&'' \<or> CHR ''&'' \<in> set c \<and> NUL \<notin> set c"
    and "CHR ''&'' \<notin> set temp" and "NUL \<notin> set temp"
  shows "\<exists>ms rest. frames temp cs = Inr (ms, rest)
    \<and> filter is_message (ms @ strtok_all ''&'' rest)
      = filter is_message (strtok_all ''&'' (temp @ concat (filter (\<lambda>c. c \<noteq> ''<3&'') cs)))
    \<and> CHR ''&'' \<notin> set rest \<and> NUL \<notin> set rest"
  using assms
proof (induction cs arbitrary: temp)
  case (Cons c cs)
  let ?later = "concat (filter (\<lambda>c. c \<noteq> ''<3&'') cs)"
  show ?case
  proof (cases "c = ''<3&''")
    case True
    obtain ms rest where "frames temp cs = Inr (ms, rest)"
      and "filter is_message (ms @ strtok_all ''&'' rest) = filter is_message (strtok_all ''&'' (temp @ ?later))"
      and "CHR ''&'' \<notin> set rest" and "NUL \<notin> set rest"
      using Cons.IH [of temp] Cons.prems by auto
    then show ?thesis using True by (simp add: frame_heartbeat split_heartbeat)
  next
    case False
    obtain sub temp' where f: "frame temp c = Inr (sub, temp')"
      and cut: "temp @ c = sub @ CHR ''&'' # temp'" and temp': "CHR ''&'' \<notin> set temp'"
      using frame_cut [of temp c] Cons.prems False by auto
    have "NUL \<notin> set (temp @ c)" using Cons.prems False by auto
    then have clean: "NUL \<notin> set sub" "NUL \<notin> set temp'" unfolding cut by auto
    then obtain ms rest where fs: "frames temp' cs = Inr (ms, rest)"
      and ms: "filter is_message (ms @ strtok_all ''&'' rest)
        = filter is_message (strtok_all ''&'' (temp' @ ?later))" "CHR ''&'' \<notin> set rest" "NUL \<notin> set rest"
      using Cons.IH [of temp'] temp' Cons.prems by auto
    have "temp @ concat (filter (\<lambda>c. c \<noteq> ''<3&'') (c # cs)) = sub @ CHR ''&'' # (temp' @ ?later)"
      using cut False by simp
    then have "strtok_all ''&'' (temp @ concat (filter (\<lambda>c. c \<noteq> ''<3&'') (c # cs)))
        = strtok_all ''&'' sub @ strtok_all ''&'' (temp' @ ?later)"
      by (simp only: strtok_all_cut list.set insert_iff simp_thms)
    then show ?thesis using f fs ms clean by (simp add: split_amp)
  qed
qed simp



text \<open>
  C23. A reception without any message end is handled at once and kept as well, so when its
  end arrives the first part has been handled by itself and is handled again.
\<close>

theorem fragment_handled_twice:
  assumes "s \<noteq> []" and "CHR ''&'' \<notin> set (s @ r)" and "r \<noteq> ''<3''"
  shows "frames [] [s, r @ ''&''] = Inr (split s ''&'' @ split (s @ r) ''&'', [])"
proof -
  have "frame [] s = Inr (s, s)" using frame_whole [of "[]" s] assms(1,2) by simp
  moreover have "frame s (r @ ''&'') = Inr (s @ r, [])"
  proof -
    have "r @ ''&'' \<noteq> ''<3&''" using assms(3) by (cases r rule: rev_cases) auto
    then show ?thesis using assms(1) by (simp add: frame_def butlast_append)
  qed
  ultimately show ?thesis by simp
qed

theorem fragment_handled_twice_witness:
  "frames [] [''87|1|60'', ''|1&''] = Inr (split ''87|1|60'' ''&'' @ split ''87|1|60|1'' ''&'', [])"
  using fragment_handled_twice [of "''87|1|60''" "''|1''"] by simp

subsection \<open>Sending to a connection\<close>

lemma put_conn_app [run_simps]: "put_conn a c s = (Inr (), s\<lparr>conn_heap := (conn_heap s)[a := c]\<rparr>)"
  by (simp add: put_conn_def)

lemma deref_conn_app [run_simps]:
  "a < length (conn_heap s) \<Longrightarrow> deref_conn a s = (Inr (conn_heap s ! a), s)"
  "\<not> a < length (conn_heap s) \<Longrightarrow> deref_conn a s = (Inl (Undefined Dangling), s)"
  by (simp_all add: deref_conn_def bnd_app)

text \<open>The connection after a transmission: its status may have become false.\<close>

definition after_send :: "env \<Rightarrow> event list \<Rightarrow> string \<Rightarrow> connection \<Rightarrow> connection" where
  "after_send env tr str c =
     (let e = Send (connection_socket_m c) (send_block env tr str) in
      if send_rc env (tr @ [e]) (connection_socket_m c) (send_block env tr str) < 0
      then setRecvStatus False c else c)"

lemma after_send_same [simp]:
  "connection_socket_m (after_send env tr str c) = connection_socket_m c"
  "connectionID_m (after_send env tr str c) = connectionID_m c"
  "login_flag_m (after_send env tr str c) = login_flag_m c"
  "username (after_send env tr str c) = username c"
  by (simp_all add: after_send_def setRecvStatus_def Let_def)

lemma conn_sendto_app [run_simps]:
  assumes "a < length (conn_heap s)"
  shows "conn_sendto env a str s = (Inr (),
    s\<lparr>trace := trace s @ [Send (connection_socket_m (conn_heap s ! a)) (send_block env (trace s) str)],
      conn_heap := (conn_heap s)[a := after_send env (trace s) str (conn_heap s ! a)]\<rparr>)"
  using assms by (simp add: conn_sendto_def sendto_app after_send_def run_simps bnd_app Let_def)

lemma getConnObject_app [run_simps]:
  "map_find (connStorage_m s) k = Some p \<Longrightarrow> getConnObject k s = (Inr p, s)"
  "map_find (connStorage_m s) k = None \<Longrightarrow>
     getConnObject k s = (Inr None, s\<lparr>connStorage_m := map_insert k None (connStorage_m s)\<rparr>)"
  by (simp_all add: getConnObject_def map_subscript_def bnd_app seq_def)

lemma sendToClient_app [run_simps]:
  assumes "map_find (connStorage_m s) k = Some (Some a)" and "a < length (conn_heap s)"
  shows "sendToClient env k msg s = (Inr (),
    (let lg = Log ''SR'' DEBUG (''(Server) Send to client '' @ to_string k);
         tr = trace s @ [lg] in
     s\<lparr>trace := tr @ [Send (connection_socket_m (conn_heap s ! a)) (send_block env tr (msg @ nl))],
       conn_heap := (conn_heap s)[a := after_send env tr (msg @ nl) (conn_heap s ! a)]\<rparr>))"
  using assms by (simp add: sendToClient_def seq_def bnd_app getConnObject_app conn_sendto_app Let_def)

lemma sendToClient_unknown [run_simps]:
  "map_find (connStorage_m s) k = None \<or> map_find (connStorage_m s) k = Some None \<Longrightarrow>
     fst (sendToClient env k msg s) = Inl (Undefined Null_deref)"
  by (auto simp: sendToClient_def seq_def bnd_app getConnObject_def map_subscript_def)

text \<open>
  \<open>answered env s a str s'\<close>: from \<open>s\<close> to \<open>s'\<close> one block was sent, on the socket of
  connection \<open>a\<close> and starting with the text \<open>str\<close>; nothing else changed but the log and
  the status flag of the connection.
\<close>

definition answered :: "env \<Rightarrow> 'a server_scheme \<Rightarrow> nat \<Rightarrow> string \<Rightarrow> 'a server_scheme \<Rightarrow> bool" where
  "answered env s a str s' \<longleftrightarrow> (\<exists>tr pre b. s' = s\<lparr>trace := tr,
        conn_heap := (conn_heap s)[a := (conn_heap s ! a)\<lparr>recvStatus_m := b\<rparr>]\<rparr>
     \<and> visible tr = visible (trace s) @ [Send (connection_socket_m (conn_heap s ! a)) (send_block env pre str)])"

lemma after_send_flag: "\<exists>b. after_send env tr str c = c\<lparr>recvStatus_m := b\<rparr>"
proof (cases "after_send env tr str c = c")
  case True
  then show ?thesis by (intro exI [of _ "recvStatus_m c"]) simp
next
  case False
  then show ?thesis by (auto simp: after_send_def setRecvStatus_def Let_def split: if_splits)
qed

lemma answered_logged:
  assumes "answered env (s\<lparr>trace := trace s @ [Log ty lvl doc]\<rparr>) a str s'"
  shows "answered env s a str s'"
  using assms by (auto simp: answered_def)

lemma sendToClient_answered:
  assumes "map_find (connStorage_m s) k = Some (Some a)" and "a < length (conn_heap s)"
  obtains s' where "sendToClient env k msg s = (Inr (), s')" and "answered env s a (msg @ nl) s'"
proof -
  let ?tr = "trace s @ [Log ''SR'' DEBUG (''(Server) Send to client '' @ to_string k)]"
  let ?blk = "send_block env ?tr (msg @ nl)" and ?fd = "connection_socket_m (conn_heap s ! a)"
  obtain b where b: "after_send env ?tr (msg @ nl) (conn_heap s ! a) = (conn_heap s ! a)\<lparr>recvStatus_m := b\<rparr>"
    using after_send_flag by blast
  let ?s' = "s\<lparr>trace := ?tr @ [Send ?fd ?blk],
    conn_heap := (conn_heap s)[a := (conn_heap s ! a)\<lparr>recvStatus_m := b\<rparr>]\<rparr>"
  have "answered env s a (msg @ nl) ?s'"
    unfolding answered_def by (intro exI [of _ "?tr @ [Send ?fd ?blk]"] exI [of _ ?tr] exI [of _ b]) simp
  then show thesis using sendToClient_app [OF assms, of env msg] b by (intro that) (simp_all add: Let_def)
qed

text \<open>Whatever the outcome, an answer touches the trace, the connections and their map only.\<close>

lemma sendToClient_frame:
  "\<exists>t h m. snd (sendToClient env k msg s) = s\<lparr>trace := t, connStorage_m := m, conn_heap := h\<rparr>"
proof (cases "map_find (connStorage_m s) k")
  case (Some p)
  show ?thesis
  proof (cases p)
    case None
    then show ?thesis using Some
      by (intro exI [of _ "trace s @ [_]"] exI [of _ "conn_heap s"] exI [of _ "connStorage_m s"])
         (simp add: sendToClient_def seq_def bnd_app getConnObject_app)
  next
    case (Some a)
    then have p: "map_find (connStorage_m s) k = Some (Some a)" using \<open>map_find (connStorage_m s) k = Some p\<close> by simp
    show ?thesis
    proof (cases "a < length (conn_heap s)")
      case True
      then show ?thesis using p
        by (intro exI [of _ "trace s @ [_, _]"] exI [of _ "(conn_heap s)[a := _]"] exI [of _ "connStorage_m s"])
           (simp add: sendToClient_app Let_def)
    next
      case False
      then show ?thesis using p
        by (intro exI [of _ "trace s @ [_]"] exI [of _ "conn_heap s"] exI [of _ "connStorage_m s"])
           (simp add: sendToClient_def seq_def bnd_app getConnObject_app conn_sendto_def deref_conn_app)
    qed
  qed
next
  case None
  then show ?thesis
    by (intro exI [of _ "trace s @ [_]"] exI [of _ "conn_heap s"] exI [of _ "map_insert k None (connStorage_m s)"])
       (simp add: sendToClient_def seq_def bnd_app getConnObject_app)
qed

subsection \<open>Logging in and registering\<close>

lemma field_ok_digits: "field_ok (CHR ''|'') ''1234''" "field_ok (CHR ''|'') ''1238''"
  by (simp_all add: field_ok_def NUL_def)

lemma conn_sendto_obtain:
  assumes "a < length (conn_heap s)"
  obtains tr c where "conn_sendto env a str s = (Inr (), s\<lparr>trace := tr, conn_heap := (conn_heap s)[a := c]\<rparr>)"
    and "login_flag_m c = login_flag_m (conn_heap s ! a)" and "username c = username (conn_heap s ! a)"
    and "connectionID_m c = connectionID_m (conn_heap s ! a)"
    and "connection_socket_m c = connection_socket_m (conn_heap s ! a)"
  using conn_sendto_app [OF assms, of env str] by (rule that) simp_all

lemma login_attempt_success:
  assumes a: "a < length (conn_heap s)" and user: "map_find (userList s) u = Some ud" "password ud = p"
  obtains tr c where "login_attempt env (x # u # p # rest) a s = (Inr (), s\<lparr>trace := tr, conn_heap := (conn_heap s)[a := c]\<rparr>)"
    and "login_flag_m c" and "username c = u" and "connectionID_m c = connectionID_m (conn_heap s ! a)"
    and "connection_socket_m c = connection_socket_m (conn_heap s ! a)"
proof -
  let ?lg = "Log ''SR'' DEBUG ''(Server) login success''"
  let ?s1 = "s\<lparr>trace := trace s @ [?lg]\<rparr>"
  let ?m1 = "''login|'' @ to_string (rand env (trace ?s1) mod 100000) @ nl"
  obtain t2 c2 where s2: "conn_sendto env a ?m1 ?s1
      = (Inr (), ?s1\<lparr>trace := t2, conn_heap := (conn_heap ?s1)[a := c2]\<rparr>)"
    and "login_flag_m c2 = login_flag_m (conn_heap ?s1 ! a)" and "username c2 = username (conn_heap ?s1 ! a)"
    and c2: "connectionID_m c2 = connectionID_m (conn_heap ?s1 ! a)"
      "connection_socket_m c2 = connection_socket_m (conn_heap ?s1 ! a)"
    by (rule conn_sendto_obtain [of a ?s1 env ?m1]) (use a in simp)
  let ?s2 = "?s1\<lparr>trace := t2, conn_heap := (conn_heap ?s1)[a := c2]\<rparr>"
  let ?m2 = "''1234|'' @ to_string (rand env (trace ?s2) mod 100000) @ nl"
  obtain t3 c3 where s3: "conn_sendto env a ?m2 ?s2
      = (Inr (), ?s2\<lparr>trace := t3, conn_heap := (conn_heap ?s2)[a := c3]\<rparr>)"
    and "login_flag_m c3 = login_flag_m (conn_heap ?s2 ! a)" and "username c3 = username (conn_heap ?s2 ! a)"
    and c3: "connectionID_m c3 = connectionID_m (conn_heap ?s2 ! a)"
      "connection_socket_m c3 = connection_socket_m (conn_heap ?s2 ! a)"
    by (rule conn_sendto_obtain [of a ?s2 env ?m2]) (use a in simp)
  have users: "userList s \<noteq> []" using user(1) by auto
  have "login_attempt env (x # u # p # rest) a s
      = (Inr (), s\<lparr>trace := t3, conn_heap := (conn_heap s)[a := (setloginFlag True c3)\<lparr>username := u\<rparr>]\<rparr>)"
    using users user a s2 s3
    by (simp add: login_attempt_def bnd_app seq_def deref_conn_app put_conn_app)
  then show thesis by (rule that) (use a c2 c3 in \<open>simp_all add: setloginFlag_def\<close>)
qed

lemma loginMsgHandle_login:
  "take 4 msg = ''1234'' \<Longrightarrow> loginMsgHandle env msg a s =
     try_catch (login_attempt env (split msg ''|'') a) (\<lambda>_. ret ())
       (s\<lparr>trace := trace s @ [Log ''SR'' DEBUG ''(Server) login verify'']\<rparr>)"
  by (simp add: loginMsgHandle_def seq_def bnd_app)

lemma split_login:
  assumes "field_ok (CHR ''|'') u" and "field_ok (CHR ''|'') p"
  shows "split (join (CHR ''|'') [''1234'', u, p]) ''|'' = [''1234'', u, p]"
    and "take 4 (join (CHR ''|'') [''1234'', u, p]) = ''1234''"
  using split_join [of "[''1234'', u, p]" "CHR ''|''"] assms field_ok_digits
  by (simp_all del: split_join add: NUL_def)

lemma login_facts:
  assumes "field_ok (CHR ''|'') u" and "field_ok (CHR ''|'') p" and "userList s \<noteq> []"
    and "a < length (conn_heap s)"
    and run: "loginMsgHandle env (join (CHR ''|'') [''1234'', u, p]) a s = (r, s')"
  shows "case map_find (userList s) u of
      None \<Rightarrow> r = Inl (Undefined Deref_end)
    | Some ud \<Rightarrow> r = Inr () \<and> userList s' = userList s \<and> length (conn_heap s') = length (conn_heap s)
        \<and> (\<forall>b. b \<noteq> a \<longrightarrow> conn_heap s' ! b = conn_heap s ! b)
        \<and> (getloginstatus (conn_heap s' ! a) \<longleftrightarrow> getloginstatus (conn_heap s ! a) \<or> password ud = p)
        \<and> (password ud = p \<longrightarrow> username (conn_heap s' ! a) = u)"
proof -
  let ?s1 = "s\<lparr>trace := trace s @ [Log ''SR'' DEBUG ''(Server) login verify'']\<rparr>"
  let ?res = "[''1234'', u, p]"
  have run1: "try_catch (login_attempt env ?res a) (\<lambda>_. ret ()) ?s1 = (r, s')"
    using run unfolding loginMsgHandle_login [OF split_login(2) [OF assms(1,2)]] split_login(1) [OF assms(1,2)] .
  show ?thesis
  proof (cases "map_find (userList s) u")
    case None
    then have "login_attempt env ?res a ?s1 = (Inl (Undefined Deref_end), ?s1)"
      using assms(3) by (simp add: login_attempt_def bnd_app)
    then show ?thesis using run1 None by (simp add: try_catch_def)
  next
    case (Some ud)
    show ?thesis
    proof (cases "password ud = p")
      case True
      obtain tr c where "login_attempt env ?res a ?s1
          = (Inr (), ?s1\<lparr>trace := tr, conn_heap := (conn_heap ?s1)[a := c]\<rparr>)"
        and "login_flag_m c" and "username c = u" and "connectionID_m c = connectionID_m (conn_heap ?s1 ! a)"
        and "connection_socket_m c = connection_socket_m (conn_heap ?s1 ! a)"
        by (rule login_attempt_success [of a ?s1 u ud p env "''1234''" "[]"]) (use assms(4) Some True in simp_all)
      then show ?thesis using run1 Some True assms(4) by (auto simp: try_catch_def getloginstatus_def)
    next
      case False
      then have "login_attempt env ?res a ?s1 = (Inr (), ?s1)"
        using assms(3) Some by (simp add: login_attempt_def bnd_app)
      then show ?thesis using run1 Some False by (auto simp: try_catch_def)
    qed
  qed
qed


lemma register_run:
  assumes fields: "\<forall>w \<in> {u, p, b, v}. field_ok (CHR ''|'') w"
    and nums: "stod b = Inr bal" "stod v = Inr bv"
  obtains ok tr where "loginMsgHandle env (join (CHR ''|'') [''1238'', u, p, b, v]) a s = (Inr (),
      s\<lparr>trace := tr, userList := (if ok then
        map_insert u \<lparr>userID = u, password = p, balance = bal, book_value = bv\<rparr> (userList s)
        else userList s)\<rparr>)"
    and "visible tr = visible (trace s) @
      [Query (c_str (addTrader_query \<lparr>userID = u, password = p, balance = bal, book_value = bv\<rparr>))]"
    and "ok \<longleftrightarrow> query_rc env (trace s @ [Log ''SR'' DEBUG ''(Server) Add new user'',
        Query (c_str (addTrader_query \<lparr>userID = u, password = p, balance = bal, book_value = bv\<rparr>))])
      (c_str (addTrader_query \<lparr>userID = u, password = p, balance = bal, book_value = bv\<rparr>)) = 0"
proof -
  let ?ud = "\<lparr>userID = u, password = p, balance = bal, book_value = bv\<rparr>"
  let ?m = "join (CHR ''|'') [''1238'', u, p, b, v]"
  let ?s1 = "s\<lparr>trace := trace s @ [Log ''SR'' DEBUG ''(Server) Add new user'']\<rparr>"
  let ?q = "c_str (addTrader_query ?ud)"
  let ?ok = "query_rc env (trace ?s1 @ [Query ?q]) ?q = 0"
  have sp: "split ?m ''|'' = [''1238'', u, p, b, v]"
    using split_join [of "[''1238'', u, p, b, v]" "CHR ''|''"] fields field_ok_digits
    by (simp del: split_join add: NUL_def)
  have code: "take 4 ?m = ''1238''" by simp
  obtain lg where add: "addTrader env ?ud ?s1 = (Inr ?ok, ?s1\<lparr>trace := trace ?s1 @ [Query ?q, lg]\<rparr>)"
    and "is_log lg"
    unfolding addTrader_def by (rule run_statement_result)
  then obtain ty lvl doc where lg: "lg = Log ty lvl doc" by (cases lg) auto
  have "register_user env ?m s = (Inr (), s\<lparr>trace := trace ?s1 @ [Query ?q, lg],
      userList := (if ?ok then map_insert u ?ud (userList s) else userList s)\<rparr>)"
    unfolding register_user_def sp using add nums by (simp add: seq_def bnd_app Let_def)
  then have "loginMsgHandle env ?m a s = (Inr (), s\<lparr>trace := trace ?s1 @ [Query ?q, lg],
      userList := (if ?ok then map_insert u ?ud (userList s) else userList s)\<rparr>)"
    unfolding loginMsgHandle_def code by (simp add: try_catch_def)
  then show thesis by (rule that) (simp_all add: lg)
qed

text \<open>
  C14. A client that registers a new name and then sends it with its password is logged in,
  if and only if the database accepted the row.
\<close>

theorem registered_user_logs_in:
  assumes "\<forall>w \<in> {u, p, b, v}. field_ok (CHR ''|'') w" and "stod b = Inr bal" and "stod v = Inr bv"
    and "ordered (userList s)" and "map_find (userList s) u = None" and "userList s \<noteq> []"
    and "a < length (conn_heap s)" and "\<not> getloginstatus (conn_heap s ! a)"
    and reg: "loginMsgHandle env (join (CHR ''|'') [''1238'', u, p, b, v]) a s = (r1, s1)"
    and log: "loginMsgHandle env (join (CHR ''|'') [''1234'', u, p]) a s1 = (r2, s2)"
  shows "r1 = Inr () \<and> (if query_rc env (trace s @ [Log ''SR'' DEBUG ''(Server) Add new user'',
        Query (c_str (addTrader_query \<lparr>userID = u, password = p, balance = bal, book_value = bv\<rparr>))])
      (c_str (addTrader_query \<lparr>userID = u, password = p, balance = bal, book_value = bv\<rparr>)) = 0
    then r2 = Inr () \<and> getloginstatus (conn_heap s2 ! a) \<and> username (conn_heap s2 ! a) = u
    else r2 = Inl (Undefined Deref_end))"
proof -
  let ?ud = "\<lparr>userID = u, password = p, balance = bal, book_value = bv\<rparr>"
  obtain ok tr where run: "loginMsgHandle env (join (CHR ''|'') [''1238'', u, p, b, v]) a s = (Inr (),
      s\<lparr>trace := tr, userList := (if ok then map_insert u ?ud (userList s) else userList s)\<rparr>)"
    and "visible tr = visible (trace s) @ [Query (c_str (addTrader_query ?ud))]"
    and ok: "ok \<longleftrightarrow> query_rc env (trace s @ [Log ''SR'' DEBUG ''(Server) Add new user'',
        Query (c_str (addTrader_query ?ud))]) (c_str (addTrader_query ?ud)) = 0"
    by (rule register_run [OF assms(1-3)])
  then have s1: "r1 = Inr ()" "s1 = s\<lparr>trace := tr,
      userList := (if ok then map_insert u ?ud (userList s) else userList s)\<rparr>"
    using reg by auto
  have find: "map_find (userList s1) u = (if ok then Some ?ud else None)"
    using smap.find_insert_new [OF assms(4), of u ?ud] assms(5) by (simp add: s1)
  have "map_insert u ?ud (userList s) \<noteq> []" by (cases "userList s") (auto split: if_splits)
  then have "userList s1 \<noteq> []" and "a < length (conn_heap s1)" using assms(6,7) by (simp_all add: s1)
  from login_facts [OF _ _ this log] show ?thesis using assms(1) ok find s1 by auto
qed

subsection \<open>An example\<close>

text \<open>An environment in which every call succeeds, and a server with one user and one client.\<close>

definition quiet_env :: env where
  "quiet_env = \<lparr>send_rc = (\<lambda>_ _ _. 1024), beyond_string = (\<lambda>_ _. NUL), query_rc = (\<lambda>_ _. 0),
     query_error = (\<lambda>_. []), query_rows = (\<lambda>_. Some []), connect_ok = (\<lambda>_. True), socket_fd = (\<lambda>_. 3),
     syscall_ok = (\<lambda>_ _. True), rand_int = (\<lambda>_. 7), junk_bool = (\<lambda>_. False), junk_int = (\<lambda>_. 0),
     read_file = (\<lambda>_. None)\<rparr>"

definition small_server :: server where
  "small_server = \<lparr>trace = [], connStatus_m = True, mode_m = False, initFilePath = [], initchosen = [],
     connStorage_m = [(7, Some 0)], conn_heap = [Connection 4 7 False],
     userList = [(''0324027'', \<lparr>userID = ''0324027'', password = ''123'', balance = literal 100000,
                                book_value = literal 0\<rparr>)],
     quotesList = [(''KKC'', Some \<lparr>stockNum = 0, priceNow = literal 60, priceMax = literal 60, priceMin = literal 60\<rparr>)],
     dq = DataQueue 100, dq_orderhandle = DataQueue 100,
     sr_db = \<lparr>conn = True, connstatus = True, sql_dq = DataQueue 100\<rparr>\<rparr>"


lemma stod_five: "stod ''5'' = Inr (Fin False 5)"
  by (rule stod_int [where n = 5, simplified])
     (simp_all add: digit_text_def isdigit_def base_val_def xdigit_val_def)

theorem registered_user_logs_in_witness:
  "let s1 = snd (loginMsgHandle quiet_env (join (CHR ''|'') [''1238'', ''me'', ''pw'', ''5'', ''5'']) 0 small_server);
       s2 = snd (loginMsgHandle quiet_env (join (CHR ''|'') [''1234'', ''me'', ''pw'']) 0 s1)
   in getloginstatus (conn_heap s2 ! 0) \<and> username (conn_heap s2 ! 0) = ''me''"
proof -
  have rc: "query_rc quiet_env t q = 0" for t q by (simp add: quiet_env_def)
  have fields: "\<forall>w \<in> {''me'', ''pw'', ''5'', ''5''}. field_ok (CHR ''|'') w"
    by (simp add: field_ok_def NUL_def)
  have state: "ordered (userList small_server)" "map_find (userList small_server) ''me'' = None"
    "userList small_server \<noteq> []" "0 < length (conn_heap small_server)"
    "\<not> getloginstatus (conn_heap small_server ! 0)"
    by (simp_all add: small_server_def Connection_def getloginstatus_def)
  from registered_user_logs_in [OF fields stod_five stod_five state prod.collapse [symmetric] prod.collapse [symmetric]]
  show ?thesis unfolding Let_def by (simp only: rc if_True refl simp_thms)
qed

subsection \<open>What a message code does\<close>

text \<open>A message as the server tags it with the number of its connection.\<close>

definition tagged :: "string list \<Rightarrow> int \<Rightarrow> string" where
  "tagged ws k = join (CHR ''|'') ws @ ''|'' @ to_string k @ ''|''"

lemma field_ok_to_string: "0 \<le> k \<Longrightarrow> field_ok (CHR ''|'') (to_string k)"
  using show_nonneg_digits [of k]
  by (auto simp: field_ok_def to_string_def digit_text_def isdigit_def NUL_def)

lemma split_tagged:
  assumes "\<forall>w \<in> set ws. field_ok (CHR ''|'') w" and "0 \<le> k"
  shows "split (tagged ws k) ''|'' = ws @ [to_string k]"
proof -
  have k: "field_ok (CHR ''|'') (to_string k)" using assms(2) by (rule field_ok_to_string)
  have "strtok_all ''|'' (''|'' @ to_string k @ ''|'') = strtok_all ''|'' (to_string k @ ''|'')"
    by (simp add: strtok_all_skip)
  also have "\<dots> = [to_string k]"
    using strtok_all_join [of "[to_string k]" "CHR ''|''" "[]"] k by (simp add: field_ok_def)
  finally show ?thesis
    using split_join_append [OF assms(1), of "''|'' @ to_string k @ ''|''"] k
    by (simp add: tagged_def field_ok_def NUL_def)
qed

lemma tagged_code:
  assumes "digit_text c"
  shows "upto_find ''|'' (tagged (c # ws) k) = c" and "take 2 (tagged (c # ws) k) \<noteq> ''<3''"
proof -
  have digits: "\<forall>x \<in> set c. isdigit x" and "c \<noteq> []" using assms by (auto simp: digit_text_def)
  then obtain x y where c: "c = x # y" and "isdigit x" by (cases c) auto
  then have "CHR ''|'' \<notin> set c" using digits by (auto simp: isdigit_def)
  then show "upto_find ''|'' (tagged (c # ws) k) = c" by (simp add: tagged_def)
  show "take 2 (tagged (c # ws) k) \<noteq> ''<3''"
    using c \<open>isdigit x\<close> by (auto simp: tagged_def isdigit_def)
qed

lemma stoi_code: "digit_text c \<Longrightarrow> base_val 10 c = n \<Longrightarrow> 0 \<le> n \<Longrightarrow> n < 2 ^ 31 \<Longrightarrow> stoi c = Inr n"
  using stoi_digits [of c "[]"] by simp

text \<open>The handler on a tagged message, with its code looked up.\<close>

lemma msgHandler_tagged:
  assumes "digit_text c" and "base_val 10 c = n" and "0 \<le> n" and "n < 2 ^ 31"
  shows "msgHandler env (tagged (c # ws) k) =
    try_catch
      (if n = 87 then
         seq (sr_log DEBUG (''(Server) '' @ utf8_order_received))
             (zoom dq (\<lambda>q s. s\<lparr>dq := q\<rparr>) (pushDTA (tagged (c # ws) k)))
       else if n = 88 \<or> n = 89 then
         seq (sr_log DEBUG (''(Server) '' @ utf8_change_received))
        (seq (zoom dq_orderhandle (\<lambda>q s. s\<lparr>dq_orderhandle := q\<rparr>) (pushDTA (tagged (c # ws) k)))
             (quote_reply env (tagged (c # ws) k)))
       else if n = 1233 then quote_reply env (tagged (c # ws) k)
       else ret ())
      (\<lambda>_. sr_log DEBUG ''(Server) Handle Msg error '')"
  using assms tagged_code [OF assms(1), of ws k]
  by (simp add: msgHandler_def stoi_code) (simp add: ret_def)

text \<open>
  An order message is appended, unchanged, to the queue of the order thread, and a
  message with a code the server does not know does nothing.
\<close>

theorem order_message_queued:
  assumes "digit_text c" and "base_val 10 c = n" and "0 \<le> n" and "n < 2 ^ 31"
  shows "(n = 87 \<longrightarrow> msgHandler env (tagged (c # ws) k) s =
      (Inr (), s\<lparr>trace := trace s @ [Log ''SR'' DEBUG (''(Server) '' @ utf8_order_received)],
                 dq := snd (pushDTA (tagged (c # ws) k) (dq s))\<rparr>)
      \<and> dataQueue_m (snd (pushDTA (tagged (c # ws) k) (dq s))) = dataQueue_m (dq s) @ [tagged (c # ws) k])
    \<and> (n \<notin> {87, 88, 89, 1233} \<longrightarrow> msgHandler env (tagged (c # ws) k) s = (Inr (), s))"
  using assms dq.waiting_enq [of "tagged (c # ws) k" "dq s"]
  by (simp add: msgHandler_tagged try_catch_def seq_def bnd_app zoom_def push_app)

lemma code_texts:
  "digit_text ''87''" "base_val 10 ''87'' = 87" "digit_text ''88''" "base_val 10 ''88'' = 88"
  "digit_text ''1233''" "base_val 10 ''1233'' = 1233"
  by (simp_all add: digit_text_def isdigit_def base_val_def xdigit_val_def)

theorem order_message_queued_witness:
  "msgHandler quiet_env (tagged [''87'', ''313542'', ''60''] 7) small_server =
    (Inr (), small_server\<lparr>trace := trace small_server @ [Log ''SR'' DEBUG (''(Server) '' @ utf8_order_received)],
                          dq := snd (pushDTA (tagged [''87'', ''313542'', ''60''] 7) (dq small_server))\<rparr>)"
  using order_message_queued [of "''87''" 87 quiet_env "[''313542'', ''60'']" 7 small_server] code_texts by simp

subsubsection \<open>Price queries\<close>

lemma deref_quote_app [run_simps]:
  "map_find (quotesList s) q = Some (Some st) \<Longrightarrow> deref_quote q s = (Inr st, s)"
  by (simp add: deref_quote_def map_subscript_def bnd_app seq_def)

lemma deref_quote_unknown [run_simps]:
  "map_find (quotesList s) q = None \<or> map_find (quotesList s) q = Some None \<Longrightarrow>
     \<exists>m. deref_quote q s = (Inl (Undefined Null_deref), s\<lparr>quotesList := m\<rparr>)"
  by (auto simp: deref_quote_def map_subscript_def bnd_app seq_def
      intro: exI [of _ "quotesList s"] exI [of _ "map_insert q None (quotesList s)"])

lemma quote_reply_run:
  assumes "split msg ''|'' = t0 # q # t2 # rest" and "stoi t2 = Inr n"
    and "map_find (quotesList s) q = Some (Some st)"
    and "map_find (connStorage_m s) n = Some (Some a)" and "a < length (conn_heap s)"
  obtains s' where "quote_reply env msg s = (Inr (), s')"
    and "answered env s a (''1233|'' @ to_string_double (priceNow st) @ ''|&'' @ nl) s'"
proof -
  let ?s1 = "s\<lparr>trace := trace s @ [Log ''SR'' DEBUG ''(Server) recv price asking'']\<rparr>"
  let ?t = "''1233|'' @ to_string_double (priceNow st) @ ''|&''"
  obtain s' where s': "sendToClient env n ?t ?s1 = (Inr (), s')" and ans: "answered env ?s1 a (?t @ nl) s'"
    by (rule sendToClient_answered [of ?s1 n a env ?t]) (use assms in simp_all)
  have "quote_reply env msg s = (Inr (), s')"
    using assms s' by (simp add: quote_reply_def try_catch_def seq_def bnd_app deref_quote_app Let_def)
  then show thesis by (rule that) (use answered_logged [OF ans] in simp)
qed

text \<open>
  C24. A price query is answered with the current price of its symbol, to the connection
  whose number stands in the third field: the number the server appends if the client
  sends two fields, and one of the client's choice if it sends three.
\<close>

theorem price_query_answered:
  assumes "field_ok (CHR ''|'') q" and "map_find (quotesList s) q = Some (Some st)"
    and "0 \<le> k" and "0 \<le> j" and "j < 2 ^ 31" and "ws = [''1233'', q] \<and> j = k \<or> ws = [''1233'', q, to_string j]"
    and "map_find (connStorage_m s) j = Some (Some a)" and "a < length (conn_heap s)"
  shows "\<exists>s'. msgHandler env (tagged ws k) s = (Inr (), s')
    \<and> answered env s a (''1233|'' @ to_string_double (priceNow st) @ ''|&'' @ nl) s'"
proof -
  have fields: "field_ok (CHR ''|'') ''1233''" "field_ok (CHR ''|'') (to_string j)"
    using field_ok_to_string [OF assms(4)] by (simp_all add: field_ok_def NUL_def)
  obtain ws' where ws: "ws = ''1233'' # ws'" using assms(6) by auto
  have "\<forall>w \<in> set ws. field_ok (CHR ''|'') w" using assms(1,6) fields by auto
  then have "split (tagged ws k) ''|'' = ws @ [to_string k]" using assms(3) by (rule split_tagged)
  then obtain rest where sp: "split (tagged ws k) ''|'' = ''1233'' # q # to_string j # rest"
    using assms(6) by auto
  obtain s' where run: "quote_reply env (tagged ws k) s = (Inr (), s')"
    and ans: "answered env s a (''1233|'' @ to_string_double (priceNow st) @ ''|&'' @ nl) s'"
    by (rule quote_reply_run [OF sp stoi_to_string [OF assms(4,5)] assms(2,7,8)])
  have "msgHandler env (tagged ws k) s = quote_reply env (tagged ws k) s"
    unfolding ws using code_texts run [unfolded ws] by (subst msgHandler_tagged [of _ 1233]) (simp_all add: try_catch_def)
  then show ?thesis using run ans by auto
qed

lemma small_server_simps:
  "map_find (connStorage_m small_server) 7 = Some (Some 0)" "length (conn_heap small_server) = 1"
  "map_find (quotesList small_server) ''KKC'' = Some (Some \<lparr>stockNum = 0, priceNow = literal 60,
     priceMax = literal 60, priceMin = literal 60\<rparr>)"
  "map_find (userList small_server) ''0324027'' = Some \<lparr>userID = ''0324027'', password = ''123'',
     balance = literal 100000, book_value = literal 0\<rparr>"
  by (simp_all add: small_server_def)

theorem price_query_answered_witness:
  "fst (msgHandler quiet_env (tagged [''1233'', ''KKC''] 7) small_server) = Inr ()"
  using price_query_answered [of "''KKC''" small_server _ 7 7 "[''1233'', ''KKC'']" 0 quiet_env]
  by (simp add: small_server_simps field_ok_def NUL_def) auto

subsubsection \<open>Changes to orders\<close>

text \<open>
  C17. After queueing a message to cancel or change an order, the handler falls through to
  the price query and takes the order number for a symbol. With a numeric price and a
  number that is no symbol it dereferences a null pointer, which no handler catches.
\<close>

theorem change_message_crashes:
  assumes "c = ''88'' \<or> c = ''89''" and "\<forall>w \<in> set (c # n # p # ws). field_ok (CHR ''|'') w"
    and "stoi p = Inr i" and "map_find (quotesList s) n = None" and "0 \<le> k"
  shows "\<exists>s'. msgHandler env (tagged (c # n # p # ws) k) s = (Inl (Undefined Null_deref), s')
    \<and> dataQueue_m (dq_orderhandle s') = dataQueue_m (dq_orderhandle s) @ [tagged (c # n # p # ws) k]"
proof -
  let ?m = "tagged (c # n # p # ws) k"
  have sp: "split ?m ''|'' = (c # n # p # ws) @ [to_string k]" by (rule split_tagged [OF assms(2,5)])
  define s1 where "s1 = s\<lparr>trace := trace s @ [Log ''SR'' DEBUG (''(Server) '' @ utf8_change_received)],
     dq_orderhandle := snd (pushDTA ?m (dq_orderhandle s))\<rparr>"
  let ?s2 = "s1\<lparr>trace := trace s1 @ [Log ''SR'' DEBUG ''(Server) recv price asking'']\<rparr>"
  have "map_find (quotesList ?s2) n = None" using assms(4) by (simp add: s1_def)
  then obtain m where m: "deref_quote n ?s2 = (Inl (Undefined Null_deref), ?s2\<lparr>quotesList := m\<rparr>)"
    using deref_quote_unknown by blast
  have q: "quote_reply env ?m s1 = (Inl (Undefined Null_deref), ?s2\<lparr>quotesList := m\<rparr>)"
    using m assms(3) by (simp add: quote_reply_def sp try_catch_def seq_def bnd_app)
  have code: "digit_text c \<and> (base_val 10 c = 88 \<or> base_val 10 c = 89)"
    using assms(1) by (auto simp: digit_text_def isdigit_def base_val_def xdigit_val_def)
  have "msgHandler env ?m s = (Inl (Undefined Null_deref), ?s2\<lparr>quotesList := m\<rparr>)"
    using code q
    by (auto simp: msgHandler_tagged [OF _ refl] try_catch_def seq_def bnd_app zoom_def push_app s1_def)
  moreover have "dataQueue_m (dq_orderhandle (?s2\<lparr>quotesList := m\<rparr>)) = dataQueue_m (dq_orderhandle s) @ [?m]"
    using dq.waiting_enq [of ?m "dq_orderhandle s"] by (simp add: s1_def)
  ultimately show ?thesis by blast
qed

theorem change_message_crashes_witness:
  "fst (msgHandler quiet_env (tagged [''88'', ''313542'', ''60'', ''1'', ''1'', ''1'', ''KKC''] 7) small_server)
    = Inl (Undefined Null_deref)"
proof -
  have "stoi ''60'' = Inr 60"
    by (rule stoi_code) (simp_all add: digit_text_def isdigit_def base_val_def xdigit_val_def)
  then show ?thesis
    using change_message_crashes [of "''88''" "''313542''" "''60''" "[''1'', ''1'', ''1'', ''KKC'']" 60
        small_server 7 quiet_env]
    by (auto simp: field_ok_def NUL_def small_server_def)
qed

subsection \<open>Connections come and go\<close>

definition conn_ok :: "'a server_scheme \<Rightarrow> bool \<Rightarrow> int \<times> nat option \<Rightarrow> bool" where
  "conn_ok s live e \<longleftrightarrow> (case snd e of None \<Rightarrow> False
     | Some a \<Rightarrow> a < length (conn_heap s) \<and> recvStatus_m (conn_heap s ! a) = live)"

lemma conn_ok_heap: "conn_heap s' = conn_heap s \<Longrightarrow> conn_ok s' live e = conn_ok s live e"
  by (cases "snd e") (simp_all add: conn_ok_def)

lemma conn_okE:
  assumes "conn_ok s live e"
  obtains k a where "e = (k, Some a)" and "a < length (conn_heap s)" and "recvStatus_m (conn_heap s ! a) = live"
  using assms by (cases e) (auto simp: conn_ok_def split: option.splits)

lemma free_from_live:
  "\<forall>e \<in> set es. conn_ok s True e \<Longrightarrow> free_from (es @ rest) s = free_from rest s"
proof (induction es)
  case (Cons e es)
  then obtain k a where "e = (k, Some a)" and "a < length (conn_heap s)" and "recvStatus_m (conn_heap s ! a)"
    by (auto elim: conn_okE)
  then show ?case using Cons by (simp add: bnd_app deref_conn_app getRecvStatus_def)
qed simp

lemma free_from_dead:
  assumes "conn_ok s False (k, p)"
  shows "free_from ((k, p) # rest) s =
    (let s1 = s\<lparr>trace := trace s @ [Log ''SR'' DEBUG (''(Server): free empty socket '' @ to_string k)],
                connStorage_m := map_erase k (connStorage_m s)\<rparr>
     in case rest of [] \<Rightarrow> (Inl (Undefined Deref_end), s1) | _ # rest' \<Rightarrow> free_from rest' s1)"
proof -
  obtain a where "p = Some a" and "a < length (conn_heap s)" and "\<not> recvStatus_m (conn_heap s ! a)"
    using assms by (auto elim!: conn_okE)
  then show ?thesis by (simp add: bnd_app seq_def deref_conn_app getRecvStatus_def Let_def split: list.split)
qed

lemma map_erase_ordered:
  "ordered (pre @ (k, v) # post) \<Longrightarrow> map_erase k (pre @ (k, v) # post) = pre @ post"
proof (induction pre)
  case Nil
  then have "\<forall>e \<in> set post. k < fst e" by auto
  then have "\<forall>e \<in> set post. fst e \<noteq> k" by fastforce
  then show ?case by (simp add: map_erase_def)
next
  case (Cons e pre)
  then have "fst e < k" by (cases e) auto
  with Cons show ?case by (cases e) (auto simp: map_erase_def)
qed

text \<open>
  When the first dead connection in the order of the numbers is the last entry, freeing
  it advances the iterator past the end. Otherwise it is removed, and the entry behind it
  is passed over, dead or alive: with only live entries after that one, it stays.
\<close>

theorem freeEmptysocket_first_dead:
  assumes "connStorage_m s = pre @ (k, p) # rest" and "ordered (connStorage_m s)"
    and "\<forall>e \<in> set pre. conn_ok s True e" and "conn_ok s False (k, p)"
    and "\<forall>e \<in> set (tl rest). conn_ok s True e"
    and run: "freeEmptysocket s = (r, s')"
  shows "(if rest = [] then r = Inl (Undefined Deref_end) else r = Inr ()) \<and> connStorage_m s' = pre @ rest"
proof -
  have erase: "map_erase k (connStorage_m s) = pre @ rest"
    using assms(1,2) by (simp add: map_erase_ordered)
  let ?s1 = "s\<lparr>trace := trace s @ [Log ''SR'' DEBUG (''(Server): free empty socket '' @ to_string k)],
                connStorage_m := pre @ rest\<rparr>"
  have "freeEmptysocket s = free_from ((k, p) # rest) s"
    using free_from_live [OF assms(3), of "(k, p) # rest"] by (simp add: freeEmptysocket_def bnd_app assms(1))
  also have "\<dots> = (case rest of [] \<Rightarrow> (Inl (Undefined Deref_end), ?s1) | _ # rest' \<Rightarrow> free_from rest' ?s1)"
    by (simp only: free_from_dead [OF assms(4)] erase Let_def)
  finally have *: "(r, s') = (case rest of [] \<Rightarrow> (Inl (Undefined Deref_end), ?s1) | _ # rest' \<Rightarrow> free_from rest' ?s1)"
    using run by simp
  have "\<forall>e \<in> set (tl rest). conn_ok ?s1 True e" using assms(5) conn_ok_heap [of ?s1 s True] by simp
  then have "rest \<noteq> [] \<Longrightarrow> free_from (tl rest) ?s1 = (Inr (), ?s1)"
    using free_from_live [of "tl rest" ?s1 "[]"] by simp
  then show ?thesis using * by (cases rest) simp_all
qed

definition three_connections :: server where
  "three_connections = small_server\<lparr>
     connStorage_m := [(1, Some 0), (2, Some 1), (3, Some 2)],
     conn_heap := [Connection 4 1 False, setRecvStatus False (Connection 5 2 False),
                   setRecvStatus False (Connection 6 3 False)]\<rparr>"

theorem freeEmptysocket_first_dead_witness:
  "fst (freeEmptysocket three_connections) = Inr ()
    \<and> connStorage_m (snd (freeEmptysocket three_connections)) = [(1, Some 0), (3, Some 2)]"
  using freeEmptysocket_first_dead [of three_connections "[(1, Some 0)]" 2 "Some 1" "[(3, Some 2)]",
      OF _ _ _ _ _ prod.collapse [symmetric]]
  by (simp add: three_connections_def small_server_def conn_ok_def Connection_def setRecvStatus_def)

text \<open>
  A new connection gets a number from 0 to 98. If the number is in use, the map keeps
  the connection it had, so the new connection carries a number under which answers go
  to the other one.
\<close>

theorem accepted_connection_number:
  assumes "connfd \<noteq> -1" and "ordered (connStorage_m s)"
    and run: "acceptConn_turn env connfd s = (r, s')"
  shows "\<exists>k. 0 \<le> k \<and> k < 99 \<and> r = Inr (Some (length (conn_heap s)))
    \<and> conn_heap s' = conn_heap s @ [Connection connfd k (junk_bool env (trace s))]
    \<and> map_find (connStorage_m s') k =
        (case map_find (connStorage_m s) k of None \<Rightarrow> Some (Some (length (conn_heap s))) | Some p \<Rightarrow> Some p)
    \<and> (\<forall>j. j \<noteq> k \<longrightarrow> map_find (connStorage_m s') j = map_find (connStorage_m s) j)"
proof (intro exI [of _ "rand env (trace s) mod 99"] conjI)
  let ?k = "rand env (trace s) mod 99"
  show "0 \<le> ?k" and "?k < 99" by simp_all
  have "(r, s') = (Inr (Some (length (conn_heap s))),
     s\<lparr>connStatus_m := True, conn_heap := conn_heap s @ [Connection connfd ?k (junk_bool env (trace s))],
       connStorage_m := map_insert ?k (Some (length (conn_heap s))) (connStorage_m s),
       trace := trace s @ [Log ''SR'' DEBUG (''get socket connection: '' @ to_string ?k)]\<rparr>)"
    using run assms(1) by (simp add: acceptConn_turn_def seq_def bnd_app setconnStatus_def)
  then show "r = Inr (Some (length (conn_heap s)))"
    and "conn_heap s' = conn_heap s @ [Connection connfd ?k (junk_bool env (trace s))]"
    and "map_find (connStorage_m s') ?k =
        (case map_find (connStorage_m s) ?k of None \<Rightarrow> Some (Some (length (conn_heap s))) | Some p \<Rightarrow> Some p)"
    and "\<forall>j. j \<noteq> ?k \<longrightarrow> map_find (connStorage_m s') j = map_find (connStorage_m s) j"
    using smap.find_insert_new [OF assms(2), of ?k "Some (length (conn_heap s))"]
    by (auto split: option.splits)
qed

theorem accepted_connection_number_witness:
  "\<exists>k. 0 \<le> k \<and> k < 99 \<and> conn_heap (snd (acceptConn_turn quiet_env 9 small_server))
     = conn_heap small_server @ [Connection 9 k False]"
  using accepted_connection_number [of 9 small_server quiet_env, OF _ _ prod.collapse [symmetric]]
  by (auto simp: small_server_def quiet_env_def)

subsection \<open>Quotes\<close>

lemma put_quote_app [run_simps]: "put_quote k st s = (Inr (), s\<lparr>quotesList := map_put k (Some st) (quotesList s)\<rparr>)"
  by (simp add: put_quote_def)

text \<open>The quote after a trade at price \<open>p\<close>.\<close>

definition traded :: "double \<Rightarrow> stock \<Rightarrow> stock" where
  "traded p st = (if p < priceMin st then st\<lparr>priceNow := p, priceMin := p\<rparr>
     else if priceMax st < p then st\<lparr>priceNow := p, priceMax := p\<rparr>
     else st\<lparr>priceNow := p\<rparr>)"

lemma map_put_twice: "ordered m \<Longrightarrow> map_put k v (map_put k w m) = map_put k v m"
  by (induction m) auto

lemma quoteUpdate_app [run_simps]:
  assumes "map_find (quotesList s) q = Some (Some st)" and "ordered (quotesList s)"
  shows "quoteUpdate q p s = (Inr (), s\<lparr>quotesList := map_put q (Some (traded p st)) (quotesList s)\<rparr>)"
proof -
  let ?s1 = "s\<lparr>quotesList := map_put q (Some (st\<lparr>priceNow := p\<rparr>)) (quotesList s)\<rparr>"
  have "map_find (quotesList ?s1) q = Some (Some (st\<lparr>priceNow := p\<rparr>))"
    using smap.find_assign [OF assms(2)] by simp
  then show ?thesis
    using assms by (simp add: quoteUpdate_def try_catch_def seq_def bnd_app deref_quote_app put_quote_app
        traded_def map_put_twice)
qed

definition quote_ok :: "stock \<Rightarrow> bool" where
  "quote_ok st \<longleftrightarrow> priceMin st \<le> priceNow st \<and> priceNow st \<le> priceMax st"

lemma quote_ok_traded: "quote_ok st \<Longrightarrow> \<not> is_nan p \<Longrightarrow> quote_ok (traded p st)"
  unfolding quote_ok_def traded_def
  by (auto simp: double_not_less less_imp_not_nan intro: double_order_simps dest: less_imp_not_nan)

end
