(* ===== verification/Trader_Facts.thy ===== *)
theory Trader_Facts
  imports Trader_Model Server_Facts
begin

section \<open>What the trader does with orders\<close>

text \<open>
  Lemmas on the operations of \<open>Orders\<close> and \<open>Trader_Model\<close> and the properties that rest on
  them: risk control, serial numbers, the intake of orders, cancelling, changing,
  matching and reporting.
\<close>

subsection \<open>Taking in an order\<close>

lemma put_order_app [run_simps]: "put_order a ord s = (Inr (), s\<lparr>order_heap := (order_heap s)(a \<mapsto> ord)\<rparr>)"
  by (simp add: put_order_def)

lemma deref_order_app [run_simps]:
  "order_heap s a = Some ord \<Longrightarrow> deref_order a s = (Inr ord, s)"
  "order_heap s a = None \<Longrightarrow> deref_order a s = (Inl (Undefined Dangling), s)"
  by (simp_all add: deref_order_def bnd_app)

lemma generateNid_app [run_simps]:
  "nid_sub2 s \<noteq> 0x7FFFFFFF \<Longrightarrow>
   generateNid s = (Inr (sint (nid_key (nid_sub1 s) (nid_sub2 s))), s\<lparr>nid_sub2 := nid_sub2 s + 1\<rparr>)"
  by (simp add: generateNid_def next_nid_def bnd_app seq_def)

text \<open>An order enters the book of its side, and the mutex is free afterwards.\<close>

definition booked :: "nat \<Rightarrow> order \<Rightarrow> 'a trader_scheme \<Rightarrow> 'a trader_scheme" where
  "booked a ord s =
     (if getside ord = BUY then s\<lparr>rawBuyside_m := insort a (rawBuyside_m s), cv_m := False\<rparr>
      else s\<lparr>rawSellside_m := insort a (rawSellside_m s), cv_m := False\<rparr>)"

lemma orderDataInsert_app [run_simps]:
  "order_heap s a = Some ord \<Longrightarrow> orderDataInsert a s = (Inr (),
     (booked a ord s)\<lparr>trace := trace s @ [Log ''TD'' DEBUG (if getside ord = BUY
        then ''(Trader) Get Buyside Order'' else ''(Trader) Get SellSide Order'')]\<rparr>)"
  by (cases "getside ord = BUY") (auto simp: orderDataInsert_def deref_order_app bnd_app seq_def booked_def)

lemma accept_order_run:
  assumes conn: "map_find (connStorage_m s) (connId ord) = Some (Some ca)" "ca < length (conn_heap s)"
    and serial: "nid_sub2 s \<noteq> 0x7FFFFFFF"
    and ord': "ord' = ord\<lparr>client_serialNum := sint (nid_key (nid_sub1 s) (nid_sub2 s))\<rparr>"
    and q: "q = c_str (insertOrder_query (order_data ord'))"
  obtains ok s1 s' where "accept_order env a ord s = (Inr (), s')"
    and "\<exists>tr. s1 = (booked a ord' s)\<lparr>trace := tr, nid_sub2 := nid_sub2 s + 1,
        order_heap := (order_heap s)(a \<mapsto> ord'), sideFlag := side_of_int (o_side ord)\<rparr>
      \<and> visible tr = visible (trace s) @ [Query q]"
    and "\<exists>tr. visible tr = visible (trace s) @ [Query q] \<and> (ok \<longleftrightarrow> query_rc env tr q = 0)"
    and "answered env s1 ca (nid ord @ (if ok then ''|success'' else ''|failed, repeat nid'') @ nl) s'"
proof -
  let ?a1 = "s\<lparr>nid_sub2 := nid_sub2 s + 1, order_heap := (order_heap s)(a \<mapsto> ord'),
      sideFlag := side_of_int (o_side ord)\<rparr>"
  have "order_heap ?a1 a = Some ord'" by simp
  define doc where "doc = (if getside ord' = BUY
        then ''(Trader) Get Buyside Order'' else ''(Trader) Get SellSide Order'')"
  then have ins: "orderDataInsert a ?a1
      = (Inr (), (booked a ord' ?a1)\<lparr>trace := trace ?a1 @ [Log ''TD'' DEBUG doc]\<rparr>)"
    using orderDataInsert_app [of ?a1 a ord'] by simp
  let ?tr2 = "trace s @ [Log ''TD'' DEBUG doc, Log ''TD'' DEBUG ''(Trader) Input data to db'']"
  let ?a2 = "(booked a ord' ?a1)\<lparr>trace := ?tr2\<rparr>"
  let ?ok = "query_rc env (?tr2 @ [Query q]) q = 0"
  obtain lg where db: "insertOrder env (order_data ord') ?a2 = (Inr ?ok, ?a2\<lparr>trace := ?tr2 @ [Query q, lg]\<rparr>)"
    and "is_log lg"
    unfolding insertOrder_def q
    using run_statement_result [of env "insertOrder_query (order_data ord')"
        "''(MariaDB) [EXCEPTION] Query Failure (OrderReport)''" "''(MariaDB) Insert Order Success''" ?a2] by auto
  then obtain ty lvl d where lg: "lg = Log ty lvl d" by (cases lg) auto
  let ?lg2 = "Log ''SR'' DEBUG (if ?ok then ''(Server) Sent to db success'' else ''(Server) Sent to db failed'')"
  let ?s1 = "?a2\<lparr>trace := ?tr2 @ [Query q, lg, ?lg2]\<rparr>"
  have todb: "insertOrderToDB env (order_data ord') ?a2 = (Inr ?ok, ?s1)"
    using db by (simp add: insertOrderToDB_def bnd_app seq_def)
  let ?msg = "nid ord @ (if ?ok then ''|success'' else ''|failed, repeat nid'')"
  have same: "connStorage_m ?s1 = connStorage_m s" "conn_heap ?s1 = conn_heap s"
    by (simp_all add: booked_def)
  obtain s' where ans: "sendToClient env (connId ord) ?msg ?s1 = (Inr (), s')" "answered env ?s1 ca (?msg @ nl) s'"
    by (rule sendToClient_answered [of ?s1 "connId ord" ca env ?msg]) (simp_all only: same conn)
  have run: "accept_order env a ord s = (Inr (), s')"
  proof -
    have "accept_order env a ord s =
        (if ?ok then sendToClient env (connId ord) (nid ord @ ''|success'') ?s1
         else sendToClient env (connId ord) (nid ord @ ''|failed, repeat nid'') ?s1)"
      using serial ins todb
      by (simp add: accept_order_def bnd_app seq_def generateNid_app put_order_app Let_def flip: ord')
    then show ?thesis using ans(1) by (cases ?ok) simp_all
  qed
  have s1: "\<exists>tr. ?s1 = (booked a ord' s)\<lparr>trace := tr, nid_sub2 := nid_sub2 s + 1,
        order_heap := (order_heap s)(a \<mapsto> ord'), sideFlag := side_of_int (o_side ord)\<rparr>
      \<and> visible tr = visible (trace s) @ [Query q]"
    by (intro exI [of _ "?tr2 @ [Query q, lg, ?lg2]"]) (simp add: lg booked_def)
  have "visible (?tr2 @ [Query q]) = visible (trace s) @ [Query q]" by simp
  then have rc: "\<exists>tr. visible tr = visible (trace s) @ [Query q] \<and> (?ok \<longleftrightarrow> query_rc env tr q = 0)" by blast
  have "answered env ?s1 ca (nid ord @ (if ?ok then ''|success'' else ''|failed, repeat nid'') @ nl) s'"
    using ans(2) by (simp only: append_assoc)
  from run s1 rc this show thesis by (rule that)
qed

text \<open>The band the risk control allows around a reference price.\<close>

definition in_band :: "double \<Rightarrow> double \<Rightarrow> bool" where
  "in_band reference p \<longleftrightarrow> \<not> p > reference * literal (11/10) \<and> \<not> p < reference * literal (9/10)"

lemma verify_app [run_simps]:
  "2 < length basics \<Longrightarrow> stod (basics ! 2) = Inr reference \<Longrightarrow> verify products basics ord s =
     (Inr (setStatus (if in_band reference (orderPrice ord) \<and> symbol ord \<in> set products then VERIFIED else FAILED) ord), s)"
  by (simp add: verify_def bnd_app in_band_def)

text \<open>The order \<open>getOrder\<close> makes of a message with eight fields.\<close>

definition order_from :: "order \<Rightarrow> string \<Rightarrow> double \<Rightarrow> string \<Rightarrow> int \<Rightarrow> string \<Rightarrow> int \<Rightarrow> order" where
  "order_from memory n price sd sdv q k =
     setSituation NORMAL ((setside (if sd = ''1'' then BUY else SELL) (Order memory))
       \<lparr>nid := n, orderPrice := price, o_side := sdv, symbol := q, o_userID := ''0324027'', connId := k\<rparr>)"

lemma order_from_simps [simp]:
  "nid (order_from memory n price sd sdv q k) = n"
  "orderPrice (order_from memory n price sd sdv q k) = price"
  "symbol (order_from memory n price sd sdv q k) = q"
  "connId (order_from memory n price sd sdv q k) = k"
  "o_side (order_from memory n price sd sdv q k) = sdv"
  "getside (order_from memory n price sd sdv q k) = (if sd = ''1'' then BUY else SELL)"
  by (simp_all add: order_from_def setSituation_def setside_def getside_def)

lemma setStatus_simps [simp]:
  "nid (setStatus st ord) = nid ord" "orderPrice (setStatus st ord) = orderPrice ord"
  "symbol (setStatus st ord) = symbol ord" "connId (setStatus st ord) = connId ord"
  "o_side (setStatus st ord) = o_side ord" "getside (setStatus st ord) = getside ord"
  "getStatus (setStatus st ord) = st"
  by (simp_all add: setStatus_def getStatus_def getside_def)

lemma fill_order_run:
  assumes "stod p = Inr price" and "stoi sd = Inr sdv" and "stoi t = Inr k"
  shows "fill_order [c, n, p, sd, x, y, q, t] (Order memory) s = (Inr (order_from memory n price sd sdv q k), s)"
  using assms by (simp add: fill_order_def order_from_def)

definition serial_of :: "'a trader_scheme \<Rightarrow> order \<Rightarrow> order" where
  "serial_of s ord = ord\<lparr>client_serialNum := sint (nid_key (nid_sub1 s) (nid_sub2 s))\<rparr>"

lemma serial_of_simps [simp]: "nid (serial_of s ord) = nid ord" "getside (serial_of s ord) = getside ord"
  "orderPrice (serial_of s ord) = orderPrice ord"
  by (simp_all add: serial_of_def getside_def)

text \<open>
  What one order message does, with the answer, the statements and the books as functions
  of the outcome of the two checks.
\<close>

lemma handle_order_run:
  assumes nums: "stod p = Inr price" "stoi sd = Inr sdv" "stoi t = Inr k"
    and day: "2 < length (tradeBasicData s)" "stod (tradeBasicData s ! 2) = Inr reference"
    and conn: "map_find (connStorage_m s) k = Some (Some ca)" "ca < length (conn_heap s)"
    and user: "map_find (userList s) (username (conn_heap s ! ca)) = Some ud"
    and serial: "nid_sub2 s \<noteq> 0x7FFFFFFF"
    and ord: "ord = setStatus (if safe then VERIFIED else FAILED) (order_from memory n price sd sdv q k)"
    and safe: "safe \<longleftrightarrow> in_band reference price \<and> q \<in> set (productList s)"
    and rich: "rich \<longleftrightarrow> balance ud > price * literal 1000"
    and qu: "qu = c_str (insertOrder_query (order_data (serial_of s ord)))"
  obtains ok s1 s' where "handle_order env a memory [c, n, p, sd, x, y, q, t] s = (Inr (), s')"
    and "answered env s1 ca (n @ (if \<not> safe then ''|failed'' else if \<not> rich then ''|failed, Insufficient balance''
           else if ok then ''|success'' else ''|failed, repeat nid'') @ nl) s'"
    and "\<exists>tr. s1 = (if safe \<and> rich
             then (booked a (serial_of s ord) s)\<lparr>trace := tr, nid_sub2 := nid_sub2 s + 1, od_ptr := Some a,
               order_heap := (order_heap s)(a \<mapsto> serial_of s ord), sideFlag := side_of_int sdv\<rparr>
             else s\<lparr>trace := tr, od_ptr := Some a, order_heap := (order_heap s)(a \<mapsto> ord)\<rparr>)
        \<and> visible tr = visible (trace s) @ (if safe \<and> rich then [Query qu] else [])"
    and "\<exists>tr. visible tr = visible (trace s) @ [Query qu] \<and> (ok \<longleftrightarrow> query_rc env tr qu = 0)"
proof -
  let ?s2 = "s\<lparr>od_ptr := Some a, order_heap := (order_heap s)(a \<mapsto> ord)\<rparr>"
  have start: "handle_order env a memory [c, n, p, sd, x, y, q, t] s =
    (if safe then admit_order env a ord ?s2
     else sendToClient env k (n @ ''|failed'') (?s2\<lparr>trace := trace s @ [Log ''TD'' DEBUG ''(Trader) Send Error report'']\<rparr>))"
    using day
    by (simp add: handle_order_def bnd_app seq_def put_order_app verify_app ord safe fill_order_run [OF nums])
  have rc: "\<exists>ok. \<exists>tr. visible tr = visible (trace s) @ [Query qu] \<and> (ok \<longleftrightarrow> query_rc env tr qu = 0)"
    by (intro exI [of _ "query_rc env (trace s @ [Query qu]) qu = 0"] exI [of _ "trace s @ [Query qu]"]) simp
  have fields: "connId ord = k" "orderPrice ord = price" "nid ord = n" "o_side ord = sdv" by (simp_all add: ord)
  have admit: "admit_order env a ord ?s2 = (if rich then accept_order env a ord ?s2
      else sendToClient env k (n @ ''|failed, Insufficient balance'')
        (?s2\<lparr>trace := trace s @ [Log ''TD'' DEBUG ''(Trader) Insufficient balance'']\<rparr>))"
    using conn user by (simp add: admit_order_def bnd_app seq_def fields getConnObject_app deref_conn_app rich)
  consider (failed) "\<not> safe" | (poor) "safe" "\<not> rich" | (accepted) "safe" "rich" by blast
  then show thesis
  proof cases
    case failed
    let ?s3 = "?s2\<lparr>trace := trace s @ [Log ''TD'' DEBUG ''(Trader) Send Error report'']\<rparr>"
    obtain s' where s': "sendToClient env k (n @ ''|failed'') ?s3 = (Inr (), s')"
      and ans: "answered env ?s3 ca ((n @ ''|failed'') @ nl) s'"
      by (rule sendToClient_answered [of ?s3 k ca env "n @ ''|failed''"]) (simp_all add: conn)
    obtain ok where "\<exists>tr. visible tr = visible (trace s) @ [Query qu] \<and> (ok \<longleftrightarrow> query_rc env tr qu = 0)"
      using rc by blast
    moreover have "handle_order env a memory [c, n, p, sd, x, y, q, t] s = (Inr (), s')"
      using start s' failed by simp
    ultimately show thesis
      using ans failed by (intro that [of s' ?s3 ok]) (auto intro!: exI [of _ "trace ?s3"])
  next
    case poor
    let ?s3 = "?s2\<lparr>trace := trace s @ [Log ''TD'' DEBUG ''(Trader) Insufficient balance'']\<rparr>"
    let ?m = "n @ ''|failed, Insufficient balance''"
    obtain s' where s': "sendToClient env k ?m ?s3 = (Inr (), s')"
      and ans: "answered env ?s3 ca (?m @ nl) s'"
      by (rule sendToClient_answered [of ?s3 k ca env ?m]) (simp_all add: conn)
    obtain ok where "\<exists>tr. visible tr = visible (trace s) @ [Query qu] \<and> (ok \<longleftrightarrow> query_rc env tr qu = 0)"
      using rc by blast
    moreover have "handle_order env a memory [c, n, p, sd, x, y, q, t] s = (Inr (), s')"
      using start admit s' poor by simp
    ultimately show thesis
      using ans poor by (intro that [of s' ?s3 ok]) (auto intro!: exI [of _ "trace ?s3"])
  next
    case accepted
    have prem: "map_find (connStorage_m ?s2) (connId ord) = Some (Some ca)" "ca < length (conn_heap ?s2)"
      "nid_sub2 ?s2 \<noteq> 0x7FFFFFFF" "serial_of s ord = ord\<lparr>client_serialNum := sint (nid_key (nid_sub1 ?s2) (nid_sub2 ?s2))\<rparr>"
      using conn serial by (simp_all add: fields serial_of_def)
    obtain ok s1 s' where run: "accept_order env a ord ?s2 = (Inr (), s')"
      and s1: "\<exists>tr. s1 = (booked a (serial_of s ord) ?s2)\<lparr>trace := tr, nid_sub2 := nid_sub2 ?s2 + 1,
          order_heap := (order_heap ?s2)(a \<mapsto> serial_of s ord), sideFlag := side_of_int (o_side ord)\<rparr>
        \<and> visible tr = visible (trace ?s2) @ [Query qu]"
      and ok: "\<exists>tr. visible tr = visible (trace ?s2) @ [Query qu] \<and> (ok \<longleftrightarrow> query_rc env tr qu = 0)"
      and ans: "answered env s1 ca (nid ord @ (if ok then ''|success'' else ''|failed, repeat nid'') @ nl) s'"
      by (rule accept_order_run [OF prem qu])
    have "handle_order env a memory [c, n, p, sd, x, y, q, t] s = (Inr (), s')"
      using start admit run accepted by simp
    moreover have "\<exists>tr. s1 = (booked a (serial_of s ord) s)\<lparr>trace := tr, nid_sub2 := nid_sub2 s + 1, od_ptr := Some a,
               order_heap := (order_heap s)(a \<mapsto> serial_of s ord), sideFlag := side_of_int sdv\<rparr>
        \<and> visible tr = visible (trace s) @ [Query qu]"
      using s1 by (elim exE) (rule exI, auto simp: booked_def fields)
    ultimately show thesis
      using ans ok accepted by (intro that [of s' s1 ok]) (simp_all add: fields)
  qed
qed

lemma answered_fields:
  assumes "answered env s a str s'"
  shows "trader.rawBuyside_m s' = rawBuyside_m s" and "rawSellside_m s' = rawSellside_m s" and "dq s' = dq s"
    and "order_heap s' = order_heap s" and "od_ptr s' = od_ptr s" and "cv_m s' = cv_m s"
    and "\<exists>pre. visible (trace s') = visible (trace s) @ [Send (connection_socket_m (conn_heap s ! a)) (send_block env pre str)]"
  using assms by (auto simp: answered_def)

lemma booked_fields:
  "rawBuyside_m (booked a ord s) = (if getside ord = BUY then insort a (rawBuyside_m s) else rawBuyside_m s)"
  "rawSellside_m (booked a ord s) = (if getside ord = BUY then rawSellside_m s else insort a (rawSellside_m s))"
  "conn_heap (booked a ord s) = conn_heap s" "dq (booked a ord s) = dq s" "cv_m (booked a ord s) = False"
  by (simp_all add: booked_def)

lemma getOrder_turn_app:
  assumes "traderstatus_m s" and "dataQueue_m (dq s) = msg # waiting"
  obtains s1 where "getOrder_turn env a memory s = seq (handle_order env a memory (split msg ''|'')) (ret True) s1"
    and "s1 = s\<lparr>trace := trace s @ [Log ''TD'' DEBUG ''(Trader) Handle Order Msg''], dq := dq s1\<rparr>"
    and "dataQueue_m (dq s1) = waiting"
proof -
  obtain q where pop: "popDTA (dq s) = (Inr msg, q)" and q: "dataQueue_m q = waiting"
    using pop_Cons [OF assms(2)] by simp
  let ?s1 = "s\<lparr>trace := trace s @ [Log ''TD'' DEBUG ''(Trader) Handle Order Msg''], dq := q\<rparr>"
  have "0 < checkSpace (dq s)" using assms(2) by (simp add: checkSpace_pos)
  moreover have "zoom dq (\<lambda>q s. s\<lparr>dq := q\<rparr>) popDTA (s\<lparr>trace := t\<rparr>) = (Inr msg, s\<lparr>trace := t, dq := q\<rparr>)" for t
    by (simp add: zoom_def pop)
  ultimately have "getOrder_turn env a memory s = seq (handle_order env a memory (split msg ''|'')) (ret True) ?s1"
    using assms(1) by (simp add: getOrder_turn_def getTraderStatus_def bnd_app seq_def)
  then show thesis by (rule that) (simp_all add: q)
qed

lemma getOrder_intake:
  assumes running: "traderstatus_m s"
    and queue: "dataQueue_m (dq s) = tagged [''87'', n, p, sd, x, y, q] k # waiting"
    and fields: "\<forall>w \<in> {n, p, sd, x, y, q}. field_ok (CHR ''|'') w"
    and nums: "stod p = Inr price" "stoi sd = Inr sdv" "0 \<le> k" "k < 2 ^ 31"
    and day: "2 < length (tradeBasicData s)" "stod (tradeBasicData s ! 2) = Inr reference"
    and conn: "map_find (connStorage_m s) k = Some (Some ca)" "ca < length (conn_heap s)"
    and user: "map_find (userList s) (username (conn_heap s ! ca)) = Some ud"
    and serial: "nid_sub2 s \<noteq> 0x7FFFFFFF"
    and safe: "safe \<longleftrightarrow> in_band reference price \<and> q \<in> set (productList s)"
    and rich: "rich \<longleftrightarrow> balance ud > price * literal 1000"
    and qu: "qu = c_str (insertOrder_query \<lparr>od_nid = n, od_volumn = 0, od_orderPrice = price, od_symbol = q,
        od_userID = ''0324027'', od_side = (if sd = ''1'' then 1 else 2),
        od_client_serialnum = sint (nid_key (nid_sub1 s) (nid_sub2 s))\<rparr>)"
    and run: "getOrder_turn env a memory s = (r, s')"
  shows "r = Inr True \<and> dataQueue_m (dq s') = waiting
    \<and> rawBuyside_m s' = (if safe \<and> rich \<and> sd = ''1'' then insort a (rawBuyside_m s) else rawBuyside_m s)
    \<and> rawSellside_m s' = (if safe \<and> rich \<and> sd \<noteq> ''1'' then insort a (rawSellside_m s) else rawSellside_m s)
    \<and> (\<exists>ok pre tr. visible tr = visible (trace s) @ [Query qu] \<and> (ok \<longleftrightarrow> query_rc env tr qu = 0)
        \<and> visible (trace s') = visible (trace s) @ (if safe \<and> rich then [Query qu] else [])
            @ [Send (connection_socket_m (conn_heap s ! ca)) (send_block env pre
                (n @ (if \<not> safe then ''|failed'' else if \<not> rich then ''|failed, Insufficient balance''
                      else if ok then ''|success'' else ''|failed, repeat nid'') @ nl))])"
proof -
  let ?m = "tagged [''87'', n, p, sd, x, y, q] k"
  have "field_ok (CHR ''|'') ''87''" by (simp add: field_ok_def NUL_def)
  then have "\<forall>w \<in> set [''87'', n, p, sd, x, y, q]. field_ok (CHR ''|'') w" using fields by simp
  then have sp: "split ?m ''|'' = [''87'', n, p, sd, x, y, q, to_string k]"
    using split_tagged [OF _ nums(3)] by simp
  obtain s1 where turn: "getOrder_turn env a memory s = seq (handle_order env a memory (split ?m ''|'')) (ret True) s1"
    and s1: "s1 = s\<lparr>trace := trace s @ [Log ''TD'' DEBUG ''(Trader) Handle Order Msg''], dq := dq s1\<rparr>"
    and waiting: "dataQueue_m (dq s1) = waiting"
    by (rule getOrder_turn_app [OF running queue])
  have same: "visible (trace s1) = visible (trace s)" "tradeBasicData s1 = tradeBasicData s"
    "productList s1 = productList s" "connStorage_m s1 = connStorage_m s" "conn_heap s1 = conn_heap s"
    "userList s1 = userList s" "nid_sub1 s1 = nid_sub1 s" "nid_sub2 s1 = nid_sub2 s"
    "rawBuyside_m s1 = rawBuyside_m s" "rawSellside_m s1 = rawSellside_m s"
    by (subst s1, simp)+
  let ?ord = "setStatus (if safe then VERIFIED else FAILED) (order_from memory n price sd sdv q k)"
  have "o_userID (order_from memory n price sd sdv q k) = ''0324027''"
    by (simp add: order_from_def setSituation_def setside_def)
  then have qu': "qu = c_str (insertOrder_query (order_data (serial_of s1 ?ord)))"
    by (simp add: qu order_data_def serial_of_def same getside_def setStatus_def order_from_def setSituation_def setside_def)
  obtain ok s2 s3 where h: "handle_order env a memory [''87'', n, p, sd, x, y, q, to_string k] s1 = (Inr (), s3)"
    and ans: "answered env s2 ca (n @ (if \<not> safe then ''|failed'' else if \<not> rich then ''|failed, Insufficient balance''
           else if ok then ''|success'' else ''|failed, repeat nid'') @ nl) s3"
    and s2: "\<exists>tr. s2 = (if safe \<and> rich
             then (booked a (serial_of s1 ?ord) s1)\<lparr>trace := tr, nid_sub2 := nid_sub2 s1 + 1, od_ptr := Some a,
               order_heap := (order_heap s1)(a \<mapsto> serial_of s1 ?ord), sideFlag := side_of_int sdv\<rparr>
             else s1\<lparr>trace := tr, od_ptr := Some a, order_heap := (order_heap s1)(a \<mapsto> ?ord)\<rparr>)
        \<and> visible tr = visible (trace s1) @ (if safe \<and> rich then [Query qu] else [])"
    and rc: "\<exists>tr. visible tr = visible (trace s1) @ [Query qu] \<and> (ok \<longleftrightarrow> query_rc env tr qu = 0)"
    by (rule handle_order_run [OF nums(1,2) stoi_to_string [OF nums(3,4)], of s1 reference ca ud ?ord safe memory n q rich qu])
       (use day conn user serial safe rich qu' in \<open>simp_all add: same\<close>)
  have r: "r = Inr True" "s' = s3" using turn run h by (simp_all add: sp seq_def bnd_app)
  have s2': "dataQueue_m (dq s2) = waiting"
    "rawBuyside_m s2 = (if safe \<and> rich \<and> sd = ''1'' then insort a (rawBuyside_m s) else rawBuyside_m s)"
    "rawSellside_m s2 = (if safe \<and> rich \<and> sd \<noteq> ''1'' then insort a (rawSellside_m s) else rawSellside_m s)"
    "conn_heap s2 = conn_heap s" "visible (trace s2) = visible (trace s) @ (if safe \<and> rich then [Query qu] else [])"
    using s2 waiting by (auto simp: booked_fields same)
  obtain tr where tr: "visible tr = visible (trace s) @ [Query qu]" "ok \<longleftrightarrow> query_rc env tr qu = 0"
    using rc by (auto simp: same)
  obtain pre where pre: "visible (trace s') = visible (trace s2) @ [Send (connection_socket_m (conn_heap s2 ! ca))
      (send_block env pre (n @ (if \<not> safe then ''|failed'' else if \<not> rich then ''|failed, Insufficient balance''
           else if ok then ''|success'' else ''|failed, repeat nid'') @ nl))]"
    using answered_fields(7) [OF ans] r(2) by blast
  show ?thesis
    using answered_fields(1-3) [OF ans] r s2' tr pre
    by (intro conjI exI [of _ ok] exI [of _ pre] exI [of _ tr]) simp_all
qed

text \<open>
  C2. The answer to a new order and what it leaves behind: outside the price band or for an
  unknown product it is refused; with a balance not above a thousand times the price it
  is refused for the balance; otherwise it enters the book of its side with the next
  serial number and one INSERT is sent, and the client reads success exactly when the
  database took it. The order stays in the book when the database refused it.
\<close>

theorem order_intake:
  assumes running: "traderstatus_m s"
    and queue: "dataQueue_m (dq s) = tagged [''87'', n, p, sd, x, y, q] k # waiting"
    and fields: "\<forall>w \<in> {n, p, sd, x, y, q}. field_ok (CHR ''|'') w"
    and nums: "stod p = Inr price" "stoi sd = Inr sdv" "0 \<le> k" "k < 2 ^ 31"
    and day: "2 < length (tradeBasicData s)" "stod (tradeBasicData s ! 2) = Inr reference"
    and conn: "map_find (connStorage_m s) k = Some (Some ca)" "ca < length (conn_heap s)"
    and user: "map_find (userList s) (username (conn_heap s ! ca)) = Some ud"
    and serial: "nid_sub2 s \<noteq> 0x7FFFFFFF"
    and safe: "safe \<longleftrightarrow> in_band reference price \<and> q \<in> set (productList s)"
    and rich: "rich \<longleftrightarrow> balance ud > price * literal 1000"
    and qu: "qu = c_str (insertOrder_query \<lparr>od_nid = n, od_volumn = 0, od_orderPrice = price, od_symbol = q,
        od_userID = ''0324027'', od_side = (if sd = ''1'' then 1 else 2),
        od_client_serialnum = sint (nid_key (nid_sub1 s) (nid_sub2 s))\<rparr>)"
    and run: "getOrder_turn env a memory s = (r, s')"
  shows "r = Inr True \<and> dataQueue_m (dq s') = waiting
    \<and> rawBuyside_m s' = (if safe \<and> rich \<and> sd = ''1'' then insort a (rawBuyside_m s) else rawBuyside_m s)
    \<and> rawSellside_m s' = (if safe \<and> rich \<and> sd \<noteq> ''1'' then insort a (rawSellside_m s) else rawSellside_m s)
    \<and> (\<exists>ok pre tr. visible tr = visible (trace s) @ [Query qu] \<and> (ok \<longleftrightarrow> query_rc env tr qu = 0)
        \<and> visible (trace s') = visible (trace s) @ (if safe \<and> rich then [Query qu] else [])
            @ [Send (connection_socket_m (conn_heap s ! ca)) (send_block env pre
                (n @ (if \<not> safe then ''|failed'' else if \<not> rich then ''|failed, Insufficient balance''
                      else if ok then ''|success'' else ''|failed, repeat nid'') @ nl))])"
  by (rule getOrder_intake [OF assms])

subsection \<open>Matching\<close>

lemma scan_buys_app:
  assumes "rawSellside_m s \<noteq> []" and "od_ptr s = Some od" and "order_heap s od = Some odo"
    and "order_heap s (last (rawSellside_m s)) = Some so"
  shows "scan_buys buys s = (Inr (if buys \<noteq> [] \<and> orderPrice odo \<ge> orderPrice so
      then Some (hd buys, last (rawSellside_m s)) else None), s)"
  using assms by (induction buys) (auto simp: bnd_app deref_order_app Let_def)

lemma match_select_app:
  assumes "rawSellside_m s \<noteq> []" and "rawBuyside_m s \<noteq> []" and "od_ptr s = Some od"
    and "order_heap s od = Some odo" and "order_heap s (last (rawSellside_m s)) = Some so"
  shows "match_select s = (Inr (if orderPrice odo \<ge> orderPrice so
      then Some (hd (rawBuyside_m s), last (rawSellside_m s)) else None),
    s\<lparr>trace := trace s @ [Log ''TD'' DEBUG ''(Trader) Do Match up process'',
                         Log ''TD'' DEBUG ''(Trader) Execute Match up'']\<rparr>)"
proof -
  let ?s1 = "s\<lparr>trace := trace s @ [Log ''TD'' DEBUG ''(Trader) Do Match up process'',
                         Log ''TD'' DEBUG ''(Trader) Execute Match up'']\<rparr>"
  have "scan_buys (rawBuyside_m s) ?s1 = (Inr (if orderPrice odo \<ge> orderPrice so
      then Some (hd (rawBuyside_m s), last (rawSellside_m s)) else None), ?s1)"
    using scan_buys_app [of ?s1 od odo so "rawBuyside_m s"] assms by simp
  then show ?thesis using assms(1,2) by (simp add: match_select_def bnd_app seq_def)
qed

lemma match_select_none:
  assumes "rawSellside_m s = [] \<or> rawBuyside_m s = []"
  shows "match_select s = (Inr None, s\<lparr>trace := trace s @ [Log ''TD'' DEBUG ''(Trader) Do Match up process'']\<rparr>)"
  using assms by (auto simp: match_select_def bnd_app seq_def)

text \<open>
  C6. One pass over the books picks at most one pair: the buy order with the lowest address
  and the sell order with the highest, exactly when the price of the order that arrived
  last is at least the price of that sell order. The buy order's own price plays no part.
\<close>

theorem match_choice:
  assumes "rawSellside_m s \<noteq> []" and "rawBuyside_m s \<noteq> []" and "od_ptr s = Some od"
    and "order_heap s od = Some odo" and "order_heap s (last (rawSellside_m s)) = Some so"
    and "sorted (rawSellside_m s)" and "sorted (rawBuyside_m s)"
    and run: "match_select s = (r, s')"
  shows "(\<exists>c. r = Inr c \<and> (c \<noteq> None \<longleftrightarrow> orderPrice odo \<ge> orderPrice so)
      \<and> (\<forall>b sl. c = Some (b, sl) \<longrightarrow> b \<in> set (rawBuyside_m s) \<and> (\<forall>x \<in> set (rawBuyside_m s). b \<le> x)
          \<and> sl \<in> set (rawSellside_m s) \<and> (\<forall>x \<in> set (rawSellside_m s). x \<le> sl)))
    \<and> rawBuyside_m s' = rawBuyside_m s \<and> rawSellside_m s' = rawSellside_m s \<and> order_heap s' = order_heap s"
proof -
  have low: "hd xs \<in> set xs \<and> (\<forall>x \<in> set xs. hd xs \<le> x)" if "sorted xs" "xs \<noteq> []" for xs :: "nat list"
    using that by (cases xs) auto
  have high: "last xs \<in> set xs \<and> (\<forall>x \<in> set xs. x \<le> last xs)" if "sorted xs" "xs \<noteq> []" for xs :: "nat list"
    using that by (cases xs rule: rev_cases) (auto simp: sorted_append)
  show ?thesis
    using run low [OF assms(7,2)] high [OF assms(6,1)] by (auto simp: match_select_app [OF assms(1-5)])
qed

lemma match_execute_app:
  assumes "order_heap s odb = Some bo" and "order_heap s ods = Some so" and "odb \<noteq> ods"
    and "rawSellside_m s \<noteq> []" and "map_find (quotesList s) ''KKC'' = Some (Some st)" and "ordered (quotesList s)"
  shows "match_execute odb ods s = (Inr (), s\<lparr>
      order_heap := (order_heap s)(odb \<mapsto> bo\<lparr>execPrice := orderPrice so\<rparr>, ods \<mapsto> so\<lparr>execPrice := orderPrice so\<rparr>),
      quotesList := map_put ''KKC'' (Some (traded (orderPrice so) st)) (quotesList s),
      reportList_m := reportList_m s @ [odb, ods],
      rawSellside_m := butlast (rawSellside_m s),
      rawBuyside_m := remove1 odb (rawBuyside_m s),
      trace := trace s @ [Log ''TD'' DEBUG ''(Trader) Match up success'']\<rparr>)"
proof -
  let ?s1 = "s\<lparr>order_heap := (order_heap s)(odb \<mapsto> bo\<lparr>execPrice := orderPrice so\<rparr>)\<rparr>"
  let ?s2 = "s\<lparr>order_heap := (order_heap s)(odb \<mapsto> bo\<lparr>execPrice := orderPrice so\<rparr>, ods \<mapsto> so\<lparr>execPrice := orderPrice so\<rparr>)\<rparr>"
  have "quoteUpdate ''KKC'' (orderPrice so) ?s2 = (Inr (),
      ?s2\<lparr>quotesList := map_put ''KKC'' (Some (traded (orderPrice so) st)) (quotesList s)\<rparr>)"
    using quoteUpdate_app [of ?s2 "''KKC''" st "orderPrice so"] assms(5,6) by simp
  moreover have "order_heap ?s1 ods = Some so" using assms(2,3) by simp
  ultimately show ?thesis
    using assms(1-4) by (simp add: match_execute_def bnd_app seq_def deref_order_app put_order_app)
qed

text \<open>
  C5. Executing a chosen pair: both orders get the price of the sell order as their
  execution price and nothing else of any order changes, the price becomes the current
  price of KKC, both are queued for a report, the buy order leaves its book, and the
  last order of the sell book is removed from it.
\<close>

theorem match_execution:
  assumes "order_heap s odb = Some bo" and "order_heap s ods = Some so" and "odb \<noteq> ods"
    and "rawSellside_m s \<noteq> []" and "map_find (quotesList s) ''KKC'' = Some (Some st)" and "ordered (quotesList s)"
    and run: "match_execute odb ods s = (r, s')"
  shows "r = Inr () \<and> reportList_m s' = reportList_m s @ [odb, ods]
    \<and> order_heap s' odb = Some (bo\<lparr>execPrice := orderPrice so\<rparr>)
    \<and> order_heap s' ods = Some (so\<lparr>execPrice := orderPrice so\<rparr>)
    \<and> (\<forall>a. a \<noteq> odb \<longrightarrow> a \<noteq> ods \<longrightarrow> order_heap s' a = order_heap s a)
    \<and> rawBuyside_m s' = remove1 odb (rawBuyside_m s) \<and> rawSellside_m s' = butlast (rawSellside_m s)
    \<and> (\<exists>st'. map_find (quotesList s') ''KKC'' = Some (Some st') \<and> priceNow st' = orderPrice so)"
proof -
  have "priceNow (traded (orderPrice so) st) = orderPrice so" by (simp add: traded_def)
  then show ?thesis
    using run assms(3) smap.find_assign [OF assms(6)] by (auto simp: match_execute_app [OF assms(1-6)])
qed

text \<open>
  C16. While the matching thread waits for the mutex between choosing a pair and executing
  it, a sell order at a higher address may arrive. Then the execution removes that order
  from the sell book, unmatched and unreported, and the executed sell order stays in it.
\<close>

theorem later_sell_order_lost:
  assumes "sorted (rawSellside_m s)" and "distinct (rawSellside_m s)" and "ods \<in> set (rawSellside_m s)"
    and "new \<in> set (rawSellside_m s)" and "\<forall>x \<in> set (rawSellside_m s). x \<le> new" and "ods < new"
    and "order_heap s odb = Some bo" and "order_heap s ods = Some so" and "odb \<noteq> ods"
    and "map_find (quotesList s) ''KKC'' = Some (Some st)" and "ordered (quotesList s)"
    and run: "match_execute odb ods s = (r, s')"
  shows "ods \<in> set (rawSellside_m s') \<and> ods \<in> set (reportList_m s') \<and> new \<notin> set (rawSellside_m s')
    \<and> (new \<noteq> odb \<longrightarrow> (new \<in> set (reportList_m s') \<longleftrightarrow> new \<in> set (reportList_m s)))"
proof -
  have ne: "rawSellside_m s \<noteq> []" using assms(3) by auto
  have split_last: "rawSellside_m s = butlast (rawSellside_m s) @ [last (rawSellside_m s)]" using ne by simp
  have "last (rawSellside_m s) \<in> set (rawSellside_m s)" using ne by simp
  moreover have "new \<le> last (rawSellside_m s)"
    using assms(1,4) split_last by (metis (no_types, lifting) Un_iff empty_iff insert_iff list.set(1,2) order_refl set_append sorted_append)
  ultimately have last: "last (rawSellside_m s) = new" using assms(5) by (meson order_antisym)
  have "ods \<in> set (butlast (rawSellside_m s))"
    using assms(3,6) split_last last by (metis Un_iff empty_iff insert_iff list.set(1,2) nat_neq_iff set_append)
  moreover have "new \<notin> set (butlast (rawSellside_m s))"
    using assms(2) split_last last by (metis distinct_append not_distinct_conv_prefix distinct_butlast append_butlast_last_id ne)
  ultimately show ?thesis
    using run assms(6) by (auto simp: match_execute_app [OF assms(7-9) ne assms(10,11)])
qed

subsection \<open>Cancelling and changing\<close>

definition has_nid :: "'a trader_scheme \<Rightarrow> string \<Rightarrow> nat \<Rightarrow> bool" where
  "has_nid s n a \<longleftrightarrow> (case order_heap s a of None \<Rightarrow> False | Some ord \<Rightarrow> nid ord = n)"

lemma find_order_app:
  "\<forall>a \<in> set as. order_heap s a \<noteq> None \<Longrightarrow> find_order n as s = (Inr (find (has_nid s n) as), s)"
  by (induction as) (auto simp: bnd_app deref_order_app has_nid_def)

lemma answer_app:
  "7 < length res \<Longrightarrow> stoi (res ! 7) = Inr k \<Longrightarrow> answer env res t s = sendToClient env k (res ! 1 @ t) s"
  by (simp add: answer_def bnd_app)

lemma answered_trader:
  assumes "answered env s a str s'"
  shows "buyside_m s' = buyside_m s" and "sellside_m s' = sellside_m s" and "reportList_m s' = reportList_m s"
  using assms by (auto simp: answered_def)

lemma updateOrderSituation_visible:
  obtains ok tr where "updateOrderSituation env n st s = (Inr ok, s\<lparr>trace := tr\<rparr>)"
    and "visible tr = visible (trace s) @ [Query (c_str (updateOrderSituation_query n st))]"
proof -
  obtain lg where "updateOrderSituation env n st s = (Inr (query_rc env (trace s @
      [Query (c_str (updateOrderSituation_query n st))]) (c_str (updateOrderSituation_query n st)) = 0),
      s\<lparr>trace := trace s @ [Query (c_str (updateOrderSituation_query n st)), lg]\<rparr>)" and "is_log lg"
    unfolding updateOrderSituation_def by (rule run_statement_result)
  then show thesis by (intro that) (auto, cases lg, simp_all)
qed

text \<open>The search and removal of one book, with the book as a field of the state.\<close>

lemma cancel_in_run:
  assumes valid: "\<forall>a \<in> set (book s). order_heap s a \<noteq> None"
    and res: "7 < length res" "res ! 1 = n" "stoi (res ! 7) = Inr k"
    and conn: "map_find (connStorage_m s) k = Some (Some ca)" "ca < length (conn_heap s)"
    and book: "\<And>t u. book (u\<lparr>trace := t\<rparr>) = book u"
    and set_book: "\<And>b u. connStorage_m (set_book b u) = connStorage_m u" "\<And>b u. conn_heap (set_book b u) = conn_heap u"
      "\<And>b u. trace (set_book b u) = trace u"
  obtains s1 s2 s' where "cancel_in env res doc book set_book s = (Inr (), s')"
    and "case find (has_nid s n) (book s) of
        Some a \<Rightarrow> (\<exists>t tr. s1 = set_book (remove1 a (book s)) (s\<lparr>trace := t\<rparr>) \<and> visible t = visible (trace s)
          \<and> answered env s1 ca (n @ ''|cancel order success'' @ nl) s2 \<and> s' = s2\<lparr>trace := tr\<rparr>
          \<and> visible tr = visible (trace s2) @ [Query (c_str (updateOrderSituation_query n ''3''))])
      | None \<Rightarrow> (\<exists>t. s1 = s\<lparr>trace := t\<rparr> \<and> visible t = visible (trace s)
          \<and> answered env s1 ca (n @ ''|no this order'' @ nl) s')"
proof -
  let ?t0 = "s\<lparr>trace := trace s @ [Log ''TD'' DEBUG doc]\<rparr>"
  have "\<forall>a \<in> set (book ?t0). order_heap ?t0 a \<noteq> None" using valid by (simp add: book)
  then have found: "find_order n (book ?t0) ?t0 = (Inr (find (has_nid ?t0 n) (book ?t0)), ?t0)"
    by (rule find_order_app)
  have nid_same: "has_nid ?t0 n = has_nid s n" by (simp add: has_nid_def fun_eq_iff)
  have len: "1 < length res" using res(1) by simp
  show thesis
  proof (cases "find (has_nid s n) (book s)")
    case None
    let ?s1 = "?t0\<lparr>trace := trace ?t0 @ [Log ''TD'' DEBUG ''(Trader) target not found'']\<rparr>"
    obtain s' where s': "sendToClient env k (n @ ''|no this order'') ?s1 = (Inr (), s')"
      "answered env ?s1 ca ((n @ ''|no this order'') @ nl) s'"
      by (rule sendToClient_answered [of ?s1 k ca env "n @ ''|no this order''"]) (simp_all add: conn)
    have "cancel_in env res doc book set_book s = (Inr (), s')"
      using found None s'(1) res len by (simp add: cancel_in_def bnd_app seq_def nid_same book answer_app)
    then show thesis
      by (rule that [of _ ?s1]) (use None s'(2) in \<open>auto intro!: exI [of _ "trace ?s1"]\<close>)
  next
    case (Some a)
    let ?t = "trace ?t0 @ [Log ''TD'' DEBUG ''(Trader) find target, try delete'']"
    let ?s1 = "set_book (remove1 a (book s)) (s\<lparr>trace := ?t\<rparr>)"
    have same: "connStorage_m ?s1 = connStorage_m s" "conn_heap ?s1 = conn_heap s" by (simp_all add: set_book)
    obtain s2 where s2: "sendToClient env k (n @ ''|cancel order success'') ?s1 = (Inr (), s2)"
      "answered env ?s1 ca ((n @ ''|cancel order success'') @ nl) s2"
      by (rule sendToClient_answered [of ?s1 k ca env "n @ ''|cancel order success''"]) (simp_all only: same conn)
    obtain ok tr where u: "updateOrderSituation env n ''3'' s2 = (Inr ok, s2\<lparr>trace := tr\<rparr>)"
      "visible tr = visible (trace s2) @ [Query (c_str (updateOrderSituation_query n ''3''))]"
      by (rule updateOrderSituation_visible)
    have run: "cancel_in env res doc book set_book s = (Inr (), s2\<lparr>trace := tr\<rparr>)"
      using found Some s2(1) u(1) res len by (simp add: cancel_in_def bnd_app seq_def nid_same book answer_app)
    have "\<exists>t tr'. ?s1 = set_book (remove1 a (book s)) (s\<lparr>trace := t\<rparr>) \<and> visible t = visible (trace s)
          \<and> answered env ?s1 ca (n @ ''|cancel order success'' @ nl) s2 \<and> s2\<lparr>trace := tr\<rparr> = s2\<lparr>trace := tr'\<rparr>
          \<and> visible tr' = visible (trace s2) @ [Query (c_str (updateOrderSituation_query n ''3''))]"
      using s2(2) u(2) by (intro exI [of _ ?t] exI [of _ tr]) simp
    then show thesis
      by (intro that [OF run, of ?s1 s2]) (simp only: Some option.case)
  qed
qed

text \<open>
  C18. Cancelling looks only at the orders loaded from the database at start-up: the first
  of its side with the number is removed, the client is told and the row is marked
  cancelled; without one the client is told so and nothing is written. The books of new
  orders are not touched.
\<close>

theorem cancel_exact:
  assumes "sd = ''1'' \<and> book = buyside_m s \<or> sd = ''2'' \<and> book = sellside_m s"
    and "\<forall>a \<in> set book. order_heap s a \<noteq> None"
    and "0 \<le> k" and "k < 2 ^ 31"
    and "map_find (connStorage_m s) k = Some (Some ca)" and "ca < length (conn_heap s)"
    and run: "handle_change env [''88'', n, p, sd, x, y, q, to_string k] s = (r, s')"
  shows "r = Inr () \<and> rawBuyside_m s' = rawBuyside_m s \<and> rawSellside_m s' = rawSellside_m s
    \<and> (case find (has_nid s n) book of
         Some a \<Rightarrow> (if sd = ''1'' then buyside_m s' = remove1 a book \<and> sellside_m s' = sellside_m s
                    else buyside_m s' = buyside_m s \<and> sellside_m s' = remove1 a book)
           \<and> (\<exists>pre. visible (trace s') = visible (trace s) @ [Send (connection_socket_m (conn_heap s ! ca))
                 (send_block env pre (n @ ''|cancel order success'' @ nl)),
                 Query (c_str (updateOrderSituation_query n ''3''))])
       | None \<Rightarrow> buyside_m s' = buyside_m s \<and> sellside_m s' = sellside_m s
           \<and> (\<exists>pre. visible (trace s') = visible (trace s) @ [Send (connection_socket_m (conn_heap s ! ca))
                 (send_block env pre (n @ ''|no this order'' @ nl))]))"
proof -
  let ?res = "[''88'', n, p, sd, x, y, q, to_string k]"
  have res: "7 < length ?res" "?res ! 1 = n" "stoi (?res ! 7) = Inr k"
    using stoi_to_string [OF assms(3,4)] by simp_all
  show ?thesis
  proof (cases "sd = ''1''")
    case True
    then have book: "book = buyside_m s" using assms(1) by auto
    obtain s1 s2 s'' where c: "cancel_in env ?res ''(Trader) Delete buy order'' buyside_m (\<lambda>b s. s\<lparr>buyside_m := b\<rparr>) s = (Inr (), s'')"
      and cs: "case find (has_nid s n) (buyside_m s) of
        Some a \<Rightarrow> (\<exists>t tr. s1 = (\<lambda>b s. s\<lparr>buyside_m := b\<rparr>) (remove1 a (buyside_m s)) (s\<lparr>trace := t\<rparr>) \<and> visible t = visible (trace s)
          \<and> answered env s1 ca (n @ ''|cancel order success'' @ nl) s2 \<and> s'' = s2\<lparr>trace := tr\<rparr>
          \<and> visible tr = visible (trace s2) @ [Query (c_str (updateOrderSituation_query n ''3''))])
      | None \<Rightarrow> (\<exists>t. s1 = s\<lparr>trace := t\<rparr> \<and> visible t = visible (trace s)
          \<and> answered env s1 ca (n @ ''|no this order'' @ nl) s'')"
      by (rule cancel_in_run [OF _ res assms(5,6), of buyside_m "\<lambda>b s. s\<lparr>buyside_m := b\<rparr>" env "''(Trader) Delete buy order''"])
         (use assms(2) book in simp_all)
    have "r = Inr ()" "s' = s''" using run c True by (simp_all add: handle_change_def bnd_app)
    then show ?thesis
      using cs True book by (auto simp: answered_def split: option.splits)
  next
    case False
    then have book: "book = sellside_m s" "sd = ''2''" using assms(1) by auto
    obtain s1 s2 s'' where c: "cancel_in env ?res ''(Trader) Delete sell order'' sellside_m (\<lambda>b s. s\<lparr>sellside_m := b\<rparr>) s = (Inr (), s'')"
      and cs: "case find (has_nid s n) (sellside_m s) of
        Some a \<Rightarrow> (\<exists>t tr. s1 = (\<lambda>b s. s\<lparr>sellside_m := b\<rparr>) (remove1 a (sellside_m s)) (s\<lparr>trace := t\<rparr>) \<and> visible t = visible (trace s)
          \<and> answered env s1 ca (n @ ''|cancel order success'' @ nl) s2 \<and> s'' = s2\<lparr>trace := tr\<rparr>
          \<and> visible tr = visible (trace s2) @ [Query (c_str (updateOrderSituation_query n ''3''))])
      | None \<Rightarrow> (\<exists>t. s1 = s\<lparr>trace := t\<rparr> \<and> visible t = visible (trace s)
          \<and> answered env s1 ca (n @ ''|no this order'' @ nl) s'')"
      by (rule cancel_in_run [OF _ res assms(5,6), of sellside_m "\<lambda>b s. s\<lparr>sellside_m := b\<rparr>" env "''(Trader) Delete sell order''"])
         (use assms(2) book in simp_all)
    have "r = Inr ()" "s' = s''" using run c book by (simp_all add: handle_change_def bnd_app)
    then show ?thesis
      using cs False book by (auto simp: answered_def split: option.splits)
  qed
qed

text \<open>
  Changing the price of an order whose side is not 1 compares iterators of two
  containers, which is undefined, whatever orders there are.
\<close>

theorem modify_sell_undefined:
  assumes "c \<noteq> ''88''" and "sd \<noteq> ''1''" and "\<forall>a \<in> set (buyside_m s). order_heap s a \<noteq> None"
  shows "fst (handle_change env (c # n # p # sd # rest) s) = Inl (Undefined Foreign_iterator)"
  using assms find_order_app [of "buyside_m s" "s\<lparr>trace := trace s @ [Log ''TD'' DEBUG ''(Trader) Handle modify order'']\<rparr>" n]
  by (simp add: handle_change_def modify_order_def bnd_app seq_def)

subsection \<open>Reports\<close>

lemma sendExecReport_run:
  assumes "order_heap s a = Some ord" and "map_find (connStorage_m s) (connId ord) = Some (Some ca)"
    and "ca < length (conn_heap s)"
  obtains s1 tr where "sendExecReport env a s = (Inr (), s1\<lparr>trace := tr\<rparr>)"
    and "answered env s ca (nid ord @ ''|OrderExec'' @ nl) s1"
    and "visible tr = visible (trace s1) @
      [Query (c_str (insertReport_query (nid ord) (to_string_double (orderPrice ord)) (to_string_double (execPrice ord))
          (if getside ord = BUY then ''1'' else ''2'') (to_string (client_serialNum ord)))),
       Query (c_str (updateOrderSituation_query (nid ord) ''2''))]"
proof -
  obtain s1 where s1: "sendToClient env (connId ord) (nid ord @ ''|OrderExec'') s = (Inr (), s1)"
    and ans: "answered env s ca ((nid ord @ ''|OrderExec'') @ nl) s1"
    by (rule sendToClient_answered [OF assms(2,3)])
  let ?q = "insertReport_query (nid ord) (to_string_double (orderPrice ord)) (to_string_double (execPrice ord))
          (if getside ord = BUY then ''1'' else ''2'') (to_string (client_serialNum ord))"
  obtain lg where r: "insertReport env (nid ord) (to_string_double (orderPrice ord)) (to_string_double (execPrice ord))
          (if getside ord = BUY then ''1'' else ''2'') (to_string (client_serialNum ord)) s1
      = (Inr (query_rc env (trace s1 @ [Query (c_str ?q)]) (c_str ?q) = 0), s1\<lparr>trace := trace s1 @ [Query (c_str ?q), lg]\<rparr>)"
    and "is_log lg"
    unfolding insertReport_def by (rule run_statement_result)
  then obtain ty lvl doc where lg: "lg = Log ty lvl doc" by (cases lg) auto
  let ?s2 = "s1\<lparr>trace := trace s1 @ [Query (c_str ?q), lg] @
    (if query_rc env (trace s1 @ [Query (c_str ?q)]) (c_str ?q) = 0
     then [Log ''TD'' DEBUG ''(Trader) Execution report send''] else [])\<rparr>"
  obtain ok tr where u: "updateOrderSituation env (nid ord) ''2'' ?s2 = (Inr ok, ?s2\<lparr>trace := tr\<rparr>)"
    and vis: "visible tr = visible (trace ?s2) @ [Query (c_str (updateOrderSituation_query (nid ord) ''2''))]"
    by (rule updateOrderSituation_visible)
  have "sendExecReport env a s = (Inr (), s1\<lparr>trace := tr\<rparr>)"
    using assms(1) s1 r u
    by (cases "query_rc env (trace s1 @ [Query (c_str ?q)]) (c_str ?q) = 0")
       (simp_all add: sendExecReport_def bnd_app seq_def deref_order_app)
  then show thesis
    by (rule that) (use ans vis lg in \<open>auto split: if_splits\<close>)
qed

text \<open>
  C19. Reporting takes the last entry of the report list: the client is told, the execution is
  written to the database with both prices and the order is marked executed, in this
  order; the entry is removed only afterwards.
\<close>

theorem report_step:
  assumes "traderstatus_m s" and "reportList_m s = reports @ [a]" and "order_heap s a = Some ord"
    and "map_find (connStorage_m s) (connId ord) = Some (Some ca)" and "ca < length (conn_heap s)"
    and run: "generateExecReport_step env Report_poll s = (r, s')"
  shows "r = Inr Report_pop \<and> reportList_m s' = reportList_m s \<and> order_heap s' = order_heap s
    \<and> (\<exists>pre. visible (trace s') = visible (trace s) @
        [Send (connection_socket_m (conn_heap s ! ca)) (send_block env pre (nid ord @ ''|OrderExec'' @ nl)),
         Query (c_str (insertReport_query (nid ord) (to_string_double (orderPrice ord)) (to_string_double (execPrice ord))
            (if getside ord = BUY then ''1'' else ''2'') (to_string (client_serialNum ord)))),
         Query (c_str (updateOrderSituation_query (nid ord) ''2''))])
    \<and> fst (generateExecReport_step env Report_pop s') = Inr Report_poll
    \<and> reportList_m (snd (generateExecReport_step env Report_pop s')) = reports"
proof -
  let ?s0 = "s\<lparr>trace := trace s @ [Log ''TD'' DEBUG ''(Trader) Handle Exec Order'']\<rparr>"
  obtain s1 tr where send: "sendExecReport env a ?s0 = (Inr (), s1\<lparr>trace := tr\<rparr>)"
    and ans: "answered env ?s0 ca (nid ord @ ''|OrderExec'' @ nl) s1"
    and vis: "visible tr = visible (trace s1) @
      [Query (c_str (insertReport_query (nid ord) (to_string_double (orderPrice ord)) (to_string_double (execPrice ord))
          (if getside ord = BUY then ''1'' else ''2'') (to_string (client_serialNum ord)))),
       Query (c_str (updateOrderSituation_query (nid ord) ''2''))]"
    by (rule sendExecReport_run [of ?s0 a ord ca env]) (use assms(3-5) in simp_all)
  have s': "r = Inr Report_pop" "s' = s1\<lparr>trace := tr\<rparr>"
    using run assms(1,2) send by (simp_all add: bnd_app seq_def getTraderStatus_def)
  have same: "reportList_m s1 = reportList_m s" "order_heap s1 = order_heap s"
    using answered_trader(3) [OF ans] answered_fields(4) [OF ans] by simp_all
  obtain pre where "visible (trace s1) = visible (trace ?s0) @ [Send (connection_socket_m (conn_heap ?s0 ! ca))
      (send_block env pre (nid ord @ ''|OrderExec'' @ nl))]"
    using answered_fields(7) [OF ans] by blast
  then show ?thesis using s' vis same assms(2) by (auto simp: bnd_app seq_def)
qed

subsection \<open>Risk control\<close>

text \<open>
  C21. An order for a listed product is verified if its price lies within 90% and 110% of the
  reference price, and refused outside; the rounding of the two limits moves them by less
  than one part in \<open>2^51\<close>.
\<close>

theorem risk_band:
  assumes "2 < length basics" and "stod (basics ! 2) = Inr (Fin False r)"
    and "pow2 (-900) \<le> r" and "r \<le> pow2 900"
    and "orderPrice ord = Fin False p" and "symbol ord \<in> set products"
    and run: "verify products basics ord s = (Inr ord', s')"
  shows "(9/10 * r * (1 + pow2 (-51)) \<le> p \<and> p \<le> 11/10 * r * (1 - pow2 (-51)) \<longrightarrow> getStatus ord' = VERIFIED)
    \<and> (getStatus ord' = VERIFIED \<longrightarrow> 9/10 * r * (1 - pow2 (-51)) \<le> p \<and> p \<le> 11/10 * r * (1 + pow2 (-51)))
    \<and> (getStatus ord' \<noteq> VERIFIED \<longrightarrow> getStatus ord' = FAILED)"
proof -
  obtain u where u: "Fin False r * literal (11/10) = Fin False u" "\<bar>u - 11/10 * r\<bar> \<le> 11/10 * r * pow2 (-51)"
    using product_error [OF _ _ assms(3,4), of "11/10"] by auto
  obtain l where l: "Fin False r * literal (9/10) = Fin False l" "\<bar>l - 9/10 * r\<bar> \<le> 9/10 * r * pow2 (-51)"
    using product_error [OF _ _ assms(3,4), of "9/10"] by auto
  have ord': "ord' = setStatus (if in_band (Fin False r) (orderPrice ord) \<and> symbol ord \<in> set products
      then VERIFIED else FAILED) ord"
    using run by (simp add: verify_app [OF assms(1,2)])
  have "in_band (Fin False r) (orderPrice ord) \<longleftrightarrow> l \<le> p \<and> p \<le> u"
    by (auto simp: in_band_def assms(5) u(1) l(1))
  then have st: "getStatus ord' = (if l \<le> p \<and> p \<le> u then VERIFIED else FAILED)"
    using assms(6) by (simp add: ord')
  have b: "11/10 * r * (1 - pow2 (-51)) \<le> u" "u \<le> 11/10 * r * (1 + pow2 (-51))"
    "9/10 * r * (1 - pow2 (-51)) \<le> l" "l \<le> 9/10 * r * (1 + pow2 (-51))"
    using u(2) l(2) by (simp_all only: abs_le_iff right_diff_distrib distrib_left) linarith+
  show ?thesis unfolding st using b by auto
qed

text \<open>
  An order for a listed product at the reference price itself is always verified.
\<close>

theorem reference_price_verified:
  assumes "2 < length basics" and "stod (basics ! 2) = Inr (Fin False r)" and "is_double (Fin False r)"
    and "orderPrice ord = Fin False r" and "symbol ord \<in> set products"
  shows "verify products basics ord s = (Inr (setStatus VERIFIED ord), s)"
proof -
  have "fl 1 \<le> fl (11/10)" and "fl (9/10) \<le> fl 1" by (rule fl_mono, simp)+
  then have f: "1 \<le> fl (11/10)" "fl (9/10) \<le> 1" by simp_all
  have "fl (11/10) \<le> fl (of_nat 2)" and "fl (9/10) \<le> fl (of_nat 2)" by (rule fl_mono, simp)+
  then have "fl (11/10) \<le> 2" and "fl (9/10) \<le> 2" using fl_of_nat [of 2] by simp_all
  moreover have "2 \<le> max_finite" by (simp add: max_finite_def)
  ultimately have lit: "literal (11/10) = Fin False (fl (11/10))" "literal (9/10) = Fin False (fl (9/10))"
    by (simp_all add: literal_def round_to_def)
  have r: "0 \<le> r" using assms(3) by simp
  have "Fin False r \<le> Fin False r * literal (11/10)"
    unfolding lit times_double.simps using r f mult_left_mono [OF f(1) r]
    by (simp add: round_to_ge [OF assms(3)])
  moreover have "Fin False r * literal (9/10) \<le> Fin False r"
    unfolding lit times_double.simps using r f mult_left_mono [OF f(2) r]
    by (simp add: round_to_le [OF assms(3)])
  ultimately have "in_band (Fin False r) (Fin False r)"
    unfolding in_band_def using double_less_not_le by blast
  then show ?thesis using assms by (simp add: verify_app)
qed

subsection \<open>Serial numbers\<close>

fun take_serials :: "nat \<Rightarrow> ('a trader_scheme, int list) cpp" where
  "take_serials 0 = ret []"
| "take_serials (Suc n) = bnd generateNid (\<lambda>k. bnd (take_serials n) (\<lambda>ks. ret (k # ks)))"

lemma take_serials_run:
  assumes "0 \<le> i" and "i < 2 ^ 31 - 1" and "nid_sub1 s = word_of_int i"
    and "nid_sub2 s = word_of_int j" and "0 < j" and "j + int n < 2 ^ 31"
  shows "fst (take_serials n s) = Inr (map (\<lambda>m. i * 2 ^ 32 + m) [j..j + int n - 1])"
  using assms(3-)
proof (induction n arbitrary: s j)
  case (Suc n)
  let ?s1 = "s\<lparr>nid_sub2 := word_of_int (j + 1)\<rparr>"
  have "j < 2 ^ 31 - 1" using Suc.prems by simp
  from next_nid_value [OF assms(1,2) Suc.prems(3) this]
  have g: "generateNid s = (Inr (i * 2 ^ 32 + j), ?s1)"
    using Suc.prems(1,2) by (simp add: generateNid_def bnd_app seq_def)
  have "fst (take_serials n ?s1) = Inr (map (\<lambda>m. i * 2 ^ 32 + m) [j + 1..(j + 1) + int n - 1])"
    by (rule Suc.IH) (use Suc.prems in simp_all)
  then obtain s2 where "take_serials n ?s1 = (Inr (map (\<lambda>m. i * 2 ^ 32 + m) [j + 1..j + int n]), s2)"
    by (cases "take_serials n ?s1") simp
  moreover have "[j..j + int (Suc n) - 1] = j # [j + 1..j + int n]" by (simp add: upto_rec1)
  ultimately show ?case using g by (simp add: bnd_app)
qed simp

text \<open>
  C20. The first \<open>2^31 - 2\<close> serial numbers are \<open>nid_sub1 * 2^32 + 1\<close> and its successors, so no
  two orders get the same one; the next call increments the largest \<open>int\<close>.
\<close>

theorem serial_numbers:
  assumes "0 \<le> i" and "i < 2 ^ 31 - 1" and "nid_sub1 s = word_of_int i" and "nid_sub2 s = 1"
    and "n \<le> 2 ^ 31 - 2"
  shows "fst (take_serials n s) = Inr (map (\<lambda>m. i * 2 ^ 32 + m) [1..int n])
    \<and> distinct (map (\<lambda>m. i * 2 ^ 32 + m) [1..int n])
    \<and> fst (generateNid (s\<lparr>nid_sub2 := 0x7FFFFFFF\<rparr>)) = Inl (Undefined Signed_overflow)"
proof -
  have "int n \<le> int (2 ^ 31 - 2)" using assms(5) by (simp only: of_nat_le_iff)
  then have "1 + int n < 2 ^ 31" by simp
  then have "fst (take_serials n s) = Inr (map (\<lambda>m. i * 2 ^ 32 + m) [1..1 + int n - 1])"
    by (intro take_serials_run [OF assms(1-3)]) (simp_all add: assms(4))
  moreover have "distinct (map (\<lambda>m. i * 2 ^ 32 + m) [1..int n])" by (simp add: distinct_map inj_on_def)
  moreover have "fst (generateNid (s\<lparr>nid_sub2 := 0x7FFFFFFF\<rparr>)) = Inl (Undefined Signed_overflow)"
    by (simp add: generateNid_def next_nid_def bnd_app)
  ultimately show ?thesis by simp
qed

subsection \<open>Orders from the database\<close>

definition loaded :: "(nat \<times> order) list \<Rightarrow> orderData list \<Rightarrow> (orderData \<Rightarrow> bool) \<Rightarrow> nat list" where
  "loaded alloc xs P = map (fst \<circ> fst) (filter (\<lambda>e. P (snd e)) (zip alloc xs))"

lemma load_exist_run:
  assumes "length xs \<le> length alloc" and "distinct (map fst alloc)"
  shows "\<exists>h. load_exist alloc xs s = (Inr (), s\<lparr>order_heap := h,
      buyside_m := buyside_m s @ loaded alloc xs (\<lambda>x. od_side x = 1),
      sellside_m := sellside_m s @ loaded alloc xs (\<lambda>x. od_side x \<noteq> 1)\<rparr>)
    \<and> (\<forall>i < length xs. \<exists>ord. h (fst (alloc ! i)) = Some ord \<and> nid ord = od_nid (xs ! i)
        \<and> orderPrice ord = od_orderPrice (xs ! i) \<and> o_side ord = od_side (xs ! i)
        \<and> client_serialNum ord = od_client_serialnum (xs ! i))
    \<and> (\<forall>a. a \<notin> fst ` set alloc \<longrightarrow> h a = order_heap s a)"
  using assms
proof (induction xs arbitrary: alloc s)
  case Nil
  then show ?case by (intro exI [of _ "order_heap s"]) (simp add: loaded_def)
next
  case (Cons x xs)
  obtain a m alloc' where alloc: "alloc = (a, m) # alloc'" using Cons.prems by (cases alloc) auto
  let ?o = "(Order m)\<lparr>nid := od_nid x, orderPrice := od_orderPrice x, o_side := od_side x,
      client_serialNum := od_client_serialnum x\<rparr>"
  let ?s1 = "if od_side x = 1
     then s\<lparr>order_heap := (order_heap s)(a \<mapsto> ?o), buyside_m := buyside_m s @ [a]\<rparr>
     else s\<lparr>order_heap := (order_heap s)(a \<mapsto> ?o), sellside_m := sellside_m s @ [a]\<rparr>"
  have len: "length xs \<le> length alloc'" "distinct (map fst alloc')" using Cons.prems by (simp_all add: alloc)
  obtain h where run: "load_exist alloc' xs ?s1 = (Inr (), ?s1\<lparr>order_heap := h,
      buyside_m := buyside_m ?s1 @ loaded alloc' xs (\<lambda>x. od_side x = 1),
      sellside_m := sellside_m ?s1 @ loaded alloc' xs (\<lambda>x. od_side x \<noteq> 1)\<rparr>)"
    and h: "\<forall>i < length xs. \<exists>ord. h (fst (alloc' ! i)) = Some ord \<and> nid ord = od_nid (xs ! i)
        \<and> orderPrice ord = od_orderPrice (xs ! i) \<and> o_side ord = od_side (xs ! i)
        \<and> client_serialNum ord = od_client_serialnum (xs ! i)"
      "\<forall>b. b \<notin> fst ` set alloc' \<longrightarrow> h b = order_heap ?s1 b"
    using Cons.IH [OF len, of ?s1] by blast
  have "a \<notin> fst ` set alloc'" using Cons.prems(2) by (simp add: alloc)
  then have ha: "h a = Some ?o" using h(2) by simp
  have all: "\<forall>i < length (x # xs). \<exists>ord. h (fst (alloc ! i)) = Some ord \<and> nid ord = od_nid ((x # xs) ! i)
        \<and> orderPrice ord = od_orderPrice ((x # xs) ! i) \<and> o_side ord = od_side ((x # xs) ! i)
        \<and> client_serialNum ord = od_client_serialnum ((x # xs) ! i)"
    using h(1) ha by (auto simp: alloc less_Suc_eq_0_disj)
  have rest: "\<forall>b. b \<notin> fst ` set alloc \<longrightarrow> h b = order_heap s b" using h(2) by (simp add: alloc)
  have "load_exist alloc (x # xs) s = load_exist alloc' xs ?s1"
    by (simp add: alloc seq_def bnd_app put_order_app)
  also note run
  finally have final: "load_exist alloc (x # xs) s = (Inr (), s\<lparr>order_heap := h,
      buyside_m := buyside_m s @ loaded alloc (x # xs) (\<lambda>x. od_side x = 1),
      sellside_m := sellside_m s @ loaded alloc (x # xs) (\<lambda>x. od_side x \<noteq> 1)\<rparr>)"
    by (cases "od_side x = 1") (simp_all add: loaded_def alloc)
  show ?case by (rule exI [of _ h], intro conjI final all rest)
qed

text \<open>
  At start-up the orders of the database go, in the order of the rows, to the two lists
  that cancelling searches, split by side 1 and any other side, with the number, price,
  side and serial number of their rows; they never enter the books that are matched. With
  more than 30 rows the text of a log line is read past its end.
\<close>

theorem load_exist_orders:
  assumes "getExistOrder env (tr_db s) (s\<lparr>trace := trace s @ [Log ''TD'' DEBUG ''(Trader) start load exist order'']\<rparr>)
      = (Inr xs, s1)"
    and "length xs \<le> length alloc" and "distinct (map fst alloc)"
    and run: "loadExistOrder env alloc s = (r, s')"
  shows "(30 < length xs \<longrightarrow> r = Inl (Undefined Index_past_end))
    \<and> (length xs \<le> 30 \<longrightarrow> r = Inr ()
        \<and> buyside_m s' = buyside_m s1 @ loaded alloc xs (\<lambda>x. od_side x = 1)
        \<and> sellside_m s' = sellside_m s1 @ loaded alloc xs (\<lambda>x. od_side x \<noteq> 1)
        \<and> rawBuyside_m s' = rawBuyside_m s1 \<and> rawSellside_m s' = rawSellside_m s1
        \<and> (\<forall>i < length xs. \<exists>ord. order_heap s' (fst (alloc ! i)) = Some ord \<and> nid ord = od_nid (xs ! i)
            \<and> orderPrice ord = od_orderPrice (xs ! i) \<and> o_side ord = od_side (xs ! i)
            \<and> client_serialNum ord = od_client_serialnum (xs ! i)))"
proof -
  have len: "length exist_order_text = 30" by (simp add: exist_order_text_def)
  let ?s2 = "s1\<lparr>trace := trace s1 @ [Log ''TD'' DEBUG (drop (length xs) exist_order_text)]\<rparr>"
  have r: "(r, s') = (if 30 < length xs then (Inl (Undefined Index_past_end), s1)
      else seq (load_exist alloc xs) (td_log DEBUG ''(Trader) load exist order success'') ?s2)"
    using run assms(1) by (cases "30 < length xs") (simp_all add: loadExistOrder_def bnd_app seq_def len)
  obtain h where load: "load_exist alloc xs ?s2 = (Inr (), ?s2\<lparr>order_heap := h,
      buyside_m := buyside_m ?s2 @ loaded alloc xs (\<lambda>x. od_side x = 1),
      sellside_m := sellside_m ?s2 @ loaded alloc xs (\<lambda>x. od_side x \<noteq> 1)\<rparr>)"
    and h: "\<forall>i < length xs. \<exists>ord. h (fst (alloc ! i)) = Some ord \<and> nid ord = od_nid (xs ! i)
        \<and> orderPrice ord = od_orderPrice (xs ! i) \<and> o_side ord = od_side (xs ! i)
        \<and> client_serialNum ord = od_client_serialnum (xs ! i)"
    using load_exist_run [OF assms(2,3), of ?s2] by blast
  show ?thesis
  proof (cases "30 < length xs")
    case True
    then show ?thesis using r by simp
  next
    case False
    then have "r = Inr ()" "s' = ?s2\<lparr>order_heap := h,
      buyside_m := buyside_m s1 @ loaded alloc xs (\<lambda>x. od_side x = 1),
      sellside_m := sellside_m s1 @ loaded alloc xs (\<lambda>x. od_side x \<noteq> 1),
      trace := trace ?s2 @ [Log ''TD'' DEBUG ''(Trader) load exist order success'']\<rparr>"
      using r load by (simp_all add: seq_def bnd_app)
    then show ?thesis using False h by simp
  qed
qed

subsection \<open>An example\<close>

text \<open>A trader with one buy and two sell orders of today, one order from the database and one message waiting.\<close>

definition sample_order :: "string \<Rightarrow> rat \<Rightarrow> side \<Rightarrow> order" where
  "sample_order n p sd = \<lparr>nid = n, orderPrice = Fin False p, execPrice = Fin False 0, symbol = ''KKC'',
     o_userID = ''0324027'', client_serialNum = 1, connId = 7, o_side = side_code sd, side_m = sd,
     price_m = Fin False 0, orderstatus_m = VERIFIED, ordersituation_m = NORMAL\<rparr>"

definition small_trader :: trader where
  "small_trader = \<lparr>trace = [], connStatus_m = True, mode_m = False, initFilePath = [], initchosen = [],
     connStorage_m = [(7, Some 0)],
     conn_heap = [\<lparr>connection_socket_m = 4, connectionID_m = 7, recvStatus_m = True, login_flag_m = True,
                   username = ''0324027''\<rparr>],
     userList = userList small_server, quotesList = quotesList small_server,
     dq = \<lparr>limitation_m = 100, dataQueue_m = [tagged [''87'', ''313542'', ''60'', ''1'', ''1'', ''1'', ''KKC''] 7], dq_log = []\<rparr>,
     dq_orderhandle = DataQueue 100, sr_db = sr_db small_server,
     tr_db = sr_db small_server, productList = [''KKC''], tradeBasicData = [''1'', ''2024'', ''60''],
     od_ptr = Some 3, order_heap = [4 \<mapsto> sample_order ''11'' 60 BUY, 2 \<mapsto> sample_order ''12'' 64 SELL,
       3 \<mapsto> sample_order ''13'' 64 SELL, 5 \<mapsto> sample_order ''15'' 60 BUY],
     buyside_m = [5], sellside_m = [], reportList_m = [4], rawBuyside_m = [4], rawSellside_m = [2, 3],
     traderstatus_m = True, serverstatus = False, testmode = False, sideFlag = BUY,
     nid_sub1 = 5, nid_sub2 = 1, cv_m = False\<rparr>"

lemma stod_sixty: "stod ''60'' = Inr (Fin False 60)"
  by (rule stod_int [where n = 60, simplified])
     (simp_all add: digit_text_def isdigit_def base_val_def xdigit_val_def)

lemma stoi_one: "stoi ''1'' = Inr 1"
  by (rule stoi_code) (simp_all add: digit_text_def isdigit_def base_val_def xdigit_val_def)

lemma sixty_in_band: "in_band (Fin False 60) (Fin False 60)"
  by code_simp

lemma rich_for_sixty: "literal 100000 > Fin False 60 * literal 1000"
  by code_simp

theorem order_intake_witness:
  "fst (getOrder_turn quiet_env 9 (sample_order ''0'' 0 BUY) small_trader) = Inr True
    \<and> rawBuyside_m (snd (getOrder_turn quiet_env 9 (sample_order ''0'' 0 BUY) small_trader)) = [4, 9]"
proof -
  have fields: "\<forall>w \<in> {''313542'', ''60'', ''1'', ''1'', ''1'', ''KKC''}. field_ok (CHR ''|'') w"
    by (simp add: field_ok_def NUL_def)
  have q: "dataQueue_m (dq small_trader) = tagged [''87'', ''313542'', ''60'', ''1'', ''1'', ''1'', ''KKC''] 7 # []"
    and st: "traderstatus_m small_trader" "2 < length (tradeBasicData small_trader)"
    "map_find (connStorage_m small_trader) 7 = Some (Some 0)" "0 < length (conn_heap small_trader)"
    "nid_sub2 small_trader \<noteq> 0x7FFFFFFF" "rawBuyside_m small_trader = [4]"
    and b: "stod (tradeBasicData small_trader ! 2) = Inr (Fin False 60)"
    and u: "map_find (userList small_trader) (username (conn_heap small_trader ! 0)) =
      Some \<lparr>userID = ''0324027'', password = ''123'', balance = literal 100000, book_value = literal 0\<rparr>"
    by (simp_all add: small_trader_def small_server_simps stod_sixty)
  show ?thesis
    using order_intake [OF st(1) q fields stod_sixty stoi_one _ _ st(2) b st(3,4) u st(5) refl refl refl prod.collapse [symmetric],
      of quiet_env 9 "sample_order ''0'' 0 BUY"] sixty_in_band rich_for_sixty st(6)
    by (simp add: small_trader_def)
qed

lemma small_trader_simps:
  "rawSellside_m small_trader = [2, 3]" "rawBuyside_m small_trader = [4]" "od_ptr small_trader = Some 3"
  "order_heap small_trader 4 = Some (sample_order ''11'' 60 BUY)"
  "order_heap small_trader 2 = Some (sample_order ''12'' 64 SELL)"
  "order_heap small_trader 3 = Some (sample_order ''13'' 64 SELL)"
  "order_heap small_trader 5 = Some (sample_order ''15'' 60 BUY)"
  "buyside_m small_trader = [5]" "reportList_m small_trader = [4]" "traderstatus_m small_trader"
  "map_find (connStorage_m small_trader) 7 = Some (Some 0)" "length (conn_heap small_trader) = 1"
  "map_find (quotesList small_trader) ''KKC'' = Some (Some \<lparr>stockNum = 0, priceNow = literal 60,
     priceMax = literal 60, priceMin = literal 60\<rparr>)" "ordered (quotesList small_trader)"
  by (simp_all add: small_trader_def small_server_simps) (simp add: small_server_def)

theorem match_choice_witness:
  "\<exists>c. fst (match_select small_trader) = Inr c \<and> c \<noteq> None"
  using match_choice [of small_trader 3 "sample_order ''13'' 64 SELL" "sample_order ''13'' 64 SELL",
      OF _ _ _ _ _ _ _ prod.collapse [symmetric]]
  by (simp add: small_trader_simps) (auto simp: sample_order_def)

theorem match_execution_witness:
  "reportList_m (snd (match_execute 4 3 small_trader)) = [4, 4, 3]"
  using match_execution [of small_trader 4 "sample_order ''11'' 60 BUY" 3 "sample_order ''13'' 64 SELL"
      "\<lparr>stockNum = 0, priceNow = literal 60, priceMax = literal 60, priceMin = literal 60\<rparr>",
      OF _ _ _ _ _ _ prod.collapse [symmetric]]
  by (simp add: small_trader_simps)

theorem later_sell_order_lost_witness:
  "2 \<in> set (rawSellside_m (snd (match_execute 4 2 small_trader)))
    \<and> 3 \<notin> set (rawSellside_m (snd (match_execute 4 2 small_trader)))"
  using later_sell_order_lost [of small_trader 2 3 4 "sample_order ''11'' 60 BUY" "sample_order ''12'' 64 SELL"
      "\<lparr>stockNum = 0, priceNow = literal 60, priceMax = literal 60, priceMin = literal 60\<rparr>",
      OF _ _ _ _ _ _ _ _ _ _ _ prod.collapse [symmetric]]
  by (simp add: small_trader_simps)

theorem cancel_exact_witness:
  "buyside_m (snd (handle_change quiet_env [''88'', ''15'', ''60'', ''1'', ''1'', ''1'', ''KKC'', to_string 7] small_trader)) = []"
  using cancel_exact [of "''1''" "[5]" small_trader 7 0 quiet_env "''15''" "''60''" "''1''" "''1''" "''KKC''",
      OF _ _ _ _ _ _ prod.collapse [symmetric]]
  by (simp add: small_trader_simps has_nid_def sample_order_def)

theorem modify_sell_undefined_witness:
  "fst (handle_change quiet_env [''89'', ''15'', ''61'', ''2''] small_trader) = Inl (Undefined Foreign_iterator)"
  using modify_sell_undefined [of "''89''" "''2''" small_trader quiet_env "''15''" "''61''" "[]"]
  by (simp add: small_trader_simps)

theorem report_step_witness:
  "fst (generateExecReport_step quiet_env Report_poll small_trader) = Inr Report_pop"
  using report_step [of small_trader "[]" 4 "sample_order ''11'' 60 BUY" 0 quiet_env,
      OF _ _ _ _ _ prod.collapse [symmetric]]
  by (simp add: small_trader_simps sample_order_def)

theorem risk_band_witness:
  "getStatus (setStatus VERIFIED (sample_order ''11'' 60 BUY)) = VERIFIED \<and>
    9/10 * 60 * (1 - pow2 (-51)) \<le> 60 \<and> (60 :: rat) \<le> 11/10 * 60 * (1 + pow2 (-51))"
proof -
  have lo: "pow2 (-900) \<le> 60" using pow2_mono [of "-900" 0] by simp
  have hi: "60 \<le> pow2 900" using pow2_mono [of 6 900] by simp
  have "verify [''KKC''] [''1'', ''2024'', ''60''] (sample_order ''11'' 60 BUY) ()
      = (Inr (setStatus VERIFIED (sample_order ''11'' 60 BUY)), ())"
    using sixty_in_band by (simp add: verify_def bnd_app stod_sixty in_band_def sample_order_def)
  from risk_band [OF _ _ lo hi _ _ this] show ?thesis
    by (simp add: stod_sixty sample_order_def getStatus_def setStatus_def)
qed

theorem reference_price_verified_witness:
  "verify [''KKC''] [''1'', ''2024'', ''60''] (sample_order ''11'' 60 BUY) ()
    = (Inr (setStatus VERIFIED (sample_order ''11'' 60 BUY)), ())"
proof -
  have "fl (of_nat 60) = of_nat 60" by (rule fl_of_nat) simp
  then have "is_double (Fin False 60)" by (simp add: max_finite_def)
  then show ?thesis
    using reference_price_verified [of "[''1'', ''2024'', ''60'']" 60 "sample_order ''11'' 60 BUY" "[''KKC'']"]
    by (simp add: stod_sixty sample_order_def)
qed

theorem serial_numbers_witness:
  "fst (take_serials 3 small_trader) = Inr [21474836481, 21474836482, 21474836483]"
  using serial_numbers [of 5 small_trader 3] by (simp add: small_trader_def upto.simps)

theorem load_exist_orders_witness:
  "\<exists>s1 s'. getExistOrder quiet_env (tr_db small_trader)
      (small_trader\<lparr>trace := trace small_trader @ [Log ''TD'' DEBUG ''(Trader) start load exist order'']\<rparr>) = (Inr [], s1)
    \<and> loadExistOrder quiet_env [] small_trader = (Inr (), s')"
proof -
  obtain s1 where g: "getExistOrder quiet_env (tr_db small_trader)
      (small_trader\<lparr>trace := trace small_trader @ [Log ''TD'' DEBUG ''(Trader) start load exist order'']\<rparr>) = (Inr [], s1)"
    by (simp add: getExistOrder_def select_rows_def small_trader_def small_server_def seq_def bnd_app
        mysql_query_def quiet_env_def)
  from load_exist_orders [OF this _ _ prod.collapse [symmetric], of "[]"] g show ?thesis
    by (metis le0 list.size(3) list.map(1) distinct.simps(1) prod.collapse)
qed


end
