(* ===== verification/System_Model.thy ===== *)
theory System_Model
  imports Trader_Facts
begin

section \<open>The threads of the server process together\<close>

text \<open>
  The process state is the trader with the program points of its threads: where the matching
  and the report thread are, and for every connection what its receiving thread keeps
  between two receptions and whether its heartbeat thread runs. One step is one turn of
  one thread (the matching and the report thread have finer steps); which thread moves,
  what the network delivers and where the allocator puts a new order is the action. A
  turn that faults ends the process: an exception that leaves a thread's function calls
  \<open>std::terminate\<close>.
\<close>

record process = trader +
  match_at :: match_pc
  report_at :: report_pc
  receivers :: "nat \<Rightarrow> (string \<times> string) option"
  beating :: "nat list"

datatype action =
    Accept int                      \<comment> \<open>\<open>acceptConn\<close>, with the result of \<open>accept\<close>\<close>
  | Receive nat "string option"     \<comment> \<open>\<open>msgRecv\<close> of a connection, with the result of \<open>recv\<close>\<close>
  | Heartbeat nat                   \<comment> \<open>\<open>heartbeat\<close> of a connection\<close>
  | Take_order nat order            \<comment> \<open>\<open>getOrder\<close>, with the address and memory of \<open>new Order\<close>\<close>
  | Take_change                     \<comment> \<open>\<open>getCancelOrder\<close>\<close>
  | Match                           \<comment> \<open>\<open>matchup\<close>\<close>
  | Report_exec                     \<comment> \<open>\<open>generateExecReport\<close>\<close>

text \<open>An action of a thread that does not exist, or an address in use, is no step.\<close>

fun enabled :: "'a process_scheme \<Rightarrow> action \<Rightarrow> bool" where
  "enabled p (Accept _) = connStatus_m p"
| "enabled p (Receive a _) = (receivers p a \<noteq> None)"
| "enabled p (Heartbeat a) = (a \<in> set (beating p))"
| "enabled p (Take_order a _) = (order_heap p a = None)"
| "enabled p Take_change = True"
| "enabled p Match = True"
| "enabled p Report_exec = True"

fun act :: "env \<Rightarrow> action \<Rightarrow> ('a process_scheme, unit) cpp" where
  "act env (Accept connfd) =
     bnd (acceptConn_turn env connfd) (\<lambda>c. case c of
       None \<Rightarrow> ret ()
     | Some a \<Rightarrow> upd (\<lambda>p. p\<lparr>receivers := (receivers p)(a \<mapsto> ([], [])), beating := a # beating p\<rparr>))"
| "act env (Receive a received) =
     bnd (get (\<lambda>p. receivers p a)) (\<lambda>regs. case regs of
       None \<Rightarrow> ret ()
     | Some r \<Rightarrow> bnd (msgRecv_turn env a received r) (\<lambda>r'.
         upd (\<lambda>p. p\<lparr>receivers := (receivers p)(a := r')\<rparr>)))"
| "act env (Heartbeat a) =
     bnd (heartbeat_turn env a) (\<lambda>go.
       if go then ret () else upd (\<lambda>p. p\<lparr>beating := filter (\<lambda>b. b \<noteq> a) (beating p)\<rparr>))"
| "act env (Take_order a memory) = bnd (getOrder_turn env a memory) (\<lambda>_. ret ())"
| "act env Take_change = bnd (getCancelOrder_turn env) (\<lambda>_. ret ())"
| "act env Match =
     bnd (get match_at) (\<lambda>pc. bnd (matchup_step pc) (\<lambda>pc'. upd (\<lambda>p. p\<lparr>match_at := pc'\<rparr>)))"
| "act env Report_exec =
     bnd (get report_at) (\<lambda>pc. bnd (generateExecReport_step env pc) (\<lambda>pc'. upd (\<lambda>p. p\<lparr>report_at := pc'\<rparr>)))"

inductive step :: "env \<Rightarrow> action \<Rightarrow> 'a process_scheme \<Rightarrow> 'a process_scheme \<Rightarrow> bool" for env where
  step: "enabled p a \<Longrightarrow> act env a p = (Inr (), p') \<Longrightarrow> step env a p p'"

inductive_cases stepE: "step env a p p'"

inductive reachable :: "env \<Rightarrow> 'a process_scheme \<Rightarrow> 'a process_scheme \<Rightarrow> bool" for env p0 where
  start: "reachable env p0 p0"
| further: "reachable env p0 p \<Longrightarrow> step env a p p' \<Longrightarrow> reachable env p0 p'"

text \<open>The state right after the threads have been started.\<close>

definition started :: "'a process_scheme \<Rightarrow> bool" where
  "started p \<longleftrightarrow> traderstatus_m p \<and> connStatus_m p \<and> od_ptr p = None \<and> rawBuyside_m p = [] \<and> rawSellside_m p = []
     \<and> reportList_m p = [] \<and> cv_m p = False \<and> match_at p = At_start \<and> report_at p = Report_poll
     \<and> (\<forall>a. receivers p a = None) \<and> beating p = [] \<and> connStorage_m p = [] \<and> conn_heap p = []
     \<and> (\<exists>st. quotesList p = [(''KKC'', Some st)] \<and> quote_ok st)
     \<and> (\<forall>a \<in> set (buyside_m p @ sellside_m p). order_heap p a \<noteq> None) \<and> ordered (userList p)"

end
