(* ===== verification/System_Facts.thy ===== *)
theory System_Facts
  imports System_Model
begin

section \<open>What holds in every reachable state\<close>

text \<open>
  Invariants of the running process, by rule induction over its steps: the books, the
  reports and the quotes are consistent, so the matching and the report thread never
  touch memory that is not theirs; who is logged in has a known user name; and a chosen
  pair waits until another order arrives.
\<close>

subsection \<open>Operations of the server leave the trader alone\<close>

text \<open>
  A property is stable when it survives every kind of change the server's own operations
  make: of the log, of connections and their map, of users and queues, and a null entry
  for a symbol that has no quote.
\<close>

definition stable :: "('a server_scheme \<Rightarrow> bool) \<Rightarrow> bool" where
  "stable I \<longleftrightarrow> (\<forall>s. I s \<longrightarrow>
     (\<forall>t. I (s\<lparr>trace := t\<rparr>)) \<and> (\<forall>h. I (s\<lparr>conn_heap := h\<rparr>)) \<and> (\<forall>m. I (s\<lparr>connStorage_m := m\<rparr>))
     \<and> (\<forall>u. I (s\<lparr>userList := u\<rparr>)) \<and> (\<forall>q. I (s\<lparr>dq := q\<rparr>)) \<and> (\<forall>q. I (s\<lparr>dq_orderhandle := q\<rparr>))
     \<and> I (s\<lparr>connStatus_m := True\<rparr>)
     \<and> (\<forall>k. map_find (quotesList s) k = None \<longrightarrow> I (s\<lparr>quotesList := map_insert k None (quotesList s)\<rparr>)))"

lemma stableD:
  assumes "stable I" and "I s"
  shows "I (s\<lparr>trace := t\<rparr>)" and "I (s\<lparr>conn_heap := h\<rparr>)" and "I (s\<lparr>connStorage_m := m\<rparr>)"
    and "I (s\<lparr>userList := u\<rparr>)" and "I (s\<lparr>dq := q\<rparr>)" and "I (s\<lparr>dq_orderhandle := q\<rparr>)"
    and "I (s\<lparr>connStatus_m := True\<rparr>)"
    and "map_find (quotesList s) k = None \<Longrightarrow> I (s\<lparr>quotesList := map_insert k None (quotesList s)\<rparr>)"
  using assms by (simp_all add: stable_def)

lemma stable_trace_free: "stable I \<Longrightarrow> trace_free I"
  by (simp add: stable_def trace_free_def)

text \<open>
  A steady property survives the same changes as far as the server makes them: the status
  of a connection, a new connection, a login with a known name, a null or valid entry in
  the map of connections, a removed entry, a new user.
\<close>

definition steady :: "env \<Rightarrow> ('a server_scheme \<Rightarrow> bool) \<Rightarrow> bool" where
  "steady env I \<longleftrightarrow> (\<forall>s. I s \<longrightarrow>
     (\<forall>t. I (s\<lparr>trace := t\<rparr>))
     \<and> (\<forall>a b. a < length (conn_heap s) \<longrightarrow>
          I (s\<lparr>conn_heap := (conn_heap s)[a := (conn_heap s ! a)\<lparr>recvStatus_m := b\<rparr>]\<rparr>))
     \<and> (\<forall>fd k t. 0 \<le> k \<and> k < 99 \<longrightarrow>
          I (s\<lparr>conn_heap := conn_heap s @ [Connection fd k (junk_bool env t)],
               connStorage_m := map_insert k (Some (length (conn_heap s))) (connStorage_m s)\<rparr>))
     \<and> (\<forall>a u. a < length (conn_heap s) \<and> map_find (userList s) u \<noteq> None \<longrightarrow>
          I (s\<lparr>conn_heap := (conn_heap s)[a := (conn_heap s ! a)\<lparr>login_flag_m := True, username := u\<rparr>]\<rparr>))
     \<and> (\<forall>k. map_find (connStorage_m s) k = None \<longrightarrow> I (s\<lparr>connStorage_m := map_insert k None (connStorage_m s)\<rparr>))
     \<and> (\<forall>k. I (s\<lparr>connStorage_m := map_erase k (connStorage_m s)\<rparr>))
     \<and> (\<forall>u ud. I (s\<lparr>userList := map_insert u ud (userList s)\<rparr>))
     \<and> (\<forall>q. I (s\<lparr>dq := q\<rparr>)) \<and> (\<forall>q. I (s\<lparr>dq_orderhandle := q\<rparr>)) \<and> I (s\<lparr>connStatus_m := True\<rparr>)
     \<and> (\<forall>k. map_find (quotesList s) k = None \<longrightarrow> I (s\<lparr>quotesList := map_insert k None (quotesList s)\<rparr>)))"

lemma steady_stable: "stable I \<Longrightarrow> steady env I"
  unfolding steady_def
proof (intro allI impI conjI)
  fix s :: "'a server_scheme"
  assume I: "stable I" "I s"
  note keep = stableD [OF I]
  show "I (s\<lparr>conn_heap := conn_heap s @ [Connection fd k (junk_bool env t)],
      connStorage_m := map_insert k (Some (length (conn_heap s))) (connStorage_m s)\<rparr>)" for fd k t
    by (rule stableD(3) [OF I(1) keep(2)])
qed (auto intro: stableD)

lemma steadyD:
  assumes "steady env I" and "I s"
  shows "I (s\<lparr>trace := t\<rparr>)"
    and "a < length (conn_heap s) \<Longrightarrow> I (s\<lparr>conn_heap := (conn_heap s)[a := (conn_heap s ! a)\<lparr>recvStatus_m := b\<rparr>]\<rparr>)"
    and "0 \<le> k \<Longrightarrow> k < 99 \<Longrightarrow> I (s\<lparr>conn_heap := conn_heap s @ [Connection fd k (junk_bool env t)],
               connStorage_m := map_insert k (Some (length (conn_heap s))) (connStorage_m s)\<rparr>)"
    and "a < length (conn_heap s) \<Longrightarrow> map_find (userList s) u \<noteq> None \<Longrightarrow>
          I (s\<lparr>conn_heap := (conn_heap s)[a := (conn_heap s ! a)\<lparr>login_flag_m := True, username := u\<rparr>]\<rparr>)"
    and "map_find (connStorage_m s) k' = None \<Longrightarrow> I (s\<lparr>connStorage_m := map_insert k' None (connStorage_m s)\<rparr>)"
    and "I (s\<lparr>connStorage_m := map_erase k' (connStorage_m s)\<rparr>)"
    and "I (s\<lparr>userList := map_insert u ud (userList s)\<rparr>)"
    and "I (s\<lparr>dq := q\<rparr>)" and "I (s\<lparr>dq_orderhandle := q\<rparr>)" and "I (s\<lparr>connStatus_m := True\<rparr>)"
    and "map_find (quotesList s) sy = None \<Longrightarrow> I (s\<lparr>quotesList := map_insert sy None (quotesList s)\<rparr>)"
proof -
  note all = assms(1) [unfolded steady_def, rule_format, OF assms(2)]
  note rest = all [THEN conjunct2]
  note rest2 = rest [THEN conjunct2]
  note rest3 = rest2 [THEN conjunct2]
  note rest4 = rest3 [THEN conjunct2]
  note rest5 = rest4 [THEN conjunct2]
  note rest6 = rest5 [THEN conjunct2]
  note rest7 = rest6 [THEN conjunct2]
  note rest8 = rest7 [THEN conjunct2]
  note rest9 = rest8 [THEN conjunct2]
  show "I (s\<lparr>trace := t\<rparr>)" by (rule all [THEN conjunct1, rule_format])
  show "a < length (conn_heap s) \<Longrightarrow> I (s\<lparr>conn_heap := (conn_heap s)[a := (conn_heap s ! a)\<lparr>recvStatus_m := b\<rparr>]\<rparr>)"
    by (rule rest [THEN conjunct1, rule_format])
  show "0 \<le> k \<Longrightarrow> k < 99 \<Longrightarrow> I (s\<lparr>conn_heap := conn_heap s @ [Connection fd k (junk_bool env t)],
               connStorage_m := map_insert k (Some (length (conn_heap s))) (connStorage_m s)\<rparr>)"
    by (rule rest2 [THEN conjunct1, rule_format]) simp
  show "a < length (conn_heap s) \<Longrightarrow> map_find (userList s) u \<noteq> None \<Longrightarrow>
          I (s\<lparr>conn_heap := (conn_heap s)[a := (conn_heap s ! a)\<lparr>login_flag_m := True, username := u\<rparr>]\<rparr>)"
    by (rule rest3 [THEN conjunct1, rule_format]) simp
  show "map_find (connStorage_m s) k' = None \<Longrightarrow> I (s\<lparr>connStorage_m := map_insert k' None (connStorage_m s)\<rparr>)"
    by (rule rest4 [THEN conjunct1, rule_format])
  show "I (s\<lparr>connStorage_m := map_erase k' (connStorage_m s)\<rparr>)"
    by (rule rest5 [THEN conjunct1, rule_format])
  show "I (s\<lparr>userList := map_insert u ud (userList s)\<rparr>)"
    by (rule rest6 [THEN conjunct1, rule_format])
  show "I (s\<lparr>dq := q\<rparr>)" by (rule rest7 [THEN conjunct1, rule_format])
  show "I (s\<lparr>dq_orderhandle := q\<rparr>)" by (rule rest8 [THEN conjunct1, rule_format])
  show "I (s\<lparr>connStatus_m := True\<rparr>)" by (rule rest9 [THEN conjunct1])
  show "map_find (quotesList s) sy = None \<Longrightarrow> I (s\<lparr>quotesList := map_insert sy None (quotesList s)\<rparr>)"
    by (rule rest9 [THEN conjunct2, rule_format])
qed

lemma steady_trace_free: "steady env I \<Longrightarrow> trace_free I"
  by (simp add: trace_free_def steadyD(1))

lemma preserves_option [keeps]:
  "preserves I m \<Longrightarrow> (\<And>y. preserves I (f y)) \<Longrightarrow> preserves I (case v of None \<Rightarrow> m | Some y \<Rightarrow> f y)"
  by (cases v) simp_all

lemma preserves_prod [keeps]: "preserves I (f (fst v) (snd v)) \<Longrightarrow> preserves I (case v of (x, y) \<Rightarrow> f x y)"
  by (cases v) simp

lemma preserves_list [keeps]:
  "preserves I m \<Longrightarrow> (\<And>y ys. preserves I (f y ys)) \<Longrightarrow> preserves I (case v of [] \<Rightarrow> m | y # ys \<Rightarrow> f y ys)"
  by (cases v) simp_all

lemma steady_sr_log [keeps]: "steady env I \<Longrightarrow> preserves I (sr_log lvl doc)"
  by (simp add: sr_log_def preserves_log_free steady_trace_free)

lemma steady_deref_conn [keeps]: "preserves I (deref_conn a)"
  unfolding deref_conn_def by (intro keeps)

lemma steady_conn_sendto [keeps]:
  assumes "steady env I" shows "preserves I (conn_sendto env a str)"
proof (rule preservesI)
  fix s :: "'a server_scheme"
  assume I: "I s"
  show "I (snd (conn_sendto env a str s))"
  proof (cases "a < length (conn_heap s)")
    case True
    let ?t = "trace s @ [Send (connection_socket_m (conn_heap s ! a)) (send_block env (trace s) str)]"
    obtain b where "after_send env (trace s) str (conn_heap s ! a) = (conn_heap s ! a)\<lparr>recvStatus_m := b\<rparr>"
      using after_send_flag by blast
    moreover have "a < length (conn_heap (s\<lparr>trace := ?t\<rparr>))" using True by simp
    ultimately show ?thesis
      using steadyD(2) [OF assms steadyD(1) [OF assms I, of ?t], of a b] by (simp add: conn_sendto_app True)
  next
    case False
    then show ?thesis using I by (simp add: conn_sendto_def bnd_app deref_conn_app)
  qed
qed

lemma steady_conn_recvfrom [keeps]:
  assumes "steady env I" shows "preserves I (conn_recvfrom a r str)"
proof (rule preservesI)
  fix s :: "'a server_scheme"
  assume I: "I s"
  show "I (snd (conn_recvfrom a r str s))"
  proof (cases "a < length (conn_heap s)")
    case True
    let ?c = "conn_heap s ! a"
    have "snd (recvfrom r str ?c) = ?c\<lparr>recvStatus_m := False\<rparr>
        \<or> snd (recvfrom r str ?c) = ?c\<lparr>recvStatus_m := recvStatus_m ?c\<rparr>"
      by (cases r; cases "the r") (auto simp: recvfrom_def seq_def bnd_app getRecvStatus_def setRecvStatus_def)
    then obtain b where "snd (recvfrom r str ?c) = ?c\<lparr>recvStatus_m := b\<rparr>" by blast
    then show ?thesis
      using steadyD(2) [OF assms I True, of b] True
      by (cases "recvfrom r str ?c") (simp add: conn_recvfrom_def bnd_app deref_conn_app zoom_def)
  next
    case False
    then show ?thesis using I by (simp add: conn_recvfrom_def bnd_app deref_conn_app)
  qed
qed

lemma steady_getConnObject [keeps]:
  assumes "steady env I" shows "preserves I (getConnObject k)"
proof (rule preservesI)
  fix s :: "'a server_scheme"
  assume "I s"
  then show "I (snd (getConnObject k s))"
    using steadyD(5) [OF assms] by (cases "map_find (connStorage_m s) k") (simp_all add: getConnObject_app)
qed

lemma steady_sendToClient [keeps]: "steady env I \<Longrightarrow> preserves I (sendToClient env k msg)"
  unfolding sendToClient_def by (intro keeps)

lemma steady_free_from: "steady env I \<Longrightarrow> preserves I (free_from es)"
proof (induction es rule: length_induct)
  case (1 es)
  then have IH: "length xs < length es \<Longrightarrow> preserves I (free_from xs)" for xs by simp
  have erase: "preserves I (upd (\<lambda>s. s\<lparr>connStorage_m := map_erase k (connStorage_m s)\<rparr>))" for k
    by (rule preserves_upd) (rule steadyD(6) [OF 1(2)])
  show ?case
  proof (cases es)
    case (Cons e rest)
    obtain k q where e: "e = (k, q)" by force
    have IHs: "preserves I (free_from rest)" "preserves I (free_from (tl rest))"
      by (rule IH, simp add: Cons)+
    show ?thesis
    proof (cases rest)
      case Nil
      then show ?thesis using 1 IHs(1)
        by (simp only: Cons e free_from.simps list.case) (intro keeps erase; auto intro: keeps)
    next
      case (Cons e' rest')
      then show ?thesis using 1 IHs
        by (simp only: \<open>es = e # rest\<close> e free_from.simps list.case list.sel) (intro keeps erase; auto)
    qed
  qed (simp only: free_from.simps, rule preserves_ret)
qed

lemma steady_freeEmptysocket [keeps]: "steady env I \<Longrightarrow> preserves I freeEmptysocket"
  unfolding freeEmptysocket_def by (intro keeps steady_free_from)

lemma steady_deref_quote [keeps]:
  assumes "steady env I" shows "preserves I (deref_quote k)"
proof (rule preservesI)
  fix s :: "'a server_scheme"
  assume "I s"
  then show "I (snd (deref_quote k s))"
    using steadyD(11) [OF assms]
    by (cases "map_find (quotesList s) k")
       (auto simp: deref_quote_def map_subscript_def bnd_app seq_def split: option.splits)
qed

lemma steady_quote_reply [keeps]: "steady env I \<Longrightarrow> preserves I (quote_reply env msg)"
  unfolding quote_reply_def Let_def by (intro keeps)

lemma steady_queues:
  "steady env I \<Longrightarrow> preserves I (zoom dq (\<lambda>q s. s\<lparr>dq := q\<rparr>) m)"
  "steady env I \<Longrightarrow> preserves I (zoom dq_orderhandle (\<lambda>q s. s\<lparr>dq_orderhandle := q\<rparr>) m)"
  by (rule preserves_zoom, erule (1) steadyD)+

lemma steady_msgHandler [keeps]: "steady env I \<Longrightarrow> preserves I (msgHandler env msg)"
  unfolding msgHandler_def by (intro keeps steady_queues)

lemma steady_login_attempt:
  assumes "steady env I" shows "preserves I (login_attempt env res a)"
proof (rule preservesI)
  fix s :: "'a server_scheme"
  assume I: "I s"
  show "I (snd (login_attempt env res a s))"
  proof (cases "userList s \<noteq> [] \<and> 2 < length res")
    case True
    then have "\<exists>x u p rest. res = x # u # p # rest"
      by (cases res; cases "tl res"; cases "tl (tl res)") auto
    then obtain x u p rest where res: "res = x # u # p # rest" by blast
    show ?thesis
    proof (cases "map_find (userList s) u")
      case None
      then show ?thesis using True I by (simp add: login_attempt_def bnd_app res)
    next
      case (Some ud)
      show ?thesis
      proof (cases "password ud = p \<and> a < length (conn_heap s)")
        case True
        obtain tr c where run: "login_attempt env (x # u # p # rest) a s
            = (Inr (), s\<lparr>trace := tr, conn_heap := (conn_heap s)[a := c]\<rparr>)"
          and c: "login_flag_m c" "username c = u" "connectionID_m c = connectionID_m (conn_heap s ! a)"
            "connection_socket_m c = connection_socket_m (conn_heap s ! a)"
          by (rule login_attempt_success [of a s u ud p env x rest]) (use True Some in simp_all)
        let ?s1 = "s\<lparr>trace := tr\<rparr>"
        let ?s2 = "?s1\<lparr>conn_heap := (conn_heap ?s1)[a := (conn_heap ?s1 ! a)\<lparr>recvStatus_m := recvStatus_m c\<rparr>]\<rparr>"
        have "I ?s1" by (rule steadyD(1) [OF assms I])
        then have "I ?s2" by (rule steadyD(2) [OF assms]) (use True in simp)
        then have "I (?s2\<lparr>conn_heap := (conn_heap ?s2)[a := (conn_heap ?s2 ! a)\<lparr>login_flag_m := True, username := u\<rparr>]\<rparr>)"
          by (rule steadyD(4) [OF assms]) (use True Some in simp_all)
        moreover have "(conn_heap ?s2 ! a)\<lparr>login_flag_m := True, username := u\<rparr> = c"
          using c True by (cases c, cases "conn_heap s ! a") simp
        ultimately show ?thesis using run by (simp add: res)
      next
        case wrong: False
        show ?thesis
        proof (cases "password ud = p")
          case False
          then show ?thesis using True Some I by (simp add: login_attempt_def bnd_app res)
        next
          case p: True
          then have "login_attempt env res a s = (Inl (Undefined Dangling),
              s\<lparr>trace := trace s @ [Log ''SR'' DEBUG ''(Server) login success'']\<rparr>)"
            using wrong True Some by (simp add: login_attempt_def seq_def bnd_app res conn_sendto_def deref_conn_app)
          then show ?thesis using steadyD(1) [OF assms I] by simp
        qed
      qed
    qed
  next
    case False
    show ?thesis
    proof (cases "userList s = []")
      case True
      then show ?thesis using I by (simp add: login_attempt_def bnd_app)
    next
      case ne: False
      show ?thesis
      proof (cases "1 < length res")
        case True
        then show ?thesis using False ne I
          by (cases "map_find (userList s) (res ! 1)") (simp_all add: login_attempt_def bnd_app)
      next
        case short: False
        then show ?thesis using ne I by (simp add: login_attempt_def bnd_app)
      qed
    qed
  qed
qed

lemma steady_register:
  assumes "steady env I" shows "preserves I (register_user env msg)"
proof -
  have add: "preserves I (upd (\<lambda>s. s\<lparr>userList := map_insert u ud (userList s)\<rparr>))" for u ud
    by (rule preserves_upd) (rule steadyD(7) [OF assms])
  show ?thesis
    unfolding register_user_def Let_def
    by (intro keeps add steady_trace_free [OF assms] steady_sr_log [OF assms])
qed

lemma steady_login [keeps]: "steady env I \<Longrightarrow> preserves I (loginMsgHandle env msg a)"
  unfolding loginMsgHandle_def Let_def by (intro keeps steady_login_attempt steady_register)

lemma steady_handle_frame [keeps]: "steady env I \<Longrightarrow> preserves I (handle_frame env a sub)"
  unfolding handle_frame_def by (intro keeps)

lemma steady_getconnStatus [keeps]: "preserves I getconnStatus"
  unfolding getconnStatus_def by (intro keeps)

lemma steady_msgRecv [keeps]: "steady env I \<Longrightarrow> preserves I (msgRecv_turn env a received regs)"
  unfolding msgRecv_turn_def Let_def by (intro keeps)

lemma steady_acceptConn [keeps]:
  assumes "steady env I" shows "preserves I (acceptConn_turn env connfd)"
proof (rule preservesI)
  fix s :: "'a server_scheme"
  assume I: "I s"
  show "I (snd (acceptConn_turn env connfd s))"
  proof (cases "connfd = -1")
    case True
    then show ?thesis using steadyD(1) [OF assms I] by (simp add: acceptConn_turn_def seq_def bnd_app)
  next
    case False
    let ?k = "rand env (trace s) mod 99" and ?s1 = "s\<lparr>connStatus_m := True\<rparr>"
    have "I ?s1" by (rule steadyD(10) [OF assms I])
    then have "I (?s1\<lparr>conn_heap := conn_heap ?s1 @ [Connection connfd ?k (junk_bool env (trace s))],
        connStorage_m := map_insert ?k (Some (length (conn_heap ?s1))) (connStorage_m ?s1)\<rparr>)"
      by (rule steadyD(3) [OF assms]) simp_all
    from steadyD(1) [OF assms this] show ?thesis
      using False by (simp add: acceptConn_turn_def seq_def bnd_app setconnStatus_def)
  qed
qed

lemma steady_heartbeat [keeps]: "steady env I \<Longrightarrow> preserves I (heartbeat_turn env a)"
  unfolding heartbeat_turn_def by (intro keeps)

lemma steady_insertOrderToDB [keeps]: "steady env I \<Longrightarrow> preserves I (insertOrderToDB env od)"
  unfolding insertOrderToDB_def by (intro keeps steady_trace_free)

subsection \<open>The books are consistent\<close>

definition quotes_ok :: "'a server_scheme \<Rightarrow> bool" where
  "quotes_ok s \<longleftrightarrow> ordered (quotesList s)
     \<and> (\<exists>st. map_find (quotesList s) ''KKC'' = Some (Some st) \<and> quote_ok st)"

definition matched_ok :: "'a trader_scheme \<Rightarrow> nat \<Rightarrow> side \<Rightarrow> bool" where
  "matched_ok s a sd \<longleftrightarrow> (\<exists>ord. order_heap s a = Some ord \<and> getside ord = sd \<and> \<not> is_nan (orderPrice ord))"

definition books :: "'a trader_scheme \<Rightarrow> bool" where
  "books s \<longleftrightarrow> sorted_wrt (<) (rawBuyside_m s) \<and> sorted_wrt (<) (rawSellside_m s)
     \<and> (\<forall>a \<in> set (rawBuyside_m s). matched_ok s a BUY) \<and> (\<forall>a \<in> set (rawSellside_m s). matched_ok s a SELL)
     \<and> (\<forall>a \<in> set (buyside_m s) \<union> set (sellside_m s). order_heap s a \<noteq> None
          \<and> a \<notin> set (rawBuyside_m s) \<and> a \<notin> set (rawSellside_m s))
     \<and> (\<forall>a \<in> set (reportList_m s). order_heap s a \<noteq> None)
     \<and> (\<forall>a. od_ptr s = Some a \<longrightarrow> order_heap s a \<noteq> None)
     \<and> (od_ptr s = None \<longrightarrow> rawBuyside_m s = [] \<and> rawSellside_m s = [])"

definition chosen :: "'a process_scheme \<Rightarrow> bool" where
  "chosen p \<longleftrightarrow> (\<forall>b sl. match_at p = At_match b sl \<longrightarrow> b \<in> set (rawBuyside_m p) \<and> sl \<in> set (rawSellside_m p))"

definition popping :: "'a process_scheme \<Rightarrow> bool" where
  "popping p \<longleftrightarrow> (report_at p = Report_pop \<longrightarrow> reportList_m p \<noteq> [])"

definition consistent :: "'a process_scheme \<Rightarrow> bool" where
  "consistent p \<longleftrightarrow> books p \<and> quotes_ok p \<and> chosen p \<and> popping p"

lemma quotes_ok_insert_null:
  assumes "quotes_ok s" and "map_find (quotesList s) k = None"
  shows "quotes_ok (s\<lparr>quotesList := map_insert k None (quotesList s)\<rparr>)"
  using assms smap.invar_insert_new smap.find_insert_new [of "quotesList s" k None]
  by (auto simp: quotes_ok_def)

lemma stable_quotes_ok: "stable quotes_ok"
  unfolding stable_def using quotes_ok_insert_null by (auto simp: quotes_ok_def)

lemma books_server [simp]:
  "books (s\<lparr>trace := t\<rparr>) = books s" "books (s\<lparr>conn_heap := h\<rparr>) = books s"
  "books (s\<lparr>connStorage_m := m\<rparr>) = books s" "books (s\<lparr>userList := u\<rparr>) = books s"
  "books (s\<lparr>dq := q\<rparr>) = books s" "books (s\<lparr>dq_orderhandle := q\<rparr>) = books s"
  "books (s\<lparr>connStatus_m := c\<rparr>) = books s" "books (s\<lparr>quotesList := ql\<rparr>) = books s"
  "books (s\<lparr>sideFlag := sf\<rparr>) = books s" "books (s\<lparr>nid_sub2 := n\<rparr>) = books s" "books (s\<lparr>cv_m := c\<rparr>) = books s"
  by (simp_all add: books_def matched_ok_def)

lemma chosen_server [simp]:
  "chosen (s\<lparr>trace := t\<rparr>) = chosen s" "chosen (s\<lparr>conn_heap := h\<rparr>) = chosen s"
  "chosen (s\<lparr>connStorage_m := m\<rparr>) = chosen s" "chosen (s\<lparr>userList := u\<rparr>) = chosen s"
  "chosen (s\<lparr>dq := q\<rparr>) = chosen s" "chosen (s\<lparr>dq_orderhandle := q\<rparr>) = chosen s"
  "chosen (s\<lparr>connStatus_m := c\<rparr>) = chosen s" "chosen (s\<lparr>quotesList := ql\<rparr>) = chosen s"
  "chosen (s\<lparr>sideFlag := sf\<rparr>) = chosen s" "chosen (s\<lparr>nid_sub2 := n\<rparr>) = chosen s" "chosen (s\<lparr>cv_m := c\<rparr>) = chosen s"
  "chosen (s\<lparr>od_ptr := o'\<rparr>) = chosen s" "chosen (s\<lparr>order_heap := oh\<rparr>) = chosen s"
  "chosen (s\<lparr>buyside_m := b\<rparr>) = chosen s" "chosen (s\<lparr>sellside_m := b\<rparr>) = chosen s"
  by (simp_all add: chosen_def)

lemma popping_server [simp]:
  "popping (s\<lparr>trace := t\<rparr>) = popping s" "popping (s\<lparr>conn_heap := h\<rparr>) = popping s"
  "popping (s\<lparr>connStorage_m := m\<rparr>) = popping s" "popping (s\<lparr>userList := u\<rparr>) = popping s"
  "popping (s\<lparr>dq := q\<rparr>) = popping s" "popping (s\<lparr>dq_orderhandle := q\<rparr>) = popping s"
  "popping (s\<lparr>connStatus_m := c\<rparr>) = popping s" "popping (s\<lparr>quotesList := ql\<rparr>) = popping s"
  "popping (s\<lparr>sideFlag := sf\<rparr>) = popping s" "popping (s\<lparr>nid_sub2 := n\<rparr>) = popping s" "popping (s\<lparr>cv_m := c\<rparr>) = popping s"
  "popping (s\<lparr>od_ptr := o'\<rparr>) = popping s" "popping (s\<lparr>order_heap := oh\<rparr>) = popping s"
  "popping (s\<lparr>buyside_m := b\<rparr>) = popping s" "popping (s\<lparr>sellside_m := b\<rparr>) = popping s"
  "popping (s\<lparr>rawBuyside_m := b\<rparr>) = popping s" "popping (s\<lparr>rawSellside_m := b\<rparr>) = popping s"
  by (simp_all add: popping_def)

lemma quotes_ok_trader [simp]:
  "quotes_ok (s\<lparr>trace := t\<rparr>) = quotes_ok s" "quotes_ok (s\<lparr>conn_heap := h\<rparr>) = quotes_ok s"
  "quotes_ok (s\<lparr>connStorage_m := m\<rparr>) = quotes_ok s" "quotes_ok (s\<lparr>userList := u\<rparr>) = quotes_ok s"
  "quotes_ok (s\<lparr>dq := q\<rparr>) = quotes_ok s" "quotes_ok (s\<lparr>dq_orderhandle := q\<rparr>) = quotes_ok s"
  "quotes_ok (s\<lparr>connStatus_m := c\<rparr>) = quotes_ok s"
  by (simp_all add: quotes_ok_def)

lemma quotes_ok_trader' [simp]:
  "quotes_ok (s'\<lparr>sideFlag := sf\<rparr>) = quotes_ok s'" "quotes_ok (s'\<lparr>nid_sub2 := n\<rparr>) = quotes_ok s'"
  "quotes_ok (s'\<lparr>cv_m := c\<rparr>) = quotes_ok s'" "quotes_ok (s'\<lparr>od_ptr := o'\<rparr>) = quotes_ok s'"
  "quotes_ok (s'\<lparr>order_heap := oh\<rparr>) = quotes_ok s'" "quotes_ok (s'\<lparr>buyside_m := b\<rparr>) = quotes_ok s'"
  "quotes_ok (s'\<lparr>sellside_m := b\<rparr>) = quotes_ok s'" "quotes_ok (s'\<lparr>rawBuyside_m := b\<rparr>) = quotes_ok s'"
  "quotes_ok (s'\<lparr>rawSellside_m := b\<rparr>) = quotes_ok s'" "quotes_ok (s'\<lparr>reportList_m := b\<rparr>) = quotes_ok s'"
  by (simp_all add: quotes_ok_def)

lemma stable_consistent: "stable consistent"
  unfolding stable_def using quotes_ok_insert_null by (auto simp: consistent_def)

subsection \<open>Taking in an order keeps them so\<close>

text \<open>An order in the making: at its address, in no book.\<close>

definition draft :: "nat \<Rightarrow> order \<Rightarrow> 'a process_scheme \<Rightarrow> bool" where
  "draft a ord s \<longleftrightarrow> consistent s \<and> order_heap s a = Some ord \<and> od_ptr s = Some a
     \<and> a \<notin> set (rawBuyside_m s) \<union> set (rawSellside_m s) \<union> set (buyside_m s) \<union> set (sellside_m s)"

lemma draft_consistent: "draft a ord s \<Longrightarrow> consistent s"
  by (simp add: draft_def)

lemma stable_draft: "stable (draft a ord)"
  unfolding stable_def
proof (intro allI impI conjI)
  fix s :: "'a process_scheme"
  assume d: "draft a ord s"
  then have c: "consistent s" by (rule draft_consistent)
  note keep = stableD [OF stable_consistent c]
  show "draft a ord (s\<lparr>trace := t\<rparr>)" for t using d keep(1) by (simp add: draft_def)
  show "draft a ord (s\<lparr>conn_heap := h\<rparr>)" for h using d keep(2) by (simp add: draft_def)
  show "draft a ord (s\<lparr>connStorage_m := m\<rparr>)" for m using d keep(3) by (simp add: draft_def)
  show "draft a ord (s\<lparr>userList := u\<rparr>)" for u using d keep(4) by (simp add: draft_def)
  show "draft a ord (s\<lparr>dq := q\<rparr>)" for q using d keep(5) by (simp add: draft_def)
  show "draft a ord (s\<lparr>dq_orderhandle := q\<rparr>)" for q using d keep(6) by (simp add: draft_def)
  show "draft a ord (s\<lparr>connStatus_m := True\<rparr>)" using d keep(7) by (simp add: draft_def)
  show "draft a ord (s\<lparr>quotesList := map_insert k None (quotesList s)\<rparr>)" if "map_find (quotesList s) k = None" for k
    using d keep(8) [OF that] by (simp add: draft_def)
qed

lemma books_put:
  assumes "books s" and "a \<notin> set (rawBuyside_m s) \<union> set (rawSellside_m s)"
  shows "books (s\<lparr>order_heap := (order_heap s)(a \<mapsto> ord)\<rparr>)"
  using assms by (auto simp: books_def matched_ok_def)

lemma consistent_put:
  assumes "consistent s" and "a \<notin> set (rawBuyside_m s) \<union> set (rawSellside_m s)"
  shows "consistent (s\<lparr>order_heap := (order_heap s)(a \<mapsto> ord)\<rparr>)"
  using books_put [OF _ assms(2)] assms(1) by (simp add: consistent_def)

lemma draft_put [triples]: "triple (draft a ord) (put_order a ord') (\<lambda>_. draft a ord')"
proof (rule tripleI)
  fix s :: "'a process_scheme" and u s'
  assume d: "draft a ord s" and "put_order a ord' s = (Inr u, s')"
  then have s': "s' = s\<lparr>order_heap := (order_heap s)(a \<mapsto> ord')\<rparr>" by (simp add: put_order_app)
  from d show "draft a ord' s'" unfolding s' by (auto simp: draft_def intro: consistent_put)
qed

lemma sorted_insort: "sorted_wrt (<) xs \<Longrightarrow> (a :: nat) \<notin> set xs \<Longrightarrow> sorted_wrt (<) (insort a xs)"
  by (induction xs) (auto simp: set_insort_key)

lemma booked_consistent:
  assumes "draft a ord s" and "\<not> is_nan (orderPrice ord)" and "getside ord = BUY \<or> getside ord = SELL"
  shows "consistent (booked a ord s)"
proof -
  have b: "books s" and rest: "quotes_ok s" "chosen s" "popping s" and heap: "order_heap s a = Some ord" "od_ptr s = Some a"
    and new: "a \<notin> set (rawBuyside_m s) \<union> set (rawSellside_m s) \<union> set (buyside_m s) \<union> set (sellside_m s)"
    using assms(1) by (simp_all add: draft_def consistent_def)
  show ?thesis
  proof (cases "getside ord = BUY")
    case True
    then have m: "matched_ok s a BUY" using heap(1) assms(2) by (simp add: matched_ok_def)
    have "books (s\<lparr>rawBuyside_m := insort a (rawBuyside_m s)\<rparr>)"
      using b m new sorted_insort [of "rawBuyside_m s" a] heap(2)
      by (auto simp: books_def matched_ok_def set_insort_key)
    moreover have "chosen (s\<lparr>rawBuyside_m := insort a (rawBuyside_m s)\<rparr>)"
      using rest(2) by (auto simp: chosen_def set_insort_key)
    ultimately show ?thesis using True rest by (simp add: booked_def consistent_def)
  next
    case False
    then have m: "matched_ok s a SELL" using heap(1) assms(2,3) by (simp add: matched_ok_def)
    have "books (s\<lparr>rawSellside_m := insort a (rawSellside_m s)\<rparr>)"
      using b m new sorted_insort [of "rawSellside_m s" a] heap(2)
      by (auto simp: books_def matched_ok_def set_insort_key)
    moreover have "chosen (s\<lparr>rawSellside_m := insort a (rawSellside_m s)\<rparr>)"
      using rest(2) by (auto simp: chosen_def set_insort_key)
    ultimately show ?thesis using False rest by (simp add: booked_def consistent_def)
  qed
qed

lemma triple_generateNid: "triple (draft a ord) generateNid (\<lambda>_. draft a ord)"
proof (rule tripleI)
  fix s :: "'a process_scheme" and k s'
  assume d: "draft a ord s" and run: "generateNid s = (Inr k, s')"
  then have "s' = s\<lparr>nid_sub2 := nid_sub2 s + 1\<rparr>"
    by (cases "nid_sub2 s = 0x7FFFFFFF") (auto simp: generateNid_def next_nid_def bnd_app seq_def)
  then show "draft a ord s'" using d by (simp add: draft_def consistent_def)
qed

lemma triple_orderDataInsert:
  "\<not> is_nan (orderPrice ord) \<Longrightarrow> getside ord = BUY \<or> getside ord = SELL \<Longrightarrow>
    triple (draft a ord) (orderDataInsert a) (\<lambda>_. consistent)"
  unfolding triple_def
proof (intro allI impI)
  fix s :: "'a process_scheme" and u s'
  assume o: "\<not> is_nan (orderPrice ord)" "getside ord = BUY \<or> getside ord = SELL"
    and d: "draft a ord s" and run: "orderDataInsert a s = (Inr u, s')"
  have "order_heap s a = Some ord" using d by (simp add: draft_def)
  then show "consistent s'"
    using run booked_consistent [OF d o] by (auto simp: orderDataInsert_app intro: stableD(1) [OF stable_consistent])
qed

lemma triple_stable: "stable I \<Longrightarrow> (steady env I \<Longrightarrow> preserves I m) \<Longrightarrow> triple I m (\<lambda>_. I)"
  by (simp add: preserves_triple steady_stable)

lemma triple_sendToClient [triples]: "triple consistent (sendToClient env k msg) (\<lambda>_. consistent)"
  by (rule triple_stable [OF stable_consistent steady_sendToClient])

lemma triple_td_log [triples]: "stable I \<Longrightarrow> triple I (td_log lvl doc) (\<lambda>_. I)"
  unfolding td_log_def by (rule triple_stable) (simp_all add: preserves_log_free stable_trace_free)

lemma accept_order_triple:
  assumes "\<not> is_nan (orderPrice ord)" and "getside ord = BUY \<or> getside ord = SELL"
  shows "triple (draft a ord) (accept_order env a ord) (\<lambda>_. consistent)"
proof -
  have "triple (draft a ord) (put_order a ord' :: 'a process_scheme \<Rightarrow> _) (\<lambda>_. draft a ord')" for ord' by (rule draft_put)
  have side_flag: "triple (draft a ord') (upd (\<lambda>s. s\<lparr>sideFlag := sf\<rparr>) :: 'a process_scheme \<Rightarrow> _) (\<lambda>_. draft a ord')" for ord' sf
    by (rule triple_upd) (simp add: draft_def consistent_def)
  have db: "triple consistent (insertOrderToDB env x :: 'a process_scheme \<Rightarrow> _) (\<lambda>_. consistent)" for x
    by (rule triple_stable [OF stable_consistent steady_insertOrderToDB])
  show ?thesis
    unfolding accept_order_def Let_def
    by (rule triple_bnd [OF triple_generateNid] triple_seq [OF draft_put] triple_seq [OF side_flag]
        triple_seq [OF triple_orderDataInsert] triple_seq [OF triple_td_log [OF stable_consistent]]
        triple_bnd [OF db] triple_if triple_sendToClient | use assms in \<open>simp add: getside_def\<close>)+
qed

lemma triple_deref_conn [triples]: "triple I (deref_conn a) (\<lambda>_. I)"
  by (rule preserves_triple [OF steady_deref_conn])

lemma admit_order_triple:
  assumes "getside ord = BUY \<or> getside ord = SELL"
  shows "triple (draft a ord) (admit_order env a ord) (\<lambda>_. consistent)"
proof -
  have conn: "triple (draft a ord) (getConnObject k :: 'a process_scheme \<Rightarrow> _) (\<lambda>_. draft a ord)" for k
    by (rule triple_stable [OF stable_draft steady_getConnObject])
  have nan: "\<not> is_nan (orderPrice ord)" if "balance ud > orderPrice ord * literal 1000" for ud
    using less_imp_not_nan(1) [OF that] by (cases "orderPrice ord") auto
  have refuse: "triple (draft a ord) (seq (td_log lvl doc) (sendToClient env k m) :: 'a process_scheme \<Rightarrow> _) (\<lambda>_. consistent)"
    for lvl doc k m
    by (rule triple_seq [OF triple_td_log [OF stable_draft]], rule triple_weaken [OF triple_sendToClient])
       (auto dest: draft_consistent)
  show ?thesis
    unfolding admit_order_def
    by (rule triple_bnd [OF conn] triple_option triple_fail triple_bnd [OF triple_deref_conn] triple_get_bnd
        triple_if | rule triple_weaken [OF refuse], simp, simp
        | rule triple_weaken [OF accept_order_triple [OF nan assms]], assumption, simp, simp)+
qed

lemma fill_order_triple: "triple P (fill_order res ord) (\<lambda>x s. P s \<and> (getside x = BUY \<or> getside x = SELL))"
  unfolding fill_order_def
  by (intro triples) (auto simp: setSituation_def setside_def getside_def)

lemma verify_triple:
  "triple P (verify products basics ord) (\<lambda>x s. P s \<and> getside x = getside ord)"
  unfolding verify_def by (intro triples) (auto simp: setStatus_def getside_def)

lemma books_live:
  assumes "books s"
  shows "\<forall>x \<in> set (rawBuyside_m s) \<union> set (rawSellside_m s) \<union> set (buyside_m s) \<union> set (sellside_m s)
      \<union> set (reportList_m s). order_heap s x \<noteq> None"
  using assms unfolding books_def matched_ok_def by (metis Un_iff option.distinct(1))

lemma new_draft:
  assumes "consistent s" and "order_heap s a = None"
  shows "draft a ord (s\<lparr>od_ptr := Some a, order_heap := (order_heap s)(a \<mapsto> ord)\<rparr>)"
proof -
  have b: "books s" using assms(1) by (simp add: consistent_def)
  then have new: "a \<notin> set (rawBuyside_m s) \<union> set (rawSellside_m s) \<union> set (buyside_m s) \<union> set (sellside_m s)"
    using assms(2) books_live [OF b] by blast
  have "books (s\<lparr>order_heap := (order_heap s)(a \<mapsto> ord)\<rparr>)" using books_put [OF b] new by simp
  then have "books (s\<lparr>od_ptr := Some a, order_heap := (order_heap s)(a \<mapsto> ord)\<rparr>)"
    by (auto simp: books_def matched_ok_def)
  then show ?thesis using assms(1) new by (simp add: draft_def consistent_def)
qed

lemma handle_order_triple:
  "triple (\<lambda>s. consistent s \<and> order_heap s a = None) (handle_order env a memory res) (\<lambda>_. consistent)"
proof (rule tripleI, elim conjE)
  fix s s' :: "'a process_scheme" and x
  assume s: "consistent s" "order_heap s a = None" and run: "handle_order env a memory res s = (Inr x, s')"
  let ?s1 = "s\<lparr>od_ptr := Some a, order_heap := (order_heap s)(a \<mapsto> Order memory)\<rparr>"
  let ?rest = "bnd (fill_order res (Order memory)) (\<lambda>ord.
     seq (put_order a ord)
    (bnd (get (\<lambda>s. (productList s, tradeBasicData s))) (\<lambda>(products, basics).
     bnd (verify products basics ord) (\<lambda>ord.
     seq (put_order a ord)
         (if getStatus ord = VERIFIED then admit_order env a ord
          else seq (td_log DEBUG ''(Trader) Send Error report'')
                   (sendToClient env (connId ord) (nid ord @ ''|failed'')))))))"
  have "handle_order env a memory res s = ?rest ?s1"
    by (simp add: handle_order_def seq_def bnd_app [of "upd _"] bnd_app [of "put_order _ _"] put_order_app)
  then have r: "?rest ?s1 = (Inr x, s')" using run by simp
  have refuse: "triple (draft a ord) (seq (td_log lvl doc) (sendToClient env k m) :: 'a process_scheme \<Rightarrow> _) (\<lambda>_. consistent)"
    for ord lvl doc k m
    by (rule triple_seq [OF triple_td_log [OF stable_draft]], rule triple_weaken [OF triple_sendToClient])
       (auto dest: draft_consistent)
  have last: "triple (\<lambda>s. draft a ord s \<and> (getside ord' = BUY \<or> getside ord' = SELL))
      (seq (put_order a ord') (if getStatus ord' = VERIFIED then admit_order env a ord'
          else seq (td_log DEBUG ''(Trader) Send Error report'')
                   (sendToClient env (connId ord') (nid ord' @ ''|failed''))) :: 'a process_scheme \<Rightarrow> _) (\<lambda>_. consistent)"
    for ord ord'
    by (cases "getside ord' = BUY \<or> getside ord' = SELL")
       (simp_all add: triple_seq [OF draft_put] triple_if admit_order_triple refuse, simp add: triple_def)
  have verified: "triple (\<lambda>s. draft a ord s \<and> sides) (verify ps bs ord :: 'a process_scheme \<Rightarrow> _)
      (\<lambda>x s. draft a ord s \<and> sides \<and> getside x = getside ord)" for ord ps bs sides
    using verify_triple [of "\<lambda>s. draft a ord s \<and> sides" ps bs ord] by (rule triple_weaken) auto
  have put: "triple (\<lambda>s. draft a o1 s \<and> sides) (put_order a ord :: 'a process_scheme \<Rightarrow> _) (\<lambda>_ s. draft a ord s \<and> sides)"
    for o1 ord sides
    using draft_put [of a o1 ord] by (auto simp: triple_def)
  have "triple (draft a (Order memory)) (?rest :: 'a process_scheme \<Rightarrow> _) (\<lambda>_. consistent)"
  proof (rule triple_bnd [OF fill_order_triple])
    fix ord
    show "triple (\<lambda>s. draft a (Order memory) s \<and> (getside ord = BUY \<or> getside ord = SELL))
      (seq (put_order a ord)
        (bnd (get (\<lambda>s. (productList s, tradeBasicData s))) (\<lambda>(products, basics).
         bnd (verify products basics ord) (\<lambda>ord.
         seq (put_order a ord)
         (if getStatus ord = VERIFIED then admit_order env a ord
          else seq (td_log DEBUG ''(Trader) Send Error report'')
                   (sendToClient env (connId ord) (nid ord @ ''|failed''))))))
        :: 'a process_scheme \<Rightarrow> _) (\<lambda>_. consistent)"
    proof (rule triple_seq [OF put], rule triple_get_bnd)
      fix pb :: "string list \<times> string list"
      obtain ps bs where pb: "pb = (ps, bs)" by force
      show "triple (\<lambda>s. (draft a ord s \<and> (getside ord = BUY \<or> getside ord = SELL)) \<and> pb = (productList s, tradeBasicData s))
        ((case pb of (products, basics) \<Rightarrow> bnd (verify products basics ord) (\<lambda>ord.
         seq (put_order a ord)
         (if getStatus ord = VERIFIED then admit_order env a ord
          else seq (td_log DEBUG ''(Trader) Send Error report'')
                   (sendToClient env (connId ord) (nid ord @ ''|failed'')))))
        :: 'a process_scheme \<Rightarrow> _) (\<lambda>_. consistent)"
        unfolding pb prod.case
        by (rule triple_bnd [OF triple_weaken [OF verified [of ord "getside ord = BUY \<or> getside ord = SELL"]]],
            blast, assumption, rule triple_weaken [OF last [of ord]]) auto
    qed
  qed
  from tripleD [OF this new_draft [OF s] r] show "consistent s'" .
qed

lemma getOrder_triple:
  "triple (\<lambda>s. consistent s \<and> order_heap s a = None) (getOrder_turn env a memory) (\<lambda>_. consistent)"
proof (rule tripleI, elim conjE)
  fix s s' :: "'a process_scheme" and x
  assume s: "consistent s" "order_heap s a = None" and run: "getOrder_turn env a memory s = (Inr x, s')"
  show "consistent s'"
  proof (cases "traderstatus_m s \<and> dataQueue_m (dq s) \<noteq> []")
    case True
    then obtain msg waiting where q: "dataQueue_m (dq s) = msg # waiting" by (cases "dataQueue_m (dq s)") auto
    obtain s1 where turn: "getOrder_turn env a memory s = seq (handle_order env a memory (split msg ''|'')) (ret True) s1"
      and s1: "s1 = s\<lparr>trace := trace s @ [Log ''TD'' DEBUG ''(Trader) Handle Order Msg''], dq := dq s1\<rparr>"
      and "dataQueue_m (dq s1) = waiting"
      by (rule getOrder_turn_app [OF conjunct1 [OF True] q])
    obtain q' where q': "s1 = s\<lparr>trace := trace s @ [Log ''TD'' DEBUG ''(Trader) Handle Order Msg''], dq := q'\<rparr>"
      using s1 by blast
    have "consistent s1" and "order_heap s1 a = None"
      using s stableD(5) [OF stable_consistent stableD(1) [OF stable_consistent s(1)]] by (simp_all add: q')
    moreover obtain u where "handle_order env a memory (split msg ''|'') s1 = (Inr u, s')"
      using run unfolding turn by (cases "handle_order env a memory (split msg ''|'') s1") (auto simp: seq_def bnd_app split: sum.splits)
    ultimately show ?thesis using tripleD [OF handle_order_triple] by blast
  next
    case False
    then have "s' = s" using run
      by (auto simp: getOrder_turn_def getTraderStatus_def bnd_app checkSpace_def split: if_splits)
    then show ?thesis using s by simp
  qed
qed

subsection \<open>Cancelling and changing keep them so\<close>

lemma find_order_triple: "triple P (find_order n as) (\<lambda>r s. P s \<and> (\<forall>a. r = Some a \<longrightarrow> a \<in> set as))"
proof (induction as)
  case (Cons b as)
  have rest: "triple P (find_order n as) (\<lambda>r s. P s \<and> (\<forall>a. r = Some a \<longrightarrow> a \<in> set (b # as)))"
    using Cons by (rule triple_weaken) auto
  have "triple P (deref_order b) (\<lambda>_. P)" unfolding deref_order_def by (intro triples) simp_all
  then show ?case
    unfolding find_order.simps by (rule triple_bnd, intro triple_if triple_ret rest) simp
qed (simp add: triple_def)

lemma triple_answer: "triple consistent (answer env res t) (\<lambda>_. consistent)"
  unfolding answer_def by (intro triples)

lemma triple_update: "triple consistent (bnd (updateOrderSituation env n st) (\<lambda>_. ret ())) (\<lambda>_. consistent)"
  "triple consistent (bnd (updateOrderPrice env n st) (\<lambda>_. ret ())) (\<lambda>_. consistent)"
  by (rule triple_bnd [OF preserves_triple triple_ret], rule preserves_updates,
      simp_all add: stable_trace_free stable_consistent)+

lemma books_shrink:
  "books s \<Longrightarrow> books (s\<lparr>buyside_m := remove1 a (buyside_m s)\<rparr>)"
  "books s \<Longrightarrow> books (s\<lparr>sellside_m := remove1 a (sellside_m s)\<rparr>)"
  by (auto simp: books_def matched_ok_def dest: set_remove1_subset [THEN subsetD])

lemma found_triple:
  "triple consistent (bnd (get book) (find_order n)) (\<lambda>r s. consistent s \<and> (\<forall>a. r = Some a \<longrightarrow> a \<in> set (book s)))"
proof (rule triple_get_bnd)
  fix x
  show "triple (\<lambda>s. consistent s \<and> x = book s) (find_order n x)
      (\<lambda>r s. consistent s \<and> (\<forall>a. r = Some a \<longrightarrow> a \<in> set (book s)))"
    using find_order_triple [of "\<lambda>s. consistent s \<and> x = book s" n x] by (rule triple_weaken) auto
qed

lemma found_triple': "triple consistent (bnd (get book) (find_order n)) (\<lambda>_. consistent)"
  using found_triple by (rule triple_weaken) auto

lemma log_book_triple:
  "triple (\<lambda>s. consistent s \<and> (\<forall>b. r = Some b \<longrightarrow> b \<in> set (buyside_m s))) (td_log lvl doc)
      (\<lambda>_ s. consistent s \<and> (\<forall>b. r = Some b \<longrightarrow> b \<in> set (buyside_m s)))"
  by (rule tripleI) (auto simp: stableD(1) [OF stable_consistent])

lemma log_only_triple: "triple (\<lambda>s. consistent s \<and> Q s) (td_log lvl doc) (\<lambda>_. consistent)"
  by (rule tripleI) (auto simp: stableD(1) [OF stable_consistent])

lemma deref_order_triple: "triple P (deref_order a) (\<lambda>_. P)"
  unfolding deref_order_def by (intro triples) simp_all

lemma put_loaded_triple:
  assumes "r = Some a"
  shows "triple (\<lambda>s. consistent s \<and> (\<forall>b. r = Some b \<longrightarrow> b \<in> set (buyside_m s))) (put_order a ord) (\<lambda>_. consistent)"
proof (rule tripleI)
  fix s s' :: "'a process_scheme" and u
  assume s: "consistent s \<and> (\<forall>b. r = Some b \<longrightarrow> b \<in> set (buyside_m s))" and "put_order a ord s = (Inr u, s')"
  then have s': "s' = s\<lparr>order_heap := (order_heap s)(a \<mapsto> ord)\<rparr>" by (simp add: put_order_app)
  have "a \<notin> set (rawBuyside_m s) \<union> set (rawSellside_m s)" using s assms by (auto simp: consistent_def books_def)
  then show "consistent s'" unfolding s' using consistent_put s by blast
qed

lemma cancel_in_triple:
  assumes "\<And>s a. consistent s \<Longrightarrow> consistent (set_book (remove1 a (book s)) s)"
  shows "triple consistent (cancel_in env res doc book set_book) (\<lambda>_. consistent)"
proof -
  have remove: "triple consistent (upd (\<lambda>s. set_book (remove1 a (book s)) s)) (\<lambda>_. consistent)" for a
    by (rule triple_upd) (rule assms)
  show ?thesis
    unfolding cancel_in_def
    by (intro triple_seq [OF triple_td_log [OF stable_consistent]] triple_vec_at_bnd triple_bnd [OF found_triple']
        triple_option triple_seq [OF remove] triple_seq [OF triple_answer] triple_update(1) triple_answer)
qed

lemma modify_order_triple: "triple consistent (modify_order env res) (\<lambda>_. consistent)"
  unfolding modify_order_def
  apply (rule triple_seq [OF triple_td_log [OF stable_consistent]])
  apply (rule triple_vec_at_bnd)
  apply (rule triple_bnd [OF found_triple])
  apply (rule triple_vec_at_bnd)
  apply (rule triple_if)
   apply (rule triple_option)
    apply (rule triple_seq [OF log_only_triple], rule triple_answer)
    apply (rule triple_seq [OF log_book_triple])
   apply (rule triple_bnd [OF deref_order_triple], rule triple_vec_at_bnd, rule triple_lift_bnd)
   apply (rule triple_seq [OF put_loaded_triple], assumption, rule triple_seq [OF triple_answer], rule triple_update)
  apply (rule triple_fail)
  done

lemma handle_change_triple: "triple consistent (handle_change env res) (\<lambda>_. consistent)"
proof -
  have "triple consistent (cancel_in env res doc buyside_m (\<lambda>b s. s\<lparr>buyside_m := b\<rparr>)) (\<lambda>_. consistent)"
    "triple consistent (cancel_in env res doc sellside_m (\<lambda>b s. s\<lparr>sellside_m := b\<rparr>)) (\<lambda>_. consistent)" for doc
    by (rule cancel_in_triple, simp add: consistent_def books_shrink)+
  then show ?thesis
    unfolding handle_change_def by (intro triple_vec_at_bnd triple_if triple_answer modify_order_triple)
qed

lemma getCancelOrder_triple: "triple consistent (getCancelOrder_turn env) (\<lambda>_. consistent)"
proof -
  have pop: "triple consistent (zoom dq_orderhandle (\<lambda>q s. s\<lparr>dq_orderhandle := q\<rparr>) m) (\<lambda>_. consistent)" for m
    by (rule preserves_triple [OF preserves_zoom]) (rule stableD(6) [OF stable_consistent])
  have look: "triple consistent getTraderStatus (\<lambda>_. consistent)"
    unfolding getTraderStatus_def by (simp add: triple_def)
  have space: "triple consistent (get g) (\<lambda>_. consistent)" for g
    by (simp add: triple_def)
  show ?thesis
    unfolding getCancelOrder_turn_def
    by (intro triple_bnd [OF look] triple_bnd [OF space] triple_if triple_ret
        triple_seq [OF triple_td_log [OF stable_consistent]] triple_bnd [OF pop]
        triple_seq [OF handle_change_triple])
qed

subsection \<open>Matching and reporting\<close>

lemma sorted_butlast: "sorted_wrt P xs \<Longrightarrow> sorted_wrt P (butlast xs)"
  by (metis append_butlast_last_id butlast.simps(1) sorted_wrt_append)

lemma sorted_remove: "sorted_wrt P xs \<Longrightarrow> sorted_wrt P (remove1 x xs)"
  by (induction xs) (auto dest: set_remove1_subset [THEN subsetD])

lemma books_executed:
  assumes "books s" and "order_heap s b = Some bo" and "order_heap s sl = Some so" and "b \<noteq> sl"
  shows "books (s\<lparr>order_heap := (order_heap s)(b \<mapsto> bo\<lparr>execPrice := pr\<rparr>, sl \<mapsto> so\<lparr>execPrice := pr\<rparr>),
      reportList_m := reportList_m s @ [b, sl], rawSellside_m := butlast (rawSellside_m s),
      rawBuyside_m := remove1 b (rawBuyside_m s)\<rparr>)"
proof -
  let ?h = "(order_heap s)(b \<mapsto> bo\<lparr>execPrice := pr\<rparr>, sl \<mapsto> so\<lparr>execPrice := pr\<rparr>)"
  let ?s1 = "s\<lparr>order_heap := ?h, reportList_m := reportList_m s @ [b, sl], rawSellside_m := butlast (rawSellside_m s),
      rawBuyside_m := remove1 b (rawBuyside_m s)\<rparr>"
  have kept: "matched_ok ?s1 a sd" if "matched_ok s a sd" for a sd
    using that assms(2-4) by (auto simp: matched_ok_def getside_def)
  have live: "?h a \<noteq> None" if "order_heap s a \<noteq> None" for a using that by auto
  have sub: "set (remove1 b (rawBuyside_m s)) \<subseteq> set (rawBuyside_m s)"
    "set (butlast (rawSellside_m s)) \<subseteq> set (rawSellside_m s)"
    by (auto dest: set_remove1_subset [THEN subsetD] in_set_butlastD)
  note b = assms(1) [unfolded books_def]
  show ?thesis
    unfolding books_def
  proof (intro conjI)
    show "sorted_wrt (<) (rawBuyside_m ?s1)" "sorted_wrt (<) (rawSellside_m ?s1)"
      using b by (simp_all add: sorted_remove sorted_butlast)
    show "\<forall>a\<in>set (rawBuyside_m ?s1). matched_ok ?s1 a BUY" using b kept sub(1) by auto
    show "\<forall>a\<in>set (rawSellside_m ?s1). matched_ok ?s1 a SELL" using b kept sub(2) by auto
    show "\<forall>a\<in>set (buyside_m ?s1) \<union> set (sellside_m ?s1). order_heap ?s1 a \<noteq> None
        \<and> a \<notin> set (rawBuyside_m ?s1) \<and> a \<notin> set (rawSellside_m ?s1)"
      using b live sub by auto
    show "\<forall>a\<in>set (reportList_m ?s1). order_heap ?s1 a \<noteq> None" using b live by auto
    show "\<forall>a. od_ptr ?s1 = Some a \<longrightarrow> order_heap ?s1 a \<noteq> None" using b live by auto
    show "od_ptr ?s1 = None \<longrightarrow> rawBuyside_m ?s1 = [] \<and> rawSellside_m ?s1 = []" using b by auto
  qed
qed

lemma match_execute_consistent:
  assumes c: "consistent p" and m: "b \<in> set (rawBuyside_m p)" "sl \<in> set (rawSellside_m p)"
  obtains p' where "match_execute b sl p = (Inr (), p')" and "books p'" and "quotes_ok p'"
    and "reportList_m p' = reportList_m p @ [b, sl]" and "match_at p' = match_at p" and "report_at p' = report_at p"
    and "cv_m p' = cv_m p"
proof -
  have books: "books p" and q: "quotes_ok p" using c by (simp_all add: consistent_def)
  obtain bo so where o: "order_heap p b = Some bo" "order_heap p sl = Some so"
    and sides: "getside bo = BUY" "getside so = SELL" and price: "\<not> is_nan (orderPrice so)"
    using books m by (fastforce simp: books_def matched_ok_def)
  then have ne: "b \<noteq> sl" by auto
  obtain st where st: "map_find (quotesList p) ''KKC'' = Some (Some st)" "quote_ok st" and ord: "ordered (quotesList p)"
    using q by (auto simp: quotes_ok_def)
  let ?ql = "map_put ''KKC'' (Some (traded (orderPrice so) st)) (quotesList p)"
  let ?s1 = "p\<lparr>order_heap := (order_heap p)(b \<mapsto> bo\<lparr>execPrice := orderPrice so\<rparr>, sl \<mapsto> so\<lparr>execPrice := orderPrice so\<rparr>),
      reportList_m := reportList_m p @ [b, sl], rawSellside_m := butlast (rawSellside_m p),
      rawBuyside_m := remove1 b (rawBuyside_m p)\<rparr>"
  let ?p' = "?s1\<lparr>quotesList := ?ql, trace := trace p @ [Log ''TD'' DEBUG ''(Trader) Match up success'']\<rparr>"
  have "rawSellside_m p \<noteq> []" using m(2) by auto
  from match_execute_app [OF o ne this st(1) ord]
  have run: "match_execute b sl p = (Inr (), ?p')" by simp
  have "books ?p'" using books_executed [OF books o ne, of "orderPrice so"] by simp
  moreover have "quotes_ok ?p'"
    using smap.find_assign [OF ord] smap.invar_assign [OF ord] quote_ok_traded [OF st(2) price]
    by (simp add: quotes_ok_def)
  ultimately show thesis using run by (intro that [of ?p']) simp_all
qed

lemma match_select_consistent:
  assumes "consistent p"
  obtains c p' where "match_select p = (Inr c, p')" and "consistent p'" and "match_at p' = match_at p"
    and "\<forall>b sl. c = Some (b, sl) \<longrightarrow> b \<in> set (rawBuyside_m p') \<and> sl \<in> set (rawSellside_m p')"
    and "cv_m p' = cv_m p" and "reportList_m p' = reportList_m p" and "order_heap p' = order_heap p"
proof (cases "rawSellside_m p = [] \<or> rawBuyside_m p = []")
  case True
  show thesis
    by (rule that [OF match_select_none [OF True]])
       (use stableD(1) [OF stable_consistent assms] in simp_all)
next
  case False
  have books: "books p" using assms by (simp add: consistent_def)
  then obtain od where od: "od_ptr p = Some od" using False by (cases "od_ptr p") (auto simp: books_def)
  then obtain odo where odo: "order_heap p od = Some odo" using books by (auto simp: books_def)
  have last: "last (rawSellside_m p) \<in> set (rawSellside_m p)" using False by simp
  then obtain so where so: "order_heap p (last (rawSellside_m p)) = Some so"
    using books by (fastforce simp: books_def matched_ok_def)
  have "hd (rawBuyside_m p) \<in> set (rawBuyside_m p)" using False by simp
  then show thesis
    using match_select_app [OF _ _ od odo so] False last stableD(1) [OF stable_consistent assms]
    by (intro that [of "if orderPrice odo \<ge> orderPrice so then Some (hd (rawBuyside_m p), last (rawSellside_m p)) else None"
          "p\<lparr>trace := trace p @ [Log ''TD'' DEBUG ''(Trader) Do Match up process'',
             Log ''TD'' DEBUG ''(Trader) Execute Match up'']\<rparr>"]) auto
qed

lemma consistent_match_at:
  "books p \<Longrightarrow> quotes_ok p \<Longrightarrow> popping p \<Longrightarrow>
   (\<forall>b sl. pc = At_match b sl \<longrightarrow> b \<in> set (rawBuyside_m p) \<and> sl \<in> set (rawSellside_m p)) \<Longrightarrow>
   consistent (p\<lparr>match_at := pc\<rparr>)"
  by (simp add: consistent_def books_def matched_ok_def quotes_ok_def popping_def chosen_def)

lemma consistent_cv: "consistent (p\<lparr>cv_m := c\<rparr>) = consistent p"
  by (simp add: consistent_def)

lemma consistent_log: "consistent p \<Longrightarrow> consistent (p\<lparr>trace := t\<rparr>)"
  by (rule stableD(1) [OF stable_consistent])

text \<open>A step of the matching thread always returns, and leaves a consistent state.\<close>

lemma matchup_run:
  assumes c: "consistent p"
  shows "\<exists>pc p'. matchup_step (match_at p) p = (Inr pc, p') \<and> consistent (p'\<lparr>match_at := pc\<rparr>)"
proof -
  have parts: "books p" "quotes_ok p" "popping p" using c by (simp_all add: consistent_def)
  have move: "consistent (p'\<lparr>match_at := pc\<rparr>)" if "consistent p'" "\<forall>b sl. pc \<noteq> At_match b sl" for p' pc
    using that by (intro consistent_match_at) (auto simp: consistent_def)
  have stay: "consistent (p\<lparr>match_at := match_at p\<rparr>)" using c by simp
  show ?thesis
  proof (cases "match_at p")
    case At_guard
    show ?thesis
    proof (cases "cv_m p")
      case True
      then show ?thesis using stay At_guard by (simp add: lock_cv_def bnd_app)
    next
      case False
      have c1: "consistent (p\<lparr>cv_m := True\<rparr>)" using c by (simp add: consistent_cv)
      obtain ch p' where sel: "match_select (p\<lparr>cv_m := True\<rparr>) = (Inr ch, p')" and p': "consistent p'"
        and "match_at p' = match_at (p\<lparr>cv_m := True\<rparr>)"
        and ch: "\<forall>b sl. ch = Some (b, sl) \<longrightarrow> b \<in> set (rawBuyside_m p') \<and> sl \<in> set (rawSellside_m p')"
        and "cv_m p' = cv_m (p\<lparr>cv_m := True\<rparr>)" and "reportList_m p' = reportList_m (p\<lparr>cv_m := True\<rparr>)"
        and "order_heap p' = order_heap (p\<lparr>cv_m := True\<rparr>)"
        by (rule match_select_consistent [OF c1])
      have "consistent (p'\<lparr>match_at := case ch of None \<Rightarrow> At_done | Some (b, sl) \<Rightarrow> At_match b sl\<rparr>)"
        using p' ch by (intro consistent_match_at) (auto simp: consistent_def split: option.splits)
      then show ?thesis using sel False At_guard
        by (cases ch) (auto simp: lock_cv_def bnd_app seq_def)
    qed
  next
    case (At_match b sl)
    show ?thesis
    proof (cases "cv_m p")
      case True
      then show ?thesis using stay At_match by (simp add: lock_cv_def bnd_app)
    next
      case False
      have c1: "consistent (p\<lparr>cv_m := True\<rparr>)" using c by (simp add: consistent_cv)
      have m: "b \<in> set (rawBuyside_m (p\<lparr>cv_m := True\<rparr>))" "sl \<in> set (rawSellside_m (p\<lparr>cv_m := True\<rparr>))"
        using c At_match by (simp_all add: consistent_def chosen_def)
      obtain p' where run: "match_execute b sl (p\<lparr>cv_m := True\<rparr>) = (Inr (), p')" and p': "books p'" "quotes_ok p'"
        and rep: "reportList_m p' = reportList_m (p\<lparr>cv_m := True\<rparr>) @ [b, sl]"
        and "match_at p' = match_at (p\<lparr>cv_m := True\<rparr>)" and "report_at p' = report_at (p\<lparr>cv_m := True\<rparr>)"
        and "cv_m p' = cv_m (p\<lparr>cv_m := True\<rparr>)"
        by (rule match_execute_consistent [OF c1 m])
      have "consistent (p'\<lparr>cv_m := False, match_at := At_done\<rparr>)"
        using p' rep by (intro consistent_match_at) (simp_all add: popping_def)
      then show ?thesis using run False At_match
        by (auto simp: lock_cv_def bnd_app seq_def unlock_cv_def)
    qed
  qed (auto simp: bnd_app seq_def lock_cv_def unlock_cv_def getconnStatus_def getTraderStatus_def
        consistent_cv c consistent_log intro!: move)
qed

lemma report_triple:
  "triple (\<lambda>p. consistent p) (act env Report_exec) (\<lambda>_. consistent)"
proof (rule tripleI)
  fix p p' :: "'a process_scheme" and u
  assume c: "consistent p" and run: "act env Report_exec p = (Inr u, p')"
  show "consistent p'"
  proof (cases "report_at p")
    case Report_poll
    show ?thesis
    proof (cases "traderstatus_m p \<and> reportList_m p \<noteq> []")
      case False
      then have "p' = p\<lparr>report_at := (if traderstatus_m p then Report_poll else Report_end)\<rparr>"
        using run Report_poll by (auto simp: bnd_app getTraderStatus_def)
      then show ?thesis using c by (auto simp: consistent_def books_def matched_ok_def quotes_ok_def chosen_def popping_def)
    next
      case True
      let ?p1 = "p\<lparr>trace := trace p @ [Log ''TD'' DEBUG ''(Trader) Handle Exec Order'']\<rparr>"
      let ?I = "\<lambda>q :: 'a process_scheme. consistent q \<and> reportList_m q \<noteq> []"
      have I: "stable ?I" using stableD [OF stable_consistent] by (auto simp: stable_def)
      have maybe_log: "triple ?I (if ok then td_log lvl doc else ret ()) (\<lambda>_. ?I)" for ok lvl doc
        using triple_td_log [OF I] by (auto simp: triple_def)
      have "triple ?I (sendExecReport env (last (reportList_m p))) (\<lambda>_. ?I)"
        unfolding sendExecReport_def
        by (intro triple_bnd [OF deref_order_triple] triple_seq [OF triple_stable [OF I steady_sendToClient]]
            triple_bnd [OF preserves_triple [OF preserves_updates(3)]] triple_seq [OF maybe_log]
            triple_bnd [OF preserves_triple [OF preserves_updates(4)]] triple_ret I stable_trace_free)
      moreover have "?I ?p1" using True consistent_log [OF c] by simp
      moreover obtain v p2 where send: "sendExecReport env (last (reportList_m p)) ?p1 = (Inr v, p2)"
        and p': "p' = p2\<lparr>report_at := Report_pop\<rparr>"
        using run True Report_poll by (auto simp: bnd_app seq_def getTraderStatus_def split: prod.splits sum.splits)
      ultimately have "?I p2" by (blast dest: tripleD)
      then show ?thesis
        unfolding p' by (auto simp: consistent_def books_def matched_ok_def quotes_ok_def chosen_def popping_def)
    qed
  next
    case Report_pop
    then have ne: "reportList_m p \<noteq> []" using c by (simp add: consistent_def popping_def)
    have p': "p' = p\<lparr>reportList_m := butlast (reportList_m p), report_at := Report_poll\<rparr>"
      using run Report_pop ne by (auto simp: bnd_app seq_def)
    show ?thesis using c unfolding p'
      by (auto simp: consistent_def books_def matched_ok_def quotes_ok_def chosen_def popping_def dest: in_set_butlastD)
  next
    case Report_end
    then have "p' = p" using run by (auto simp: bnd_app)
    then show ?thesis using c by simp
  qed
qed

end
