(* ===== verification/System_Safety.thy ===== *)
theory System_Safety
  imports System_Facts
begin

section \<open>Safety of the running process\<close>

lemma threads_server [simp]:
  "consistent (p\<lparr>receivers := r\<rparr>) = consistent p" "consistent (p\<lparr>beating := b\<rparr>) = consistent p"
  by (simp_all add: consistent_def books_def matched_ok_def quotes_ok_def chosen_def popping_def)

lemma triple_act:
  fixes p :: "'a process_scheme"
  assumes "enabled p a" and "consistent p" and "act env a p = (Inr (), p')"
  shows "consistent p'"
proof -
  have st: "steady env (consistent :: 'a process_scheme \<Rightarrow> bool)" by (rule steady_stable [OF stable_consistent])
  have keep: "triple (consistent :: 'a process_scheme \<Rightarrow> bool) (act env b) (\<lambda>_. consistent)"
    if "a = b" "\<forall>x m. b \<noteq> Take_order x m" "b \<noteq> Match" for b
  proof (cases b)
    case (Accept fd)
    then show ?thesis
      by (simp only: act.simps)
        (intro triple_bnd [OF preserves_triple [OF steady_acceptConn [OF st]]] triple_option triple_ret triple_upd; simp)
  next
    case (Receive c r)
    then show ?thesis
      by (simp only: act.simps)
        (intro triple_get_bnd triple_option triple_ret
          triple_bnd [OF triple_weaken [OF preserves_triple [OF steady_msgRecv [OF st]]]] triple_upd; simp)
  next
    case (Heartbeat c)
    then show ?thesis
      by (simp only: act.simps)
        (intro triple_bnd [OF preserves_triple [OF steady_heartbeat [OF st]]] triple_if triple_ret triple_upd; simp)
  next
    case Take_change
    then show ?thesis by (simp only: act.simps) (intro triple_bnd [OF getCancelOrder_triple] triple_ret; simp)
  next
    case Report_exec
    then show ?thesis using report_triple by (simp add: triple_def)
  qed (use that in auto)
  show ?thesis
  proof (cases a)
    case (Take_order x m)
    then have "triple (\<lambda>s. consistent s \<and> order_heap s x = None) (act env a) (\<lambda>_. consistent)"
      by (simp only: act.simps) (intro triple_bnd [OF getOrder_triple] triple_ret; simp)
    then show ?thesis using assms Take_order by (auto dest: tripleD)
  next
    case Match
    obtain pc q where q: "matchup_step (match_at p) p = (Inr pc, q)" "consistent (q\<lparr>match_at := pc\<rparr>)"
      using matchup_run [OF assms(2)] by blast
    then show ?thesis using assms(3) Match by (simp add: bnd_app)
  qed (use keep [OF refl] assms(2,3) in \<open>auto dest!: tripleD\<close>)
qed

lemma reachable_consistent: "reachable env p0 p \<Longrightarrow> consistent p0 \<Longrightarrow> consistent p"
  by (induction rule: reachable.induct) (auto elim!: stepE intro: triple_act)

lemma started_consistent: "started p \<Longrightarrow> consistent p"
  by (auto simp: started_def consistent_def books_def quotes_ok_def chosen_def popping_def matched_ok_def)

subsection \<open>What the operations of the trader leave alone\<close>

text \<open>The changes that cancelling and reporting, that taking in an order, and that matching make.\<close>

definition spares_loaded :: "('a process_scheme \<Rightarrow> bool) \<Rightarrow> bool" where
  "spares_loaded I \<longleftrightarrow> (\<forall>s. I s \<longrightarrow> (\<forall>h. I (s\<lparr>order_heap := h\<rparr>)) \<and> (\<forall>b. I (s\<lparr>buyside_m := b\<rparr>))
     \<and> (\<forall>b. I (s\<lparr>sellside_m := b\<rparr>)) \<and> (\<forall>r. I (s\<lparr>reportList_m := r\<rparr>)) \<and> (\<forall>r. I (s\<lparr>report_at := r\<rparr>)))"

definition spares_books :: "('a process_scheme \<Rightarrow> bool) \<Rightarrow> bool" where
  "spares_books I \<longleftrightarrow> spares_loaded I \<and> (\<forall>s. I s \<longrightarrow> (\<forall>b. I (s\<lparr>rawBuyside_m := b\<rparr>)) \<and> (\<forall>b. I (s\<lparr>rawSellside_m := b\<rparr>))
     \<and> (\<forall>c. I (s\<lparr>cv_m := c\<rparr>)) \<and> (\<forall>a. I (s\<lparr>od_ptr := a\<rparr>)) \<and> (\<forall>f. I (s\<lparr>sideFlag := f\<rparr>)) \<and> (\<forall>n. I (s\<lparr>nid_sub2 := n\<rparr>))
     \<and> (\<forall>q. I (s\<lparr>quotesList := q\<rparr>)) \<and> (\<forall>m. I (s\<lparr>match_at := m\<rparr>)))"

lemma spares_loadedD:
  "spares_loaded I \<Longrightarrow> I s \<Longrightarrow> I (s\<lparr>order_heap := h\<rparr>)" "spares_loaded I \<Longrightarrow> I s \<Longrightarrow> I (s\<lparr>buyside_m := b\<rparr>)"
  "spares_loaded I \<Longrightarrow> I s \<Longrightarrow> I (s\<lparr>sellside_m := b\<rparr>)" "spares_loaded I \<Longrightarrow> I s \<Longrightarrow> I (s\<lparr>reportList_m := r\<rparr>)"
  "spares_loaded I \<Longrightarrow> I s \<Longrightarrow> I (s\<lparr>report_at := ra\<rparr>)"
  by (simp_all add: spares_loaded_def)

lemma spares_booksD:
  "spares_books I \<Longrightarrow> spares_loaded I"
  "spares_books I \<Longrightarrow> I s \<Longrightarrow> I (s\<lparr>rawBuyside_m := b\<rparr>)" "spares_books I \<Longrightarrow> I s \<Longrightarrow> I (s\<lparr>rawSellside_m := b\<rparr>)"
  "spares_books I \<Longrightarrow> I s \<Longrightarrow> I (s\<lparr>cv_m := c\<rparr>)" "spares_books I \<Longrightarrow> I s \<Longrightarrow> I (s\<lparr>od_ptr := a\<rparr>)"
  "spares_books I \<Longrightarrow> I s \<Longrightarrow> I (s\<lparr>sideFlag := f\<rparr>)" "spares_books I \<Longrightarrow> I s \<Longrightarrow> I (s\<lparr>nid_sub2 := n\<rparr>)"
  "spares_books I \<Longrightarrow> I s \<Longrightarrow> I (s\<lparr>quotesList := q\<rparr>)" "spares_books I \<Longrightarrow> I s \<Longrightarrow> I (s\<lparr>match_at := m\<rparr>)"
  by (simp_all add: spares_books_def)

lemma keeps_td_log: "steady env I \<Longrightarrow> preserves I (td_log lvl doc)"
  by (simp add: td_log_def preserves_log_free steady_trace_free)

lemma keeps_deref_order: "preserves I (deref_order a)"
  unfolding deref_order_def by (intro keeps)

lemma keeps_find_order: "preserves I (find_order n as)"
proof (induction as)
  case (Cons a as)
  show ?case
    unfolding find_order.simps by (intro preserves_bnd keeps_deref_order preserves_if preserves_ret Cons)
qed (simp only: find_order.simps preserves_ret)

lemma keeps_put_order: "spares_loaded I \<Longrightarrow> preserves I (put_order a ord)"
  unfolding put_order_def by (rule preserves_upd) (rule spares_loadedD(1))

lemma keeps_answer: "steady env I \<Longrightarrow> preserves I (answer env res t)"
  unfolding answer_def by (intro keeps)

lemma keeps_handle_change:
  assumes "steady env I" and "spares_loaded I" shows "preserves I (handle_change env res)"
  unfolding handle_change_def cancel_in_def modify_order_def
  by (intro keeps keeps_td_log [OF assms(1)] keeps_find_order keeps_deref_order keeps_put_order keeps_answer
      steady_trace_free [OF assms(1)] spares_loadedD [OF assms(2)] assms)

lemma keeps_getCancelOrder:
  assumes "steady env I" and "spares_loaded I" shows "preserves I (getCancelOrder_turn env)"
  unfolding getCancelOrder_turn_def getTraderStatus_def
  by (intro keeps keeps_td_log [OF assms(1)] steady_queues [OF assms(1)] keeps_handle_change assms)

lemma keeps_report:
  assumes "steady env I" and "spares_loaded I" shows "preserves I (act env Report_exec)"
proof -
  have "preserves I (generateExecReport_step env pc)" for pc
    by (cases pc; simp only: generateExecReport_step.simps getTraderStatus_def sendExecReport_def;
      intro keeps keeps_td_log [OF assms(1)] keeps_deref_order steady_trace_free [OF assms(1)] spares_loadedD [OF assms(2)]
        steady_sendToClient [OF assms(1)] assms)
  then show ?thesis
    by (simp only: act.simps) (intro keeps spares_loadedD [OF assms(2)])
qed

lemma keeps_getOrder:
  assumes "steady env I" and "spares_books I" shows "preserves I (getOrder_turn env a memory)"
proof -
  note sp = spares_booksD [OF assms(2)]
  have fill: "preserves I (fill_order res ord)" for res ord
    unfolding fill_order_def by (intro keeps)
  have ver: "preserves I (verify ps bs ord)" for ps bs ord
    unfolding verify_def by (intro keeps)
  have acc: "preserves I (accept_order env b ord)" for b ord
    unfolding accept_order_def generateNid_def orderDataInsert_def Let_def
    by (intro keeps keeps_td_log [OF assms(1)] keeps_put_order sp(1) keeps_deref_order sp assms)
  have "preserves I (handle_order env a memory res)" for res
    unfolding handle_order_def admit_order_def
    by (intro keeps keeps_td_log [OF assms(1)] keeps_put_order steady_sendToClient [OF assms(1)] steady_getConnObject [OF assms(1)]
        fill ver acc sp)
  then show ?thesis
    unfolding getOrder_turn_def getTraderStatus_def
    by (intro keeps keeps_td_log [OF assms(1)] steady_queues [OF assms(1)])
qed

lemma keeps_scan: "preserves I (scan_buys bs)"
proof (induction bs)
  case (Cons b bs)
  show ?case
    unfolding scan_buys.simps Let_def
    by (intro preserves_bnd preserves_get keeps_deref_order preserves_if preserves_ret preserves_fail preserves_option Cons)
qed (simp only: scan_buys.simps preserves_ret)

lemma keeps_select: "steady env I \<Longrightarrow> preserves I match_select"
  unfolding match_select_def by (intro keeps keeps_td_log keeps_scan)

lemma keeps_match:
  assumes "steady env I" and "spares_books I" shows "preserves I (act env Match)"
proof -
  note sp = spares_booksD [OF assms(2)]
  have quote: "preserves I (quoteUpdate k x)" for k x
    unfolding quoteUpdate_def put_quote_def by (intro keeps sp steady_deref_quote [OF assms(1)])
  have ex: "preserves I (match_execute b sl)" for b sl
    unfolding match_execute_def
    by (intro keeps keeps_td_log [OF assms(1)] keeps_put_order keeps_deref_order quote spares_loadedD [OF sp(1)] sp)
  have "preserves I (matchup_step pc)" for pc
    by (cases pc; simp only: matchup_step.simps lock_cv_def unlock_cv_def getTraderStatus_def;
      intro keeps keeps_td_log [OF assms(1)] keeps_select [OF assms(1)] ex sp)
  then show ?thesis
    by (simp only: act.simps) (intro keeps sp)
qed

lemma keeps_server_act:
  assumes "steady env I" and "\<And>s r. I s \<Longrightarrow> I (s\<lparr>receivers := r\<rparr>)" and "\<And>s b. I s \<Longrightarrow> I (s\<lparr>beating := b\<rparr>)"
  shows "preserves I (act env (Accept fd))" "preserves I (act env (Receive c r))" "preserves I (act env (Heartbeat c))"
proof -
  show "preserves I (act env (Accept fd))"
    unfolding act.simps
    by (rule preserves_bnd [OF steady_acceptConn [OF assms(1)]], rule preserves_option, rule preserves_ret, rule preserves_upd)
      (simp add: assms(2,3))
  show "preserves I (act env (Receive c r))"
    unfolding act.simps
    by (intro preserves_bnd preserves_get preserves_option preserves_ret preserves_upd steady_msgRecv assms)
  show "preserves I (act env (Heartbeat c))"
    unfolding act.simps
    by (intro preserves_bnd preserves_get preserves_if preserves_ret preserves_upd steady_heartbeat assms)
qed

lemma keeps_act:
  assumes "steady env I" and "spares_books I"
    and "\<And>s r. I s \<Longrightarrow> I (s\<lparr>receivers := r\<rparr>)" and "\<And>s b. I s \<Longrightarrow> I (s\<lparr>beating := b\<rparr>)"
  shows "preserves I (act env a)"
proof (cases a)
  case (Take_order x m)
  then show ?thesis unfolding act.simps by (simp only: act.simps) (intro preserves_bnd preserves_ret keeps_getOrder assms)
next
  case Take_change
  then show ?thesis
    by (simp only: act.simps) (intro preserves_bnd preserves_ret keeps_getCancelOrder spares_booksD(1) assms)
next
  case Match
  then show ?thesis using keeps_match [OF assms(1,2)] by simp
next
  case Report_exec
  then show ?thesis using keeps_report [OF assms(1) spares_booksD(1) [OF assms(2)]] by simp
qed (simp_all only: keeps_server_act [OF assms(1,3,4)])

lemma keeps_quiet_act:
  assumes "steady env I" and "spares_loaded I"
    and "\<And>s r. I s \<Longrightarrow> I (s\<lparr>receivers := r\<rparr>)" and "\<And>s b. I s \<Longrightarrow> I (s\<lparr>beating := b\<rparr>)"
    and "a \<noteq> Match" and "\<forall>x m. a \<noteq> Take_order x m"
  shows "preserves I (act env a)"
proof (cases a)
  case Take_change
  then show ?thesis
    by (simp only: act.simps) (intro preserves_bnd preserves_ret keeps_getCancelOrder assms)
next
  case Report_exec
  then show ?thesis using keeps_report [OF assms(1,2)] by simp
qed (use assms(5,6) in \<open>simp_all add: keeps_server_act [OF assms(1,3,4)] del: act.simps\<close>)

lemma reachable_keeps:
  assumes "reachable env p0 p" and "\<And>a. preserves I (act env a)" and "I p0"
  shows "I p"
  using assms by (induction rule: reachable.induct) (auto elim!: stepE dest: preservesD)

subsection \<open>The matching thread\<close>


text \<open>
  C12. In every reachable state the books hold each order once, in the order of the addresses,
  buy orders on one side and sell orders on the other, all with a price that is a number;
  and the last price of the traded symbol lies between its lowest and its highest.
\<close>

theorem books_and_quotes:
  assumes "started p0" and "reachable env p0 p"
  shows "sorted_wrt (<) (rawBuyside_m p) \<and> sorted_wrt (<) (rawSellside_m p)
    \<and> set (rawBuyside_m p) \<inter> set (rawSellside_m p) = {}
    \<and> (\<forall>a. a \<in> set (rawBuyside_m p) \<longrightarrow> matched_ok p a BUY) \<and> (\<forall>a. a \<in> set (rawSellside_m p) \<longrightarrow> matched_ok p a SELL)
    \<and> (\<exists>st. map_find (quotesList p) ''KKC'' = Some (Some st) \<and> priceMin st \<le> priceNow st \<and> priceNow st \<le> priceMax st)"
proof -
  have "consistent p" using reachable_consistent [OF assms(2) started_consistent [OF assms(1)]] .
  then have b: "books p" and "quotes_ok p" by (simp_all add: consistent_def)
  then have "set (rawBuyside_m p) \<inter> set (rawSellside_m p) = {}" by (fastforce simp: books_def matched_ok_def)
  then show ?thesis using b \<open>quotes_ok p\<close> by (auto simp: books_def quotes_ok_def quote_ok_def)
qed

text \<open>Steps in a row, with the actions taken.\<close>

inductive path :: "env \<Rightarrow> 'a process_scheme \<Rightarrow> action list \<Rightarrow> 'a process_scheme \<Rightarrow> bool" for env p where
  here: "path env p [] p"
| onward: "path env p as q \<Longrightarrow> step env a q r \<Longrightarrow> path env p (as @ [a]) r"

definition waiting :: "match_pc \<Rightarrow> nat list \<Rightarrow> nat list \<Rightarrow> 'a process_scheme \<Rightarrow> bool" where
  "waiting pc B S p \<longleftrightarrow> match_at p = pc \<and> cv_m p \<and> rawBuyside_m p = B \<and> rawSellside_m p = S"

lemma waiting_step:
  assumes "waiting (At_match b sl) B S p" and "step env a p p'" and "\<forall>x m. a \<noteq> Take_order x m"
  shows "waiting (At_match b sl) B S p'"
proof (cases "a = Match")
  case True
  then show ?thesis using assms(1,2)
    by (auto simp: waiting_def bnd_app lock_cv_def elim!: stepE)
next
  case False
  have "stable (waiting (At_match b sl) B S :: 'a process_scheme \<Rightarrow> bool)" by (simp add: stable_def waiting_def)
  moreover have "spares_loaded (waiting (At_match b sl) B S :: 'a process_scheme \<Rightarrow> bool)"
    by (simp add: spares_loaded_def waiting_def)
  ultimately have "preserves (waiting (At_match b sl) B S :: 'a process_scheme \<Rightarrow> bool) (act env a)"
    using False assms(3) by (intro keeps_quiet_act steady_stable) (simp_all add: waiting_def)
  then show ?thesis using assms(1,2) by (auto elim!: stepE dest: preservesD)
qed

lemma select_locks:
  fixes p q :: "'a process_scheme"
  assumes "match_at p = At_guard" and "step env Match p q" and "match_at q = At_match b sl"
  shows "cv_m q"
proof -
  have "stable (cv_m :: 'a process_scheme \<Rightarrow> bool)" by (simp add: stable_def)
  then have "preserves (cv_m :: 'a process_scheme \<Rightarrow> bool) match_select" by (intro keeps_select steady_stable)
  then have "cv_m (snd (match_select (p\<lparr>cv_m := True\<rparr>)))" by (simp add: preserves_def)
  then show ?thesis using assms
    by (auto simp: bnd_app seq_def lock_cv_def elim!: stepE split: prod.splits sum.splits if_splits option.splits)
qed


subsection \<open>Who is logged in\<close>

definition logins_known :: "'a process_scheme \<Rightarrow> bool" where
  "logins_known p \<longleftrightarrow> ordered (userList p)
     \<and> (\<forall>c \<in> set (conn_heap p). login_flag_m c \<longrightarrow> map_find (userList p) (username c) \<noteq> None)"

lemma logins_known_step:
  assumes "\<And>t. \<not> junk_bool env t"
  shows "steady env (logins_known :: 'a process_scheme \<Rightarrow> bool)"
  unfolding steady_def
proof (intro allI impI conjI)
  fix s :: "'a process_scheme"
  assume I: "logins_known s"
  show "logins_known (s\<lparr>userList := map_insert u ud (userList s)\<rparr>)" for u ud
    using I by (auto simp: logins_known_def find_insert ordered_insert split: option.splits)
  show "logins_known (s\<lparr>conn_heap := (conn_heap s)[a := (conn_heap s ! a)\<lparr>recvStatus_m := b\<rparr>]\<rparr>)"
    if "a < length (conn_heap s)" for a b
    using I that by (auto simp: logins_known_def dest!: set_update_subset_insert [THEN subsetD])
  show "logins_known (s\<lparr>conn_heap := (conn_heap s)[a := (conn_heap s ! a)\<lparr>login_flag_m := True, username := u\<rparr>]\<rparr>)"
    if "a < length (conn_heap s) \<and> map_find (userList s) u \<noteq> None" for a u
    using I that by (auto simp: logins_known_def dest!: set_update_subset_insert [THEN subsetD])
  show "logins_known (s\<lparr>conn_heap := conn_heap s @ [Connection fd k (junk_bool env t)],
      connStorage_m := map_insert k (Some (length (conn_heap s))) (connStorage_m s)\<rparr>)" for fd k t
    using I assms by (auto simp: logins_known_def Connection_def)
qed (simp_all add: logins_known_def)

text \<open>
  C15. Provided that a fresh connection happens to start with a cleared flag, every connection
  that counts as logged in carries the name of a known user: this holds in the initial
  state, and whatever the threads do it stays so.
\<close>

theorem only_known_users:
  assumes "started p0 \<or> logins_known p0" and "reachable env p0 p" and "\<forall>t. junk_bool env t = False"
  shows "\<forall>c \<in> set (conn_heap p). getloginstatus c \<longrightarrow> map_find (userList p) (username c) \<noteq> None"
proof -
  have "logins_known p0" using assms(1) by (auto simp: logins_known_def started_def)
  moreover have "preserves logins_known (act env a)" for a
    using assms(3) by (intro keeps_act logins_known_step) (simp_all add: spares_books_def spares_loaded_def logins_known_def)
  ultimately have "logins_known p" using reachable_keeps [OF assms(2)] by blast
  then show ?thesis by (simp add: logins_known_def getloginstatus_def)
qed

subsection \<open>An example\<close>

definition at_point :: "trader \<Rightarrow> match_pc \<Rightarrow> process" where
  "at_point t pc = trader.extend t (process.fields pc Report_poll (\<lambda>_. None) [])"

text \<open>The trader of the earlier example before any client has connected.\<close>

definition fresh_trader :: trader where
  "fresh_trader = small_trader\<lparr>connStorage_m := [], conn_heap := [], od_ptr := None, rawBuyside_m := [],
     rawSellside_m := [], reportList_m := []\<rparr>"

lemma fresh_started: "started (at_point fresh_trader At_start)"
proof -
  have "literal 60 \<le> literal 60" by code_simp
  then show ?thesis
    by (simp add: started_def at_point_def fresh_trader_def small_trader_def small_server_def trader.defs process.defs
        quote_ok_def)
qed


theorem books_and_quotes_witness:
  "\<exists>st. map_find (quotesList (at_point fresh_trader At_start)) ''KKC'' = Some (Some st) \<and> priceMin st \<le> priceNow st"
  using books_and_quotes [OF fresh_started reachable.start] by blast

theorem only_known_users_witness:
  "map_find (userList (at_point small_trader At_start)) (username (conn_heap (at_point small_trader At_start) ! 0)) \<noteq> None"
proof -
  have "logins_known (at_point small_trader At_start)"
    by (simp add: logins_known_def at_point_def small_trader_def small_server_def trader.defs process.defs)
  moreover have "conn_heap (at_point small_trader At_start) = conn_heap small_trader"
    by (simp add: at_point_def trader.defs process.defs)
  moreover have "getloginstatus (conn_heap small_trader ! 0)" "conn_heap small_trader ! 0 \<in> set (conn_heap small_trader)"
    by (simp_all add: small_trader_def getloginstatus_def)
  ultimately show ?thesis using only_known_users [OF _ reachable.start, of "at_point small_trader At_start" quiet_env]
    by (simp add: quiet_env_def)
qed

lemma small_trader_chooses:
  obtains q where "act quiet_env Match (at_point small_trader At_guard) = (Inr (), q)" "match_at q = At_match 4 3"
    "rawBuyside_m q = [4]"
proof -
  have "Fin False 64 \<ge> Fin False 64" by code_simp
  then show thesis
    by (intro that [of "(at_point small_trader (At_match 4 3))\<lparr>cv_m := True,
        trace := [Log ''TD'' DEBUG ''(Trader) Do Match up process'', Log ''TD'' DEBUG ''(Trader) Execute Match up'']\<rparr>"])
      (simp_all add: at_point_def small_trader_def sample_order_def trader.defs process.defs bnd_app lock_cv_def seq_def
        match_select_def Let_def deref_order_def)
qed


end
