(* ===== verification/Startup_Facts.thy ===== *)
theory Startup_Facts
  imports System_Safety
begin

section \<open>From the start of the program to the running process\<close>

text \<open>
  What \<open>main\<close> leaves behind is the state the invariants start from: the constructors of
  \<open>Trader\<close> and \<open>Server\<close> establish \<open>started\<close> whenever the threads are started at all.
\<close>

subsection \<open>Reading the database changes nothing of the process\<close>

lemma preserves_connect_loop: "trace_free I \<Longrightarrow> preserves I (connect_loop env cfg st i)"
proof (induction env cfg st i rule: connect_loop.induct)
  case (1 env cfg st i)
  have "preserves I (initialise env cfg)"
    unfolding initialise_def using 1(2) by (intro keeps)
  then show ?case
    unfolding connect_loop.simps [of env cfg st i] using 1 by (intro keeps) auto
qed

lemma preserves_TradingDataHandler: "trace_free I \<Longrightarrow> preserves I (TradingDataHandler env opt junk)"
  unfolding TradingDataHandler_def by (intro keeps preserves_connect_loop)

lemma preserves_select_rows:
  "trace_free I \<Longrightarrow> (\<And>rows. preserves I (body rows)) \<Longrightarrow> preserves I (select_rows env h sql none body)"
  unfolding select_rows_def by (intro keeps) simp_all

lemma preserves_row_field [keeps]: "preserves I (row_field row i)"
  unfolding row_field_def by (intro keeps)

lemma preserves_user_of_row [keeps]: "preserves I (user_of_row row)"
  unfolding user_of_row_def by (intro keeps)

lemma preserves_load_users [keeps]: "preserves I (load_users rows m)"
  by (induction rows arbitrary: m) (simp_all add: keeps)

lemma preserves_push_fields [keeps]: "preserves I (push_fields fs acc)"
  by (induction fs arbitrary: acc) (auto intro: keeps simp: preserves_option)

lemma preserves_push_rows [keeps]: "preserves I (push_rows rows acc)"
  by (induction rows arbitrary: acc) (simp_all add: keeps)

lemma preserves_order_of_row [keeps]: "preserves I (order_of_row row)"
  unfolding order_of_row_def by (intro keeps)

lemma preserves_load_orders [keeps]: "preserves I (load_orders rows acc)"
  by (induction rows arbitrary: acc) (simp_all add: keeps)

lemma preserves_reads:
  assumes "trace_free I"
  shows "preserves I (getUserData env h)" "preserves I (getTradingData env h)"
    "preserves I (getProductList env h)" "preserves I (getExistOrder env h)"
  unfolding getUserData_def getTradingData_def getProductList_def getExistOrder_def
  by (intro preserves_select_rows keeps assms)+

text \<open>The users read form a map, whatever the rows are.\<close>

lemma load_users_ordered: "triple (\<lambda>_ :: 's. ordered m) (load_users rows m) (\<lambda>m' _. ordered m')"
proof (induction rows arbitrary: m)
  case (Cons row rows)
  show ?case
  proof (rule tripleI)
    fix s s' :: 's and m'
    assume "ordered m" and run: "load_users (row # rows) m s = (Inr m', s')"
    then obtain ud and s1 :: 's where "load_users rows (map_insert (userID ud) ud m) s1 = (Inr m', s')"
      by (auto simp: bnd_app split: prod.splits sum.splits)
    then show "ordered m'"
      using Cons [of "map_insert (userID ud) ud m"] ordered_insert [OF \<open>ordered m\<close>] unfolding triple_def by blast
  qed
qed (simp add: triple_def)

lemma getUserData_ordered: "triple P (getUserData env h) (\<lambda>users _. ordered users)"
proof (rule tripleI)
  fix s s' :: "'a world_scheme" and users
  assume "getUserData env h s = (Inr users, s')"
  then consider "users = []" | rows and s1 :: "'a world_scheme" where "load_users rows [] s1 = (Inr users, s')"
    by (auto simp: getUserData_def select_rows_def bnd_app seq_def mysql_query_def split: if_splits option.splits)
  then show "ordered users" by cases (auto dest!: load_users_ordered [THEN tripleD, rotated])
qed


subsection \<open>The constructors\<close>

text \<open>The threads before the program starts.\<close>

definition idle :: "'a process_scheme \<Rightarrow> bool" where
  "idle p \<longleftrightarrow> match_at p = At_start \<and> report_at p = Report_poll \<and> (\<forall>a. receivers p a = None) \<and> beating p = []"

text \<open>The trader's own members as its constructor leaves them.\<close>

definition assembled :: "'a process_scheme \<Rightarrow> bool" where
  "assembled p \<longleftrightarrow> idle p \<and> od_ptr p = None \<and> rawBuyside_m p = [] \<and> rawSellside_m p = [] \<and> reportList_m p = []
     \<and> cv_m p = False \<and> (\<forall>a \<in> set (buyside_m p @ sellside_m p). order_heap p a \<noteq> None)"

lemma assembled_trace_free: "trace_free assembled"
  by (simp add: trace_free_def assembled_def idle_def)

lemma assembled_upd [simp]:
  "assembled (s\<lparr>tr_db := h\<rparr>) = assembled s" "assembled (s\<lparr>tradeBasicData := b\<rparr>) = assembled s"
  "assembled (s\<lparr>productList := ps\<rparr>) = assembled s" "assembled (s\<lparr>traderstatus_m := st\<rparr>) = assembled s"
  "assembled (s\<lparr>serverstatus := st\<rparr>) = assembled s" "assembled (s\<lparr>trace := t\<rparr>) = assembled s"
  "assembled (s\<lparr>sr_db := h\<rparr>) = assembled s" "assembled (s\<lparr>userList := us\<rparr>) = assembled s"
  "assembled (s\<lparr>quotesList := qs\<rparr>) = assembled s" "assembled (s\<lparr>connStatus_m := st\<rparr>) = assembled s"
  by (simp_all add: assembled_def idle_def)

lemma load_exist_assembled: "assembled s \<Longrightarrow> assembled (snd (load_exist alloc xs s))"
proof (induction alloc xs arbitrary: s rule: load_exist.induct)
  case (1 a memory alloc x xs)
  let ?o = "(Order memory)\<lparr>nid := od_nid x, orderPrice := od_orderPrice x, o_side := od_side x,
      client_serialNum := od_client_serialnum x\<rparr>"
  let ?s1 = "s\<lparr>order_heap := (order_heap s)(a \<mapsto> ?o)\<rparr>"
  let ?s2 = "if od_side x = 1 then ?s1\<lparr>buyside_m := buyside_m s @ [a]\<rparr> else ?s1\<lparr>sellside_m := sellside_m s @ [a]\<rparr>"
  have "assembled ?s2" using 1(2) by (auto simp: assembled_def idle_def)
  moreover have "load_exist ((a, memory) # alloc) (x # xs) s = load_exist alloc xs ?s2"
    by (simp add: put_order_app seq_ok)
  ultimately show ?case using 1(1) by simp
qed simp_all

lemma Trader_assembled:
  "triple idle (Trader env alloc mode) (\<lambda>_ s :: 'a process_scheme. assembled s \<and> traderstatus_m s)"
proof -
  note free = assembled_trace_free
  have data: "preserves assembled (Trader_essentialData_initialise env :: ('a process_scheme, unit) cpp)"
    unfolding Trader_essentialData_initialise_def
    by (intro keeps preserves_prod preserves_TradingDataHandler preserves_reads free) (simp_all add: td_log_def preserves_log_free free)
  have ex: "preserves assembled (load_exist alloc xs :: ('a process_scheme, unit) cpp)" for xs
    by (rule preservesI) (rule load_exist_assembled)
  have load: "preserves assembled (loadExistOrder env alloc :: ('a process_scheme, unit) cpp)"
    unfolding loadExistOrder_def td_log_def by (intro keeps preserves_reads preserves_log_free ex free)
  show ?thesis
    unfolding Trader_def setTraderStatus_def td_log_def
    by (intro triple_seq [where R = assembled] triple_upd preserves_triple load data preserves_log_free free)
      (simp_all add: assembled_def idle_def)
qed

text \<open>The server's members, once its constructor has run.\<close>

definition served :: "'a process_scheme \<Rightarrow> bool" where
  "served p \<longleftrightarrow> assembled p \<and> traderstatus_m p \<and> connStorage_m p = [] \<and> conn_heap p = [] \<and> ordered (userList p)
     \<and> quotesList p = []"

lemma served_trace_free: "trace_free served"
  by (simp add: trace_free_def served_def)

definition quoted :: "'a process_scheme \<Rightarrow> bool" where
  "quoted p \<longleftrightarrow> assembled p \<and> traderstatus_m p \<and> connStorage_m p = [] \<and> conn_heap p = [] \<and> ordered (userList p)
     \<and> (\<exists>st. quotesList p = [(''KKC'', Some st)] \<and> quote_ok st)"

lemma quoted_trace_free: "trace_free quoted"
  by (simp add: trace_free_def quoted_def)

lemma started_quoted: "started p \<longleftrightarrow> quoted p \<and> connStatus_m p"
  by (auto simp: started_def quoted_def assembled_def idle_def)

lemma essentialData_quoted: "triple served (essentialData_initialise env) (\<lambda>_ :: unit. quoted :: 'a process_scheme \<Rightarrow> bool)"
proof -
  note free = served_trace_free
  have handler: "triple served (TradingDataHandler env opt junk) (\<lambda>_. served :: 'a process_scheme \<Rightarrow> bool)" for opt junk
    by (rule preserves_triple [OF preserves_TradingDataHandler [OF free]])
  have users: "triple served (getUserData env h) (\<lambda>us s :: 'a process_scheme. served s \<and> ordered us)" for h
    using preserves_triple [OF preserves_reads(1) [OF free, of env h]] getUserData_ordered [of served env h]
    by (simp add: triple_def) blast
  have log: "triple served (sr_log lvl doc) (\<lambda>_. served :: 'a process_scheme \<Rightarrow> bool)" for lvl doc
    unfolding sr_log_def by (rule preserves_triple [OF preserves_log_free [OF free]])
  have "literal 60 \<le> literal 60" by code_simp
  then have quote: "triple served (upd (\<lambda>s :: 'a process_scheme. s\<lparr>quotesList := map_insert ''KKC''
      (Some \<lparr>stockNum = junk_int env (trace s), priceNow = literal 60, priceMax = literal 60, priceMin = literal 60\<rparr>)
      (quotesList s)\<rparr>)) (\<lambda>_. quoted)"
    by (intro triple_upd) (simp add: served_def quoted_def quote_ok_def)
  have body: "triple served (upd (\<lambda>s :: 'a process_scheme. s\<lparr>sr_db := h\<rparr>)) (\<lambda>_. served)" for h
    by (intro triple_upd) (simp add: served_def)
  have fill: "triple served (if up then bnd (getUserData env h) (\<lambda>us. upd (\<lambda>s :: 'a process_scheme. s\<lparr>userList := us\<rparr>))
      else sr_log lvl doc) (\<lambda>_. served)" for up h lvl doc
    by (intro triple_if triple_bnd [OF users] log triple_upd) (simp add: served_def)
  show ?thesis
    unfolding essentialData_initialise_def case_prod_beta
    by (intro triple_get_bnd, rule triple_weaken [where P = served and Q = "\<lambda>_. quoted"])
      (intro triple_bnd [OF handler] triple_seq [OF body] triple_seq [OF fill] triple_seq [OF log] quote, simp_all)
qed

text \<open>The accepting thread runs exactly when the server reports a connection.\<close>

lemma socketini_quoted:
  "triple quoted (socketini env) (\<lambda>ready s :: 'a process_scheme. quoted s \<and> (ready \<longrightarrow> connStatus_m s))"
proof -
  have keep: "quoted (s\<lparr>trace := t\<rparr>)" "quoted (s\<lparr>connStatus_m := st\<rparr>)" if "quoted s" for s :: "'a process_scheme" and t st
    using that by (simp_all add: quoted_def)
  then show ?thesis
    by (auto simp: triple_def socketini_def syscall_def bnd_app seq_def sr_log_def setconnStatus_def Let_def
        split: if_splits sum.splits)
qed

lemma Server_started:
  "triple (\<lambda>s :: 'a process_scheme. assembled s \<and> traderstatus_m s) (Server env ini section_name mode)
     (\<lambda>ready s. quoted s \<and> (ready \<longleftrightarrow> connStatus_m s))"
proof -
  have init: "triple (\<lambda>s :: 'a process_scheme. assembled s \<and> traderstatus_m s)
      (upd (\<lambda>s. s\<lparr>connStatus_m := junk_bool env (trace s), mode_m := mode, initFilePath := ini,
            initchosen := section_name, connStorage_m := [], conn_heap := [], userList := [], quotesList := [],
            dq := DataQueue 100, dq_orderhandle := DataQueue 100\<rparr>)) (\<lambda>_. served)"
    by (intro triple_upd) (simp add: served_def assembled_def idle_def ordered_def)
  have ready: "triple quoted (if up then socketini env else ret False)
      (\<lambda>ready s :: 'a process_scheme. quoted s \<and> (ready \<longrightarrow> connStatus_m s))" for up
    by (intro triple_if socketini_quoted triple_ret) simp
  have down: "triple quoted (setconnStatus False) (\<lambda>_ s :: 'a process_scheme. quoted s \<and> \<not> connStatus_m s)"
    unfolding setconnStatus_def by (intro triple_upd) (simp add: quoted_def)
  have final: "triple (\<lambda>s :: 'a process_scheme. quoted s \<and> (r \<longrightarrow> connStatus_m s))
      (if r then ret True else seq (setconnStatus False) (ret False)) (\<lambda>r s. quoted s \<and> (r \<longleftrightarrow> connStatus_m s))" for r
  proof (cases r)
    case False
    then show ?thesis
      using triple_seq [OF down triple_ret, of "\<lambda>r s. quoted s \<and> (r \<longleftrightarrow> connStatus_m s)" False] by simp
  qed (simp add: triple_def)
  show ?thesis
    unfolding Server_def
    by (intro triple_seq [OF init] triple_seq [OF essentialData_quoted] triple_get_bnd,
        rule triple_weaken [where P = quoted], rule triple_bnd [OF ready final]) simp_all
qed

text \<open>
  C11. When \<open>main\<close> has started the threads, the process is in the state the invariants of the
  running process begin with: the books are empty, the loaded orders are at valid addresses,
  the symbol KKC has its first quote and the users form a map. When it has not started
  them, it asks the final wait to end at once. This holds whatever the settings file and
  the database contain, as long as the start-up itself does not fail.
\<close>

theorem main_starts:
  assumes "idle p0" and "main_program env alloc args p0 = (Inr ready, p)"
  shows "(ready \<longrightarrow> started p) \<and> (\<not> ready \<longrightarrow> serverstatus p) \<and> args \<noteq> []"
proof -
  obtain mode rest where args: "args = mode # rest"
    using assms(2) by (cases args) (simp_all add: main_program_def)
  obtain u p1 where trader: "Trader env alloc (mode = ''test'') p0 = (Inr u, p1)"
    and run: "startTransaction env p1 = (Inr ready, p)"
    using assms(2) by (auto simp: main_program_def args seq_def bnd_app split: prod.splits sum.splits)
  have p1: "assembled p1 \<and> traderstatus_m p1" using tripleD [OF Trader_assembled assms(1) trader] .
  obtain up p2 where server: "Server env ''./doc/settings.ini'' ''socket'' (testmode p1) p1 = (Inr up, p2)"
    and rest: "p = (if connStatus_m p2 \<and> \<not> testmode p1 then p2 else p2\<lparr>serverstatus := True\<rparr>)"
    and ready: "ready \<longleftrightarrow> connStatus_m p2 \<and> \<not> testmode p1"
    using run by (auto simp: startTransaction_def bnd_app seq_def getconnStatus_def split: prod.splits sum.splits if_splits)
  have "quoted p2" using tripleD [OF Server_started p1 server] by simp
  then show ?thesis using rest ready args by (auto simp: started_quoted)
qed


subsection \<open>With the shipped settings\<close>

definition shipped_file :: "env \<Rightarrow> bool" where
  "shipped_file env \<longleftrightarrow> read_file env ''./doc/settings.ini'' = Some (render shipped_settings)"

lemma load_shipped:
  assumes "shipped_file env"
  obtains ip where "load_ini env ''./doc/settings.ini'' ''database'' = Inr ip"
  using readLine_section_general [OF shipped_ok, of "take 2 shipped_settings" "''database''" "fst (snd (shipped_settings ! 2))" 1
      "shipped_settings ! 3" "[]" "InitParser ''./doc/settings.ini'' ''database''"] assms that
  by (fastforce simp: shipped_file_def load_ini_def shipped_settings_def InitParser_def read_before_def)

lemma load_shipped_socket:
  assumes "shipped_file env"
  obtains ip where "load_ini env ''./doc/settings.ini'' ''socket'' = Inr ip" and "ini_get ip ''port'' = ''1203''"
proof -
  obtain ip where "readLine (Some (render shipped_settings)) (InitParser ''./doc/settings.ini'' ''socket'') = (Inr (), ip)"
    and "iniContainer ip = foldl (\<lambda>c (k, v). map_put k v c) [] (fst (snd (shipped_settings ! 0)))"
    using readLine_section_general [OF shipped_ok, of "[]" "''socket''" "fst (snd (shipped_settings ! 0))" 1
        "shipped_settings ! 1" "drop 2 shipped_settings" "InitParser ''./doc/settings.ini'' ''socket''"]
    by (auto simp: shipped_settings_def InitParser_def read_before_def)
  then show thesis using assms
    by (intro that [of ip]) (simp_all add: shipped_file_def load_ini_def ini_get_def shipped_settings_def)
qed

lemma load_shipped_test:
  assumes "shipped_file env"
  shows "load_ini env ''./doc/settings.ini'' ''Testdatabase'' = Inl (Undefined Index_past_end)"
proof -
  let ?run = "readLine (Some (render shipped_settings)) (InitParser ''./doc/settings.ini'' ''Testdatabase'')"
  obtain kvs where last: "shipped_settings = take 3 shipped_settings @ [(''Testdatabase'', kvs, 0)]"
    by (simp add: shipped_settings_def)
  have "fst ?run = Inl (Undefined Index_past_end)"
    by (subst last, rule readLine_past_end) (subst last [symmetric], rule shipped_ok)
  then show ?thesis using assms by (cases ?run) (simp add: shipped_file_def load_ini_def)
qed

text \<open>
  C22. With the settings file that is shipped, the test mode cannot start: its section is the
  last one of the file, and reading that reads a vector past its end.
\<close>

theorem test_mode_undefined:
  assumes "read_file env ''./doc/settings.ini'' = Some (render shipped_settings)"
  shows "fst (main_program env alloc (''test'' # rest) s) = Inl (Undefined Index_past_end)"
proof -
  have "initialise env ''Testdatabase'' s' = (Inl (Undefined Index_past_end), s')" for s' :: "'a trader_scheme"
    using load_shipped_test [of env] assms by (simp add: initialise_def shipped_file_def)
  then have "connect_loop env ''Testdatabase'' junk 0 s' = (Inl (Undefined Index_past_end), s')" for junk and s' :: "'a trader_scheme"
    by (simp add: connect_loop.simps [of env "''Testdatabase''" junk 0] bnd_fault)
  then show ?thesis
    by (simp add: main_program_def Trader_def Trader_essentialData_initialise_def TradingDataHandler_def bnd_app seq_def)
qed

definition start_env :: env where
  "start_env = quiet_env\<lparr>read_file := \<lambda>_. Some (render shipped_settings)\<rparr>"

theorem main_starts_witness:
  "started (snd (main_program start_env [] [''run''] (at_point fresh_trader At_start)))"
proof -
  let ?p = "at_point fresh_trader At_start"
  have env: "connect_ok start_env t" "query_rows start_env t = Some []" "syscall_ok start_env t n" for t n
    by (simp_all add: start_env_def quiet_env_def)
  have shipped: "shipped_file start_env" by (simp add: start_env_def shipped_file_def)
  obtain ip where db: "load_ini start_env ''./doc/settings.ini'' ''database'' = Inr ip"
    by (rule load_shipped [OF shipped])
  obtain ip' where sock: "load_ini start_env ''./doc/settings.ini'' ''socket'' = Inr ip'" "ini_get ip' ''port'' = ''1203''"
    by (rule load_shipped_socket [OF shipped])
  have port: "stoi ''1203'' = Inr 1203" by code_simp
  have up: "TradingDataHandler start_env ''database'' junk s = (Inr \<lparr>conn = True, connstatus = True, sql_dq = DataQueue 100\<rparr>,
      s\<lparr>trace := trace s @ [Db_connect (c_str (ini_get ip ''addr'')) (c_str (ini_get ip ''user'')) ''Aa1234''
         (c_str (ini_get ip ''database'')) 3306, Log ''DB'' DEBUG ''(MariaDB) DB connect success '']\<rparr>)" for junk and s :: process
    by (simp add: TradingDataHandler_def connect_loop.simps [of start_env "''database''" junk 0] initialise_def bnd_app seq_def db env)
  have rows: "select_rows start_env \<lparr>conn = True, connstatus = True, sql_dq = q\<rparr> sql x body s
      = body [] (s\<lparr>trace := trace s @ [Log ''DB'' DEBUG (''(MariaDB) sql command : '' @ sql), Query (c_str sql)]\<rparr>)"
      for q sql x and body :: "_ \<Rightarrow> (process, 'b) cpp" and s :: process
    by (simp add: select_rows_def mysql_query_def bnd_app seq_def env)
  have "fst (main_program start_env [] [''run''] ?p) = Inr True"
    by (simp add: main_program_def Trader_def Trader_essentialData_initialise_def loadExistOrder_def startTransaction_def
        Server_def essentialData_initialise_def getUserData_def getTradingData_def getProductList_def getExistOrder_def
        socketini_def syscall_def setTraderStatus_def setconnStatus_def getconnStatus_def Let_def seq_def bnd_app up rows sock port env)
  moreover have "idle ?p" by (simp add: idle_def at_point_def process.defs trader.defs)
  ultimately show ?thesis using main_starts [of ?p start_env "[]" "[''run'']" True] by (metis surjective_pairing)
qed

theorem test_mode_undefined_witness:
  "fst (main_program start_env [] [''test''] (at_point fresh_trader At_start)) = Inl (Undefined Index_past_end)"
  by (rule test_mode_undefined) (simp add: start_env_def)

end
