(* ===== verification/Process_Faults.thy ===== *)
theory Process_Faults
  imports Startup_Facts
begin

section \<open>How the running process can fail\<close>

text \<open>
  Pointers of the process are typed: an entry of the connection map points to a connection
  that exists and carries the entry's number, and a thread only runs for a connection that
  exists. This is kept by every step, and in a state with it a step can only fail for the
  reasons listed for its thread; no step ever uses a dangling pointer.
\<close>

subsection \<open>Operations with a limited set of faults\<close>

text \<open>\<open>limited F I m\<close>: from a state with \<open>I\<close>, \<open>m\<close> leaves one and faults at most with a fault of \<open>F\<close>.\<close>

definition limited :: "fault set \<Rightarrow> ('s \<Rightarrow> bool) \<Rightarrow> ('s, 'a) cpp \<Rightarrow> bool" where
  "limited F I m \<longleftrightarrow> (\<forall>s. I s \<longrightarrow> I (snd (m s)) \<and> (\<forall>f. fst (m s) = Inl f \<longrightarrow> f \<in> F))"

named_theorems limits \<open>rules of \<open>limited\<close>\<close>

lemma limitedI: "(\<And>s. I s \<Longrightarrow> I (snd (m s)) \<and> (\<forall>f. fst (m s) = Inl f \<longrightarrow> f \<in> F)) \<Longrightarrow> limited F I m"
  by (simp add: limited_def)

lemma limitedD: "limited F I m \<Longrightarrow> I s \<Longrightarrow> m s = (Inl f, s') \<Longrightarrow> f \<in> F"
  by (metis fst_conv limited_def)

lemma limited_keeps: "limited F I m \<Longrightarrow> preserves I m"
  by (simp add: limited_def preserves_def)

lemma limited_more: "limited F I m \<Longrightarrow> F \<subseteq> G \<Longrightarrow> limited G I m"
  by (auto simp: limited_def)

lemma limited_ret [limits]: "limited F I (ret x)"
  and limited_fail [limits]: "f \<in> F \<Longrightarrow> limited F I (fail f)"
  and limited_get [limits]: "limited F I (get g)"
  and limited_lift: "(\<And>f. r = Inl f \<Longrightarrow> f \<in> F) \<Longrightarrow> limited F I (lift r)"
  and limited_vec_at [limits]: "Undefined Index_past_end \<in> F \<Longrightarrow> limited F I (vec_at xs i)"
  and limited_upd [limits]: "(\<And>s. I s \<Longrightarrow> I (u s)) \<Longrightarrow> limited F I (upd u)"
  by (simp_all add: limited_def vec_at_def)

lemma limited_bnd [limits]: "limited F I m \<Longrightarrow> (\<And>x. limited F I (k x)) \<Longrightarrow> limited F I (bnd m k)"
  by (fastforce simp: limited_def bnd_def split: prod.splits sum.splits)

lemma limited_seq [limits]: "limited F I m \<Longrightarrow> limited F I k \<Longrightarrow> limited F I (seq m k)"
  unfolding seq_def by (rule limited_bnd)

lemma limited_if [limits]:
  "(b \<Longrightarrow> limited F I m) \<Longrightarrow> (\<not> b \<Longrightarrow> limited F I k) \<Longrightarrow> limited F I (if b then m else k)"
  by simp

lemma limited_option [limits]:
  "(v = None \<Longrightarrow> limited F I m) \<Longrightarrow> (\<And>y. v = Some y \<Longrightarrow> limited F I (f y)) \<Longrightarrow>
    limited F I (case v of None \<Rightarrow> m | Some y \<Rightarrow> f y)"
  by (cases v) simp_all

lemma limited_prod [limits]: "(\<And>x y. v = (x, y) \<Longrightarrow> limited F I (f x y)) \<Longrightarrow> limited F I (case v of (x, y) \<Rightarrow> f x y)"
  by (cases v) simp

lemma limited_for_each [limits]: "(\<And>x. limited F I (f x)) \<Longrightarrow> limited F I (for_each xs f)"
  by (induction xs) (auto intro: limits)

text \<open>A handler takes over every exception, but nothing else.\<close>

lemma limited_try:
  assumes "limited (F \<union> range Throw) I m" and "\<And>e. limited F I (h e)"
  shows "limited F I (try_catch m h)"
proof (rule limitedI)
  fix s
  assume I: "I s"
  have m: "I (snd (m s))" "fst (m s) = Inl f \<Longrightarrow> f \<in> F \<union> range Throw" for f
    using assms(1) I by (simp_all add: limited_def)
  show "I (snd (try_catch m h s)) \<and> (\<forall>f. fst (try_catch m h s) = Inl f \<longrightarrow> f \<in> F)"
  proof (cases "\<exists>e. fst (m s) = Inl (Throw e)")
    case True
    then obtain e s1 where "m s = (Inl (Throw e), s1)" by (metis prod.collapse)
    then show ?thesis using assms(2) [of e] m(1) by (simp add: limited_def try_throw)
  next
    case False
    then have "try_catch m h s = m s" by (auto simp: try_catch_def split: prod.splits sum.splits fault.splits)
    then show ?thesis using False m by auto
  qed
qed

lemma limited_preserves: "preserves I m \<Longrightarrow> (\<And>s. I s \<Longrightarrow> \<exists>x. fst (m s) = Inr x) \<Longrightarrow> limited F I m"
  by (auto simp: limited_def preserves_def) (metis Inl_Inr_False)

lemma statement_returns: "\<exists>x. fst (run_statement env q f ok s) = Inr x"
  by (auto simp: run_statement_app Let_def)

text \<open>A failing conversion throws.\<close>

lemma conversion_faults:
  "stoi t = Inl f \<Longrightarrow> f \<in> range Throw" "stod t = Inl f \<Longrightarrow> f \<in> range Throw"
  by (auto simp: stoi_def conv_int_def stod_def Let_def split: option.splits if_splits prod.splits scanned.splits)

lemma limited_conversion [limits]:
  "range Throw \<subseteq> F \<Longrightarrow> limited F I (lift (stoi t))" "range Throw \<subseteq> F \<Longrightarrow> limited F I (lift (stod t))"
  using conversion_faults by (auto intro!: limited_lift)

subsection \<open>The operations of the server\<close>

text \<open>Entries of the connection map, and the connections threads run for.\<close>

definition linked :: "'a server_scheme \<Rightarrow> bool" where
  "linked s \<longleftrightarrow> (\<forall>k a. (k, Some a) \<in> set (connStorage_m s) \<longrightarrow>
     a < length (conn_heap s) \<and> connectionID_m (conn_heap s ! a) = k \<and> 0 \<le> k \<and> k < 99)"

lemma map_find_entry: "map_find m k = Some v \<Longrightarrow> (k, v) \<in> set m"
  by (rule map_of_SomeD)

lemma linkedD: "linked s \<Longrightarrow> map_find (connStorage_m s) k = Some (Some a) \<Longrightarrow> a < length (conn_heap s)"
  by (auto simp: linked_def dest: map_find_entry)

lemma set_insert: "set (map_insert k v m) \<subseteq> insert (k, v) (set m)"
  by (induction k v m rule: map_insert.induct) auto

lemma set_erase: "set (map_erase k m) \<subseteq> set m"
  by (auto simp: map_erase_def)

lemma steady_linked: "steady env (linked :: 'a server_scheme \<Rightarrow> bool)"
  unfolding steady_def
proof (intro allI impI conjI)
  fix s :: "'a server_scheme"
  assume I: "linked s"
  show "linked (s\<lparr>conn_heap := (conn_heap s)[a := (conn_heap s ! a)\<lparr>recvStatus_m := b\<rparr>]\<rparr>)"
    if "a < length (conn_heap s)" for a b
    using I that by (auto simp: linked_def nth_list_update)
  show "linked (s\<lparr>conn_heap := (conn_heap s)[a := (conn_heap s ! a)\<lparr>login_flag_m := True, username := u\<rparr>]\<rparr>)"
    if "a < length (conn_heap s) \<and> map_find (userList s) u \<noteq> None" for a u
    using I that by (auto simp: linked_def nth_list_update)
  show "linked (s\<lparr>conn_heap := conn_heap s @ [Connection fd k (junk_bool env t)],
      connStorage_m := map_insert k (Some (length (conn_heap s))) (connStorage_m s)\<rparr>)" if "0 \<le> k \<and> k < 99" for fd k t
    using I that by (auto simp: linked_def nth_append Connection_def dest!: set_insert [THEN subsetD])
  show "linked (s\<lparr>connStorage_m := map_insert k None (connStorage_m s)\<rparr>)" for k
    using I by (auto simp: linked_def dest!: set_insert [THEN subsetD])
  show "linked (s\<lparr>connStorage_m := map_erase k (connStorage_m s)\<rparr>)" for k
    using I by (auto simp: linked_def dest!: set_erase [THEN subsetD])
qed (simp_all add: linked_def)


text \<open>
  The contract between the server's operations and an invariant of the process: it survives
  what the server changes, and its connection map is linked.
\<close>

locale linked_invariant =
  fixes env :: env and J :: "'a server_scheme \<Rightarrow> bool"
  assumes steady: "steady env J" and link: "J s \<Longrightarrow> linked s"
begin

lemma log [limits]: "limited F J (sr_log lvl doc)"
  by (rule limited_preserves [OF steady_sr_log [OF steady]]) simp

lemma object [limits]: "limited F J (getConnObject k)"
  by (rule limited_preserves [OF steady_getConnObject [OF steady]])
    (simp add: getConnObject_def bnd_app seq_def split: prod.splits)

lemma to_client [limits]:
  assumes "Undefined Null_deref \<in> F" shows "limited F J (sendToClient env k msg)"
proof (rule limitedI)
  fix s :: "'a server_scheme"
  assume J: "J s"
  have "fst (sendToClient env k msg s) \<in> {Inr (), Inl (Undefined Null_deref)}"
    using sendToClient_app [OF _ linkedD [OF link [OF J]]] sendToClient_unknown [of s k env msg]
    by (cases "map_find (connStorage_m s) k"; cases "the (map_find (connStorage_m s) k)") auto
  then show "J (snd (sendToClient env k msg s)) \<and> (\<forall>f. fst (sendToClient env k msg s) = Inl f \<longrightarrow> f \<in> F)"
    using steady_sendToClient [OF steady, of k msg] J assms by (auto simp: preserves_def)
qed

lemma quote [limits]: "Undefined Null_deref \<in> F \<Longrightarrow> limited F J (deref_quote k)"
proof (rule limitedI)
  fix s :: "'a server_scheme"
  assume "Undefined Null_deref \<in> F" and "J s"
  then show "J (snd (deref_quote k s)) \<and> (\<forall>f. fst (deref_quote k s) = Inl f \<longrightarrow> f \<in> F)"
    using steady_deref_quote [OF steady, of k]
    by (auto simp: preserves_def) (auto simp: deref_quote_def bnd_app seq_def split: prod.splits option.splits)
qed

lemma free_entries:
  assumes "Undefined Null_deref \<in> F" and "Undefined Deref_end \<in> F" and "\<forall>b. Some b \<in> snd ` set es \<longrightarrow> b < length (conn_heap s)"
  shows "fst (free_from es s) = Inl f \<Longrightarrow> f \<in> F"
  using assms(3)
proof (induction es arbitrary: s rule: length_induct)
  case (1 es)
  show ?case
  proof (cases es)
    case Nil
    then show ?thesis using 1 by simp
  next
    case (Cons e rest)
    obtain k q where e: "e = (k, q)" by force
    show ?thesis
    proof (cases q)
      case None
      then show ?thesis using 1 assms Cons e by simp
    next
      case (Some b)
      then have b: "b < length (conn_heap s)" using 1(3) Cons e by auto
      show ?thesis
      proof (cases "getRecvStatus (conn_heap s ! b)")
        case True
        then have "fst (free_from rest s) = Inl f" using 1(2) Cons e Some b by (simp add: bnd_app deref_conn_app)
        then show ?thesis using 1(1,3) Cons by auto
      next
        case False
        define s1 where "s1 = s\<lparr>trace := trace s @ [Log ''SR'' DEBUG (''(Server): free empty socket '' @ to_string k)],
            connStorage_m := map_erase k (connStorage_m s)\<rparr>"
        then have heap: "conn_heap s1 = conn_heap s" by simp
        have run: "free_from es s = (case rest of [] \<Rightarrow> fail (Undefined Deref_end) s1 | _ # rest' \<Rightarrow> free_from rest' s1)"
          using Cons e Some b False s1_def by (cases rest) (simp_all add: bnd_app deref_conn_app seq_def)
        show ?thesis
        proof (cases rest)
          case Nil
          then show ?thesis using 1(2) run assms(2) by simp
        next
          case (Cons e' rest')
          then have "fst (free_from rest' s1) = Inl f" using 1(2) run by simp
          moreover have "length rest' < length es" "\<forall>b. Some b \<in> snd ` set rest' \<longrightarrow> b < length (conn_heap s1)"
            using 1(3) \<open>es = e # rest\<close> Cons heap by auto
          ultimately show ?thesis using 1(1) by blast
        qed
      qed
    qed
  qed
qed

lemma freeEmpty [limits]:
  assumes "Undefined Null_deref \<in> F" and "Undefined Deref_end \<in> F" shows "limited F J freeEmptysocket"
proof (rule limitedI)
  fix s :: "'a server_scheme"
  assume J: "J s"
  have "\<forall>b. Some b \<in> snd ` set (connStorage_m s) \<longrightarrow> b < length (conn_heap s)"
    using link [OF J] by (auto simp: linked_def)
  then show "J (snd (freeEmptysocket s)) \<and> (\<forall>f. fst (freeEmptysocket s) = Inl f \<longrightarrow> f \<in> F)"
    using free_entries [OF assms, of "connStorage_m s" s] steady_freeEmptysocket [OF steady] J
    by (simp add: preserves_def freeEmptysocket_def bnd_app)
qed


lemma reply [limits]:
  assumes "Undefined Null_deref \<in> F" and "Undefined Index_past_end \<in> F" shows "limited F J (quote_reply env msg)"
  unfolding quote_reply_def Let_def by (intro limited_try limits) (use assms in auto)

lemma queues [limits]:
  "limited F J (zoom dq (\<lambda>q s. s\<lparr>dq := q\<rparr>) (pushDTA v))"
  "limited F J (zoom dq_orderhandle (\<lambda>q s. s\<lparr>dq_orderhandle := q\<rparr>) (pushDTA v))"
  by (rule limited_preserves [OF steady_queues(1) [OF steady]], simp add: zoom_def push_app)
    (rule limited_preserves [OF steady_queues(2) [OF steady]], simp add: zoom_def push_app)

lemma handler [limits]:
  assumes "Undefined Null_deref \<in> F" and "Undefined Index_past_end \<in> F" shows "limited F J (msgHandler env msg)"
  unfolding msgHandler_def by (intro limits limited_try) (use assms in auto)


lemma statements [limits]:
  "limited F J (addTrader env ud)" "limited F J (insertOrder env od)" "limited F J (insertReport env n p e sd c)"
  "limited F J (updateOrderSituation env n st)" "limited F J (updateOrderPrice env n p)"
  unfolding addTrader_def insertOrder_def insertReport_def updateOrderSituation_def updateOrderPrice_def
  by (rule limited_preserves [OF preserves_statement [OF steady_trace_free [OF steady]] statement_returns])+

lemma register:
  assumes "Undefined Index_past_end \<in> F" and "range Throw \<subseteq> F" shows "limited F J (register_user env msg)"
  unfolding register_user_def Let_def by (intro limits steadyD(7) [OF steady]) (use assms in auto)

end

text \<open>The contract of a thread of connection \<open>a\<close>: the connection exists.\<close>

locale seated_invariant = linked_invariant env J for env :: env and J :: "'a server_scheme \<Rightarrow> bool" +
  fixes a :: nat
  assumes live: "J s \<Longrightarrow> a < length (conn_heap s)"
begin

lemma deref [limits]: "limited F J (deref_conn a)"
  by (rule limited_preserves [OF steady_deref_conn]) (simp add: deref_conn_app live)

lemma send [limits]: "limited F J (conn_sendto env a str)"
  by (rule limited_preserves [OF steady_conn_sendto [OF steady]]) (simp add: conn_sendto_app live)

lemma recv:
  assumes "Undefined Buffer_overflow \<in> F" shows "limited F J (conn_recvfrom a r str)"
proof (rule limitedI)
  fix s :: "'a server_scheme"
  assume J: "J s"
  have "recvfrom r str c = (Inl f, c') \<Longrightarrow> f = Undefined Buffer_overflow" for c c' f
    by (auto simp: recvfrom_def seq_def bnd_app split: option.splits list.splits if_splits)
  then show "J (snd (conn_recvfrom a r str s)) \<and> (\<forall>f. fst (conn_recvfrom a r str s) = Inl f \<longrightarrow> f \<in> F)"
    using steady_conn_recvfrom [OF steady, of a r str] J assms live [OF J]
    by (auto simp: preserves_def conn_recvfrom_def bnd_app deref_conn_app zoom_def split: prod.splits)
qed

lemma login:
  assumes "Undefined Index_past_end \<in> F" and "Undefined Deref_end \<in> F" shows "limited F J (login_attempt env res a)"
proof (rule limitedI)
  fix s :: "'a server_scheme"
  assume J: "J s"
  have "fst (login_attempt env res a s) = Inl f \<Longrightarrow> f \<in> F" for f
  proof -
    let ?P = "\<lambda>s :: 'a server_scheme. a < length (conn_heap s)"
    have "limited F ?P (conn_sendto env a str)" for str
      by (rule limitedI) (simp add: conn_sendto_app)
    moreover have "limited F ?P (deref_conn a)"
      by (rule limitedI) (simp add: deref_conn_app)
    moreover have "limited F ?P (sr_log lvl doc)" "limited F ?P (put_conn a c)" for lvl doc c
      by (simp_all add: limited_def put_conn_app)
    ultimately have "limited F ?P (login_attempt env res a)"
      unfolding login_attempt_def by (intro limits) (use assms in auto)
    then show "fst (login_attempt env res a s) = Inl f \<Longrightarrow> f \<in> F" using live [OF J] by (auto simp: limited_def)
  qed
  then show "J (snd (login_attempt env res a s)) \<and> (\<forall>f. fst (login_attempt env res a s) = Inl f \<longrightarrow> f \<in> F)"
    using steady_login_attempt [OF steady, of res a] J by (simp add: preserves_def)
qed

lemma login_handler:
  assumes "Undefined Index_past_end \<in> F" and "Undefined Deref_end \<in> F" shows "limited F J (loginMsgHandle env msg a)"
  unfolding loginMsgHandle_def Let_def by (intro limits limited_try login register) (use assms in auto)

lemma handle:
  assumes "Undefined Index_past_end \<in> F" and "Undefined Deref_end \<in> F" and "Undefined Null_deref \<in> F"
  shows "limited F J (handle_frame env a sub)"
  unfolding handle_frame_def by (intro limits login_handler) (use assms in auto)

lemma receiving:
  assumes "Undefined ` {Buffer_overflow, Front_of_empty, Index_past_end, Null_deref, Deref_end} \<subseteq> F"
  shows "limited F J (msgRecv_turn env a r regs)"
proof -
  have cut: "f = Undefined Front_of_empty" if "frame temp str = Inl f" for temp str f
    using that by (auto simp: frame_def Let_def split: if_splits option.splits)
  show ?thesis
    unfolding msgRecv_turn_def case_prod_beta getconnStatus_def Let_def
    by (intro limits recv handle limited_lift) (use assms in \<open>auto dest: cut\<close>)
qed

lemma beat:
  assumes "Undefined ` {Null_deref, Deref_end} \<subseteq> F" shows "limited F J (heartbeat_turn env a)"
  unfolding heartbeat_turn_def getconnStatus_def by (intro limits) (use assms in auto)

end

lemma acceptConn_returns: "\<exists>x. fst (acceptConn_turn env fd s) = Inr x"
  by (simp add: acceptConn_turn_def seq_def bnd_app setconnStatus_def)


subsection \<open>The operations of the trader\<close>

lemma steady_conj: "steady env I \<Longrightarrow> steady env K \<Longrightarrow> steady env (\<lambda>s. I s \<and> K s)"
proof -
  assume I: "steady env I" and K: "steady env K"
  show ?thesis
    unfolding steady_def by (simp add: steadyD [OF I] steadyD [OF K])
qed

lemma steady_live: "steady env (\<lambda>s. a < length (conn_heap s))"
  by (simp add: steady_def)

text \<open>The connections are linked and connection \<open>a\<close> exists.\<close>

definition attached :: "nat \<Rightarrow> 'a server_scheme \<Rightarrow> bool" where
  "attached a s \<longleftrightarrow> linked s \<and> a < length (conn_heap s)"

lemma steady_attached: "steady env (attached a :: 'a server_scheme \<Rightarrow> bool)"
  unfolding attached_def [abs_def] by (rule steady_conj [OF steady_linked steady_live])

text \<open>The loaded orders exist; \<open>holding a\<close>: order \<open>a\<close> exists as well.\<close>

definition stocked :: "'a trader_scheme \<Rightarrow> bool" where
  "stocked s \<longleftrightarrow> linked s \<and> (\<forall>a. a \<in> set (buyside_m s) \<union> set (sellside_m s) \<longrightarrow> order_heap s a \<noteq> None)"

definition holding :: "nat \<Rightarrow> 'a trader_scheme \<Rightarrow> bool" where
  "holding a s \<longleftrightarrow> stocked s \<and> order_heap s a \<noteq> None"

lemma steady_stocked: "steady env (stocked :: 'a trader_scheme \<Rightarrow> bool)"
proof -
  have "stable (\<lambda>s :: 'a trader_scheme. \<forall>a. a \<in> set (buyside_m s) \<union> set (sellside_m s) \<longrightarrow> order_heap s a \<noteq> None)"
    by (simp add: stable_def)
  then show ?thesis
    unfolding stocked_def [abs_def] by (intro steady_conj steady_linked steady_stable)
qed

lemma steady_holding: "steady env (holding a :: 'a trader_scheme \<Rightarrow> bool)"
proof -
  have "stable (\<lambda>s :: 'a trader_scheme. order_heap s a \<noteq> None)" by (simp add: stable_def)
  then show ?thesis
    unfolding holding_def [abs_def] by (intro steady_conj steady_stocked steady_stable)
qed

interpretation stock: linked_invariant env "stocked :: 'a trader_scheme \<Rightarrow> bool" for env
  by unfold_locales (simp_all add: steady_stocked stocked_def)

interpretation held: linked_invariant env "holding a :: 'a trader_scheme \<Rightarrow> bool" for env a
  by unfold_locales (simp_all add: steady_holding holding_def stocked_def)

interpretation seat: seated_invariant env "attached a :: 'a server_scheme \<Rightarrow> bool" a for env a
  by unfold_locales (simp_all add: steady_attached attached_def)

lemma td_limits [limits]: "limited F stocked (td_log lvl doc)" "limited F (holding a) (td_log lvl doc)"
  by (simp_all add: limited_def stocked_def holding_def linked_def)

lemma put_limits [limits]: "limited F (holding a) (put_order b ord)" "limited F stocked (put_order b ord)"
  by (simp_all add: limited_def put_order_app holding_def stocked_def linked_def)

lemma deref_limits [limits]: "limited F (holding a) (deref_order a)"
  by (auto simp: limited_def holding_def deref_order_def bnd_app)

lemma answer_limits [limits]:
  assumes "Undefined ` {Index_past_end, Null_deref} \<union> range Throw \<subseteq> F"
  shows "limited F stocked (answer env res t)" "limited F (holding a) (answer env res t)"
  unfolding answer_def by (intro limits stock.to_client held.to_client; use assms in auto)+

lemma find_order_alive:
  "\<forall>a \<in> set as. order_heap s a \<noteq> None \<Longrightarrow>
   \<exists>r. find_order n as s = (Inr r, s) \<and> (\<forall>a. r = Some a \<longrightarrow> a \<in> set as)"
  by (induction as) (auto simp: bnd_app deref_order_def)

lemma found_limits:
  assumes book: "\<And>s. stocked s \<Longrightarrow> \<forall>a \<in> set (book s). order_heap s a \<noteq> None"
    and none: "limited F stocked (k None)" and some: "\<And>a. limited F (holding a) (k (Some a))"
  shows "limited F stocked (bnd (bnd (get book) (find_order n)) k)"
proof (rule limitedI)
  fix s :: "'a trader_scheme"
  assume s: "stocked s"
  then obtain r where run: "find_order n (book s) s = (Inr r, s)" and r: "\<forall>a. r = Some a \<longrightarrow> a \<in> set (book s)"
    using find_order_alive book by blast
  show "stocked (snd (bnd (bnd (get book) (find_order n)) k s))
      \<and> (\<forall>f. fst (bnd (bnd (get book) (find_order n)) k s) = Inl f \<longrightarrow> f \<in> F)"
  proof (cases r)
    case None
    then show ?thesis using run none s by (simp add: bnd_app limited_def)
  next
    case (Some a)
    then have "holding a s" using r book s by (auto simp: holding_def)
    then show ?thesis using run some [of a] Some by (auto simp: bnd_app limited_def holding_def)
  qed
qed

lemma holding_gone:
  "holding a s \<Longrightarrow> holding a (s\<lparr>buyside_m := remove1 b (buyside_m s)\<rparr>)"
  "holding a s \<Longrightarrow> holding a (s\<lparr>sellside_m := remove1 b (sellside_m s)\<rparr>)"
  using set_remove1_subset [of b "buyside_m s"] set_remove1_subset [of b "sellside_m s"]
  by (auto simp: holding_def stocked_def linked_def)

lemma cancel_limits:
  assumes "Undefined ` {Index_past_end, Null_deref} \<union> range Throw \<subseteq> F"
  shows "limited F stocked (cancel_in env res doc buyside_m (\<lambda>b s. s\<lparr>buyside_m := b\<rparr>))"
    and "limited F stocked (cancel_in env res doc sellside_m (\<lambda>b s. s\<lparr>sellside_m := b\<rparr>))"
proof -
  show "limited F stocked (cancel_in env res doc buyside_m (\<lambda>b s. s\<lparr>buyside_m := b\<rparr>))"
    "limited F stocked (cancel_in env res doc sellside_m (\<lambda>b s. s\<lparr>sellside_m := b\<rparr>))"
    unfolding cancel_in_def
    by (rule limited_seq [OF td_limits(1)], rule limited_bnd [OF limited_vec_at], use assms in simp, rule found_limits,
        simp add: stocked_def; simp only: option.case; intro limits answer_limits held.statements holding_gone; use assms in auto)+
qed


lemma modify_limits:
  assumes "Undefined ` {Index_past_end, Null_deref, Foreign_iterator} \<union> range Throw \<subseteq> F"
  shows "limited F stocked (modify_order env res)"
  unfolding modify_order_def
  by (rule limited_seq [OF td_limits(1)], rule limited_bnd [OF limited_vec_at], use assms in simp, rule found_limits,
      simp add: stocked_def; simp only: option.case; intro limits answer_limits held.statements; use assms in auto)

lemma change_limits:
  assumes "Undefined ` {Index_past_end, Null_deref, Foreign_iterator} \<union> range Throw \<subseteq> F"
  shows "limited F stocked (handle_change env res)"
  unfolding handle_change_def by (intro limits cancel_limits modify_limits answer_limits; use assms in auto)

text \<open>A turn that takes a message takes one that is there.\<close>

lemma getCancelOrder_faults:
  assumes "stocked s" and "getCancelOrder_turn env s = (Inl f, s')"
  shows "f \<in> Undefined ` {Index_past_end, Null_deref, Foreign_iterator} \<union> range Throw"
proof -
  have "traderstatus_m s" "dataQueue_m (dq_orderhandle s) \<noteq> []"
    using assms(2) by (auto simp: getCancelOrder_turn_def getTraderStatus_def bnd_app checkSpace_pos split: if_splits)
  then obtain v vs where q: "dataQueue_m (dq_orderhandle s) = v # vs" by (cases "dataQueue_m (dq_orderhandle s)") auto
  let ?s1 = "s\<lparr>trace := trace s @ [Log ''TD'' DEBUG ''(Trader) Handle Order Cancel/Modify''],
      dq_orderhandle := snd (popDTA (dq_orderhandle s))\<rparr>"
  have "getCancelOrder_turn env s = seq (handle_change env (split v ''|'')) (ret True) ?s1"
    using \<open>traderstatus_m s\<close> q
    by (simp add: getCancelOrder_turn_def getTraderStatus_def bnd_app checkSpace_pos seq_def zoom_def pop_Cons)
  then have "\<exists>s2. handle_change env (split v ''|'') ?s1 = (Inl f, s2)"
    using assms(2) by (auto simp: seq_def bnd_app split: prod.splits sum.splits)
  moreover have "stocked ?s1" using assms(1) by (simp add: stocked_def linked_def)
  ultimately show ?thesis using limitedD [OF change_limits [OF subset_refl]] by blast
qed

subsubsection \<open>New orders\<close>

lemma admit_limits:
  assumes "Undefined ` {Index_past_end, Null_deref, Deref_end, Signed_overflow} \<union> range Throw \<subseteq> F"
  shows "limited F (holding a) (admit_order env a ord)"
proof -
  have upds: "holding a (s\<lparr>nid_sub2 := n\<rparr>)" "holding a (s\<lparr>sideFlag := sd\<rparr>)" "holding a (s\<lparr>rawBuyside_m := b\<rparr>)"
    "holding a (s\<lparr>rawSellside_m := b\<rparr>)" "holding a (s\<lparr>cv_m := c\<rparr>)" if "holding a s" for s :: "'a trader_scheme" and n sd b c
    using that by (simp_all add: holding_def stocked_def linked_def)
  have nid: "limited F (holding a) (generateNid :: ('a trader_scheme, int) cpp)"
    by (rule limitedI) (use assms upds(1) in \<open>auto simp: generateNid_def next_nid_def bnd_app seq_def\<close>)
  have db: "limited F (holding a) (insertOrderToDB env od :: ('a trader_scheme, bool) cpp)" for od
    unfolding insertOrderToDB_def by (intro limits held.statements held.log)
  have book: "limited F (holding a) (orderDataInsert a :: ('a trader_scheme, unit) cpp)"
    unfolding orderDataInsert_def by (intro limits upds)
  have accept: "limited F (holding a) (accept_order env a ord :: ('a trader_scheme, unit) cpp)"
    unfolding accept_order_def Let_def by (intro limits nid db book upds held.to_client) (use assms in auto)
  show ?thesis
  proof (rule limitedI)
    fix s :: "'a trader_scheme"
    assume s: "holding a s"
    then have link: "linked s" by (simp add: holding_def stocked_def)
    let ?rest = "\<lambda>cn :: connection. bnd (get (\<lambda>s :: 'a trader_scheme. map_find (userList s) (username cn))) (\<lambda>u. case u of
           None \<Rightarrow> fail (Undefined Deref_end)
         | Some ud \<Rightarrow>
             if balance ud > orderPrice ord * literal 1000 then accept_order env a ord
             else seq (td_log DEBUG ''(Trader) Insufficient balance'')
                      (sendToClient env (connId ord) (nid ord @ ''|failed, Insufficient balance'')))"
    have rest: "limited F (holding a) (?rest cn)" for cn
      by (intro limits accept held.to_client) (use assms in auto)
    have "fst (getConnObject (connId ord) s) = Inr p \<Longrightarrow> snd (getConnObject (connId ord) s) = s2 \<Longrightarrow>
        holding a s2 \<and> (\<forall>ca. p = Some ca \<longrightarrow> ca < length (conn_heap s2))" for p s2
      using held.object [of F a "connId ord"] s linkedD [OF link, of "connId ord"]
      by (cases "map_find (connStorage_m s) (connId ord)") (auto simp: limited_def getConnObject_app)
    moreover obtain p s2 where run: "getConnObject (connId ord) s = (Inr p, s2)"
      by (cases "map_find (connStorage_m s) (connId ord)") (auto simp: getConnObject_app)
    ultimately have h: "holding a s2" and live: "\<forall>ca. p = Some ca \<longrightarrow> ca < length (conn_heap s2)" by auto
    have "admit_order env a ord s = (case p of None \<Rightarrow> (Inl (Undefined Null_deref), s2) | Some ca \<Rightarrow> ?rest (conn_heap s2 ! ca) s2)"
      unfolding admit_order_def by (cases p) (use run live in \<open>simp_all add: bnd_app deref_conn_app\<close>)
    then show "holding a (snd (admit_order env a ord s)) \<and> (\<forall>f. fst (admit_order env a ord s) = Inl f \<longrightarrow> f \<in> F)"
      using rest h assms by (cases p) (simp_all add: limited_def)
  qed
qed


lemma handle_order_limits:
  assumes "Undefined ` {Index_past_end, Null_deref, Deref_end, Signed_overflow} \<union> range Throw \<subseteq> F"
    and "stocked s" and "handle_order env a memory res s = (Inl f, s')"
  shows "f \<in> F"
proof -
  let ?s1 = "s\<lparr>od_ptr := Some a, order_heap := (order_heap s)(a \<mapsto> Order memory)\<rparr>"
  have "holding a ?s1" using assms(2) by (auto simp: holding_def stocked_def linked_def)
  moreover have "limited F (holding a) (bnd (fill_order res (Order memory)) (\<lambda>ord.
     seq (put_order a ord)
    (bnd (get (\<lambda>s :: 'a trader_scheme. (productList s, tradeBasicData s))) (\<lambda>(products, basics).
     bnd (verify products basics ord) (\<lambda>ord.
     seq (put_order a ord)
         (if getStatus ord = VERIFIED then admit_order env a ord
          else seq (td_log DEBUG ''(Trader) Send Error report'')
                   (sendToClient env (connId ord) (nid ord @ ''|failed''))))))))"
    unfolding fill_order_def verify_def by (intro limits admit_limits held.to_client) (use assms(1) in auto)
  ultimately show ?thesis
    using assms(3) by (auto simp: handle_order_def seq_ok put_order_app dest: limitedD)
qed

lemma getOrder_faults:
  assumes "stocked s" and "getOrder_turn env a memory s = (Inl f, s')"
  shows "f \<in> Undefined ` {Index_past_end, Null_deref, Deref_end, Signed_overflow} \<union> range Throw"
proof -
  have "traderstatus_m s" "dataQueue_m (dq s) \<noteq> []"
    using assms(2) by (auto simp: getOrder_turn_def getTraderStatus_def bnd_app checkSpace_pos split: if_splits)
  then obtain v vs where q: "dataQueue_m (dq s) = v # vs" by (cases "dataQueue_m (dq s)") auto
  let ?s1 = "s\<lparr>trace := trace s @ [Log ''TD'' DEBUG ''(Trader) Handle Order Msg''], dq := snd (popDTA (dq s))\<rparr>"
  have "getOrder_turn env a memory s = seq (handle_order env a memory (split v ''|'')) (ret True) ?s1"
    using \<open>traderstatus_m s\<close> q
    by (simp add: getOrder_turn_def getTraderStatus_def bnd_app checkSpace_pos seq_def zoom_def pop_Cons)
  then have "\<exists>s2. handle_order env a memory (split v ''|'') ?s1 = (Inl f, s2)"
    using assms(2) by (auto simp: seq_def bnd_app split: prod.splits sum.splits)
  moreover have "stocked ?s1" using assms(1) by (simp add: stocked_def linked_def)
  ultimately show ?thesis using handle_order_limits [OF subset_refl] by blast
qed

subsubsection \<open>Reports\<close>

lemma report_limits:
  assumes "Undefined Null_deref \<in> F" shows "limited F (holding a) (sendExecReport env a)"
  unfolding sendExecReport_def by (intro limits held.to_client held.statements) (use assms in auto)

lemma report_faults:
  fixes p :: "'a process_scheme"
  assumes c: "consistent p" and link: "linked p" and run: "act env Report_exec p = (Inl f, p')"
  shows "f = Undefined Null_deref"
proof (cases "report_at p")
  case Report_poll
  have busy: "traderstatus_m p" "reportList_m p \<noteq> []"
    using run Report_poll by (auto simp: bnd_app getTraderStatus_def split: if_splits)
  let ?a = "last (reportList_m p)"
  let ?p1 = "p\<lparr>trace := trace p @ [Log ''TD'' DEBUG ''(Trader) Handle Exec Order'']\<rparr>"
  have "?a \<in> set (reportList_m p)" using busy by simp
  then have "holding ?a ?p1"
    using c link by (simp add: holding_def stocked_def linked_def consistent_def books_def)
  moreover have "\<exists>p2. sendExecReport env ?a ?p1 = (Inl f, p2)"
    using run Report_poll busy by (auto simp: bnd_app getTraderStatus_def seq_def split: prod.splits sum.splits)
  ultimately show ?thesis using limitedD [OF report_limits [of "{Undefined Null_deref}"]] by blast
next
  case Report_pop
  then have "reportList_m p \<noteq> []" using c by (simp add: consistent_def popping_def)
  then show ?thesis using run Report_pop by (simp add: bnd_app seq_def)
qed (use run in \<open>simp add: bnd_app\<close>)

subsection \<open>Every step\<close>

text \<open>The threads of connections run for connections that exist.\<close>

definition seated :: "'a process_scheme \<Rightarrow> bool" where
  "seated p \<longleftrightarrow> linked p \<and> (\<forall>a. receivers p a \<noteq> None \<longrightarrow> a < length (conn_heap p))
     \<and> (\<forall>a. a \<in> set (beating p) \<longrightarrow> a < length (conn_heap p))"

lemma steady_seated: "steady env (seated :: 'a process_scheme \<Rightarrow> bool)"
proof -
  have "steady env (\<lambda>p :: 'a process_scheme. (\<forall>a. receivers p a \<noteq> None \<longrightarrow> a < length (conn_heap p))
      \<and> (\<forall>a. a \<in> set (beating p) \<longrightarrow> a < length (conn_heap p)))"
    by (auto simp: steady_def less_Suc_eq)
  then show ?thesis unfolding seated_def [abs_def] by (rule steady_conj [OF steady_linked])
qed

lemma spares_seated: "spares_books (seated :: 'a process_scheme \<Rightarrow> bool)"
  by (simp add: spares_books_def spares_loaded_def seated_def linked_def)

lemma acceptConn_seated:
  "triple seated (acceptConn_turn env fd) (\<lambda>c s :: 'a process_scheme. seated s \<and> (\<forall>a. c = Some a \<longrightarrow> a < length (conn_heap s)))"
proof (rule tripleI)
  fix s s' :: "'a process_scheme" and c
  assume "seated s" and run: "acceptConn_turn env fd s = (Inr c, s')"
  then have "seated s'" using steady_acceptConn [OF steady_seated, of env fd] by (metis preserves_def snd_conv)
  moreover have "c = Some a \<Longrightarrow> a < length (conn_heap s')" for a
    using run by (auto simp: acceptConn_turn_def seq_def bnd_app setconnStatus_def split: if_splits)
  ultimately show "seated s' \<and> (\<forall>a. c = Some a \<longrightarrow> a < length (conn_heap s'))" by blast
qed

lemma seated_act:
  fixes p :: "'a process_scheme"
  assumes "seated p" and "act env a p = (Inr (), p')"
  shows "seated p'"
proof -
  note st = steady_seated [of env] and sp = spares_seated
  have keep: "seated p'" if "preserves (seated :: 'a process_scheme \<Rightarrow> bool) (act env a)"
    using preservesD [OF that assms] .
  show ?thesis
  proof (cases a)
    case (Accept fd)
    have "triple seated (act env (Accept fd)) (\<lambda>_. seated :: 'a process_scheme \<Rightarrow> bool)"
      unfolding act.simps
      by (intro triple_bnd [OF acceptConn_seated] triple_option triple_ret triple_upd) (auto simp: seated_def linked_def)
    then show ?thesis using assms Accept by (auto dest: tripleD)
  next
    case (Receive c r)
    show ?thesis
    proof (cases "receivers p c")
      case None
      then show ?thesis using assms Receive by (simp add: bnd_app)
    next
      case (Some regs)
      let ?I = "\<lambda>q :: 'a process_scheme. seated q \<and> c < length (conn_heap q)"
      have "preserves ?I (msgRecv_turn env c r regs)" by (rule steady_msgRecv [OF steady_conj [OF st steady_live]])
      moreover have "?I p" using assms(1) Some by (simp add: seated_def)
      moreover obtain r' q where "msgRecv_turn env c r regs p = (Inr r', q)" and p': "p' = q\<lparr>receivers := (receivers q)(c := r')\<rparr>"
        using assms(2) Some Receive by (auto simp: bnd_app split: prod.splits sum.splits)
      ultimately have "?I q" by (metis preserves_def snd_conv)
      then show ?thesis by (auto simp: p' seated_def linked_def)
    qed
  next
    case (Heartbeat c)
    have "triple seated (act env (Heartbeat c)) (\<lambda>_. seated :: 'a process_scheme \<Rightarrow> bool)"
      unfolding act.simps
      by (intro triple_bnd [OF preserves_triple [OF steady_heartbeat [OF st]]] triple_if triple_ret triple_upd)
        (auto simp: seated_def linked_def)
    then show ?thesis using assms Heartbeat by (auto dest: tripleD)
  next
    case (Take_order x m)
    then show ?thesis
      by (intro keep) (simp only: act.simps, intro preserves_bnd preserves_ret keeps_getOrder st sp)
  next
    case Take_change
    then show ?thesis
      by (intro keep) (simp only: act.simps, intro preserves_bnd preserves_ret keeps_getCancelOrder st spares_booksD(1) [OF sp])
  next
    case Match
    then show ?thesis using keep keeps_match [OF st sp] by simp
  next
    case Report_exec
    then show ?thesis using keep keeps_report [OF st spares_booksD(1) [OF sp]] by simp
  qed
qed

lemma reachable_seated: "reachable env p0 p \<Longrightarrow> seated p0 \<Longrightarrow> seated p"
  by (induction rule: reachable.induct) (auto elim!: stepE intro: seated_act)

lemma started_seated: "started p \<Longrightarrow> seated p"
  by (simp add: started_def seated_def linked_def)


text \<open>
  C10. In every reachable state the pointers are typed: an entry of the connection map that is
  not null points to a connection that exists, under the number from 0 to 98 that this
  connection itself carries, and every receiving or heartbeat thread runs for a
  connection that exists.
\<close>

theorem pointers_typed:
  assumes "started p0" and "reachable env p0 p"
  shows "(\<forall>k a. map_find (connStorage_m p) k = Some (Some a) \<longrightarrow>
      a < length (conn_heap p) \<and> getConnectionID (conn_heap p ! a) = k \<and> 0 \<le> k \<and> k < 99)
    \<and> (\<forall>a. enabled p (Receive a r) \<or> enabled p (Heartbeat a) \<longrightarrow> a < length (conn_heap p))"
proof -
  have "seated p" using reachable_seated [OF assms(2) started_seated [OF assms(1)]] .
  then show ?thesis by (auto simp: seated_def linked_def getConnectionID_def dest: map_find_entry)
qed

text \<open>What each thread can die of.\<close>

fun causes :: "action \<Rightarrow> fault set" where
  "causes (Accept _) = {}"
| "causes (Receive _ _) = Undefined ` {Buffer_overflow, Front_of_empty, Index_past_end, Null_deref, Deref_end}"
| "causes (Heartbeat _) = Undefined ` {Null_deref, Deref_end}"
| "causes (Take_order _ _) = Undefined ` {Index_past_end, Null_deref, Deref_end, Signed_overflow} \<union> range Throw"
| "causes Take_change = Undefined ` {Index_past_end, Null_deref, Foreign_iterator} \<union> range Throw"
| "causes Match = {}"
| "causes Report_exec = {Undefined Null_deref}"



theorem pointers_typed_witness:
  "\<exists>p. reachable quiet_env (at_point fresh_trader At_start) p \<and> map_find (connStorage_m p) 7 = Some (Some 0)
    \<and> getConnectionID (conn_heap p ! 0) = 7"
proof -
  let ?p = "at_point fresh_trader At_start"
  obtain q where q: "act quiet_env (Accept 9) ?p = (Inr (), q)" "map_find (connStorage_m q) 7 = Some (Some 0)"
    by (simp add: bnd_app acceptConn_turn_def seq_def setconnStatus_def rand_def quiet_env_def at_point_def
        fresh_trader_def small_trader_def trader.defs process.defs)
  have "enabled ?p (Accept 9)"
    by (simp add: at_point_def fresh_trader_def small_trader_def trader.defs process.defs)
  then have r: "reachable quiet_env ?p q" using q(1) by (intro reachable.further [OF reachable.start] step.step)
  then show ?thesis using pointers_typed [OF fresh_started r] q(2) by blast
qed

text \<open>A message without fields in the queue of new orders.\<close>

definition short_message :: trader where
  "short_message = fresh_trader\<lparr>dq := (DataQueue 100)\<lparr>dataQueue_m := [''87'']\<rparr>\<rparr>"


end
