(* ===== verification/Order_Flow.thy ===== *)
theory Order_Flow
  imports Process_Faults
begin

section \<open>An order from the socket to the book\<close>

text \<open>
  The receiving thread of a connection and the thread that takes in orders together: the
  bytes a logged-in client sends reach the queue as the messages they are made of, in
  order and tagged with the connection's number, and the next turn of the other thread
  books the order, stores it in the database and answers on the same connection.
\<close>

text \<open>An order as a client writes it, without the \<open>&\<close> behind it.\<close>

definition order_text :: "string list \<Rightarrow> string" where
  "order_text ws = join (CHR ''|'') (''87'' # ws)"

definition order_fields :: "string list \<Rightarrow> bool" where
  "order_fields ws \<longleftrightarrow> (\<forall>w \<in> set ws. field_ok (CHR ''|'') w \<and> CHR ''&'' \<notin> set w)"

lemma order_text_ok: "order_fields ws \<Longrightarrow> field_ok (CHR ''&'') (order_text ws)"
  by (auto simp: order_fields_def order_text_def field_ok_def join_def NUL_def)

lemma order_text_tagged: "order_text ws @ ''|'' @ to_string k @ ''|'' = tagged (''87'' # ws) k"
  by (simp add: order_text_def tagged_def)

lemma split_orders:
  assumes "\<forall>ws \<in> set orders. order_fields ws" and "orders \<noteq> []"
  shows "frame [] (join (CHR ''&'') (map order_text orders)) = Inr (butlast (join (CHR ''&'') (map order_text orders)), [])"
    and "split (butlast (join (CHR ''&'') (map order_text orders))) ''&'' = map order_text orders"
proof -
  let ?ms = "map order_text orders"
  have ok: "\<forall>m \<in> set ?ms. field_ok (CHR ''&'') m" using assms(1) order_text_ok by auto
  have ms: "?ms = butlast ?ms @ [last ?ms]" using assms(2) by simp
  then have chunk: "join (CHR ''&'') ?ms = join (CHR ''&'') (butlast ?ms) @ last ?ms @ ''&''"
    by (metis append.assoc append_Nil2 concat.simps concat_append join_def list.simps(8,9) map_append)
  then show "frame [] (join (CHR ''&'') ?ms) = Inr (butlast (join (CHR ''&'') ?ms), [])"
    unfolding chunk by (simp add: frame_def butlast_append)
  have last: "field_ok (CHR ''&'') (last ?ms)" using ok assms(2) by (simp add: last_map)
  then have "strtok_all ''&'' (last ?ms) = [last ?ms]"
    by (intro strtok_all_token_end) (auto simp: field_ok_def)
  moreover have "butlast (join (CHR ''&'') ?ms) = join (CHR ''&'') (butlast ?ms) @ last ?ms"
    by (simp add: chunk butlast_append)
  moreover have "\<forall>m \<in> set (butlast ?ms). field_ok (CHR ''&'') m" using ok by (meson in_set_butlastD)
  ultimately show "split (butlast (join (CHR ''&'') ?ms)) ''&'' = ?ms"
    using split_join_append [of "butlast ?ms" "CHR ''&''" "last ?ms"] last ms by (simp add: field_ok_def NUL_def)
qed

text \<open>The handler puts them into the queue one by one.\<close>

lemma handle_orders:
  "\<exists>tr q. for_each (map order_text orders) (\<lambda>m. msgHandler env (m @ ''|'' @ to_string k @ ''|'')) s
      = (Inr (), s\<lparr>trace := tr, dq := q\<rparr>)
    \<and> visible tr = visible (trace s) \<and> dataQueue_m q = dataQueue_m (dq s) @ map (\<lambda>ws. tagged (''87'' # ws) k) orders"
proof (induction orders arbitrary: s)
  case (Cons ws orders)
  let ?s1 = "s\<lparr>trace := trace s @ [Log ''SR'' DEBUG (''(Server) '' @ utf8_order_received)],
      dq := snd (pushDTA (tagged (''87'' # ws) k) (dq s))\<rparr>"
  have "msgHandler env (order_text ws @ ''|'' @ to_string k @ ''|'') s = (Inr (), ?s1)"
    unfolding order_text_tagged
    by (simp add: msgHandler_tagged [OF code_texts(1,2)] try_catch_def seq_def bnd_app zoom_def push_app)
  moreover obtain tr q where "for_each (map order_text orders) (\<lambda>m. msgHandler env (m @ ''|'' @ to_string k @ ''|'')) ?s1
      = (Inr (), ?s1\<lparr>trace := tr, dq := q\<rparr>)" "visible tr = visible (trace ?s1)"
    "dataQueue_m q = dataQueue_m (dq ?s1) @ map (\<lambda>ws. tagged (''87'' # ws) k) orders"
    using Cons [of ?s1] by blast
  ultimately show ?case by (intro exI [of _ tr] exI [of _ q]) (simp add: seq_ok push_app)
next
  case Nil
  show ?case by (intro exI [of _ "trace s"] exI [of _ "dq s"]) simp
qed


text \<open>One turn of the receiving thread on a chunk of order messages.\<close>

lemma receive_orders:
  fixes p :: "'a process_scheme"
  assumes run: "connStatus_m p" and regs: "receivers p a = Some ([], old)"
    and conn: "a < length (conn_heap p)" "recvStatus_m (conn_heap p ! a)" "login_flag_m (conn_heap p ! a)"
    and orders: "\<forall>ws \<in> set orders. order_fields ws" "orders \<noteq> []"
    and bytes: "c_str bytes = join (CHR ''&'') (map order_text orders)" "length bytes < buffer_size"
  obtains tr q where "act env (Receive a (Some bytes)) p
      = (Inr (), p\<lparr>trace := tr, dq := q, receivers := (receivers p)(a \<mapsto> ([], c_str bytes))\<rparr>)"
    and "visible tr = visible (trace p)"
    and "dataQueue_m q = dataQueue_m (dq p) @ map (\<lambda>ws. tagged (''87'' # ws) (connectionID_m (conn_heap p ! a))) orders"
proof -
  let ?c = "conn_heap p ! a" and ?chunk = "join (CHR ''&'') (map order_text orders)"
  let ?k = "connectionID_m (conn_heap p ! a)"
  have "order_text (hd orders) \<noteq> []" by (simp add: order_text_def)
  then have "c_str bytes \<noteq> []" using bytes(1) orders(2) by (cases orders) auto
  then have "bytes \<noteq> []" by (auto simp: c_str_def)
  then have "recvfrom (Some bytes) old ?c = (Inr (True, c_str bytes), ?c)"
    using recvfrom_app(1) [of "Some bytes" bytes old ?c] bytes(2) conn(2) by simp
  then have recv: "conn_recvfrom a (Some bytes) old p = (Inr (True, c_str bytes), p)"
    using conn(1) by (simp add: conn_recvfrom_def bnd_app deref_conn_app zoom_def)
  have cut: "frame [] (c_str bytes) = Inr (butlast ?chunk, [])" "split (butlast ?chunk) ''&'' = map order_text orders"
    using split_orders [OF orders] by (simp_all add: bytes(1))
  have "last (c_str bytes) = CHR ''&''"
  proof -
    have "?chunk = join (CHR ''&'') (butlast (map order_text orders)) @ last (map order_text orders) @ ''&''"
      using orders(2) by (cases orders rule: rev_cases) (simp_all add: join_def)
    then show ?thesis by (simp add: bytes(1))
  qed
  let ?p1 = "p\<lparr>trace := (trace p @ [Log ''SR'' DEBUG (''Recv row msg : '' @ c_str bytes)])
      @ [Log ''SR'' DEBUG ('' Server Receive : '' @ butlast ?chunk)]\<rparr>"
  obtain tr q where each: "for_each (map order_text orders) (\<lambda>m. msgHandler env (m @ ''|'' @ to_string ?k @ ''|'')) ?p1
      = (Inr (), ?p1\<lparr>trace := tr, dq := q\<rparr>)" and tr: "visible tr = visible (trace ?p1)"
    and q: "dataQueue_m q = dataQueue_m (dq ?p1) @ map (\<lambda>ws. tagged (''87'' # ws) ?k) orders"
    using handle_orders by blast
  have "msgRecv_turn env a (Some bytes) ([], old) p = (Inr (Some ([], c_str bytes)), p\<lparr>trace := tr, dq := q\<rparr>)"
    using run recv cut \<open>last (c_str bytes) = CHR ''&''\<close> each conn
    by (simp add: msgRecv_turn_def getconnStatus_def bnd_app seq_def handle_frame_def deref_conn_app getloginstatus_def
        getConnectionID_def)
  then show thesis
    using that [of q tr] tr q regs by (simp add: bnd_app)
qed


text \<open>
  C3. An order takes two turns. The receiving thread of a logged-in connection queues what
  the client wrote; the next turn of the order thread takes it from the (empty) queue,
  books it on the side the client asked for if price, product and balance allow, sends
  one INSERT, and answers on the very connection the order came from. Nothing else that a
  client or the database could see happens in the two turns.
\<close>

theorem order_round:
  assumes running: "connStatus_m p" "traderstatus_m p" and queue: "dataQueue_m (dq p) = []"
    and thread: "receivers p a = Some ([], old)"
    and conn: "a < length (conn_heap p)" "recvStatus_m (conn_heap p ! a)" "login_flag_m (conn_heap p ! a)"
      "map_find (connStorage_m p) k = Some (Some a)" "k = connectionID_m (conn_heap p ! a)" "0 \<le> k" "k < 99"
    and user: "map_find (userList p) (username (conn_heap p ! a)) = Some ud"
    and bytes: "c_str bytes = order_text [n, pr, sd, x, y, sy] @ ''&''" "length bytes < buffer_size"
    and fields: "order_fields [n, pr, sd, x, y, sy]" and nums: "stod pr = Inr price" "stoi sd = Inr sdv"
    and day: "2 < length (tradeBasicData p)" "stod (tradeBasicData p ! 2) = Inr reference"
    and serial: "nid_sub2 p \<noteq> 0x7FFFFFFF"
    and safe: "safe \<longleftrightarrow> in_band reference price \<and> sy \<in> set (productList p)"
    and rich: "rich \<longleftrightarrow> balance ud > price * literal 1000"
    and first: "act env (Receive a (Some bytes)) p = (r1, p1)"
    and second: "act env (Take_order z memory) p1 = (r2, p2)"
  shows "r1 = Inr () \<and> r2 = Inr () \<and> dataQueue_m (dq p2) = []
    \<and> rawBuyside_m p2 = (if safe \<and> rich \<and> sd = ''1'' then insort z (rawBuyside_m p) else rawBuyside_m p)
    \<and> rawSellside_m p2 = (if safe \<and> rich \<and> sd \<noteq> ''1'' then insort z (rawSellside_m p) else rawSellside_m p)
    \<and> (\<exists>query pre answer. visible (trace p2) = visible (trace p) @ (if safe \<and> rich then [Query query] else [])
          @ [Send (connection_socket_m (conn_heap p ! a)) (send_block env pre (n @ answer @ nl))]
        \<and> (safe \<and> rich \<longleftrightarrow> answer \<in> {''|success'', ''|failed, repeat nid''}))"
proof -
  let ?ws = "[n, pr, sd, x, y, sy]"
  have chunk: "c_str bytes = join (CHR ''&'') (map order_text [?ws])" using bytes(1) by simp
  obtain tr q where act1: "act env (Receive a (Some bytes)) p
      = (Inr (), p\<lparr>trace := tr, dq := q, receivers := (receivers p)(a \<mapsto> ([], c_str bytes))\<rparr>)"
    and tr: "visible tr = visible (trace p)" and q: "dataQueue_m q = [tagged (''87'' # ?ws) k]"
    by (rule receive_orders [OF running(1) thread conn(1-3) _ _ chunk bytes(2)])
      (use fields queue conn(5) in simp_all)
  let ?p1 = "p\<lparr>trace := tr, dq := q, receivers := (receivers p)(a \<mapsto> ([], c_str bytes))\<rparr>"
  have p1: "p1 = ?p1" "r1 = Inr ()" using first act1 by simp_all
  obtain r s where turn: "getOrder_turn env z memory ?p1 = (r, s)" by force
  define qu where "qu = c_str (insertOrder_query \<lparr>od_nid = n, od_volumn = 0, od_orderPrice = price, od_symbol = sy,
        od_userID = ''0324027'', od_side = (if sd = ''1'' then 1 else 2),
        od_client_serialnum = sint (nid_key (nid_sub1 ?p1) (nid_sub2 ?p1))\<rparr>)"
  have fields': "\<forall>w \<in> {n, pr, sd, x, y, sy}. field_ok (CHR ''|'') w" using fields by (simp add: order_fields_def)
  have k: "k < 2 ^ 31" using conn(7) by simp
  note intake = getOrder_intake [of ?p1 n pr sd x y sy k "[]" price sdv reference a ud safe rich qu env z memory r s]
  have "r = Inr True \<and> dataQueue_m (dq s) = []
    \<and> rawBuyside_m s = (if safe \<and> rich \<and> sd = ''1'' then insort z (rawBuyside_m p) else rawBuyside_m p)
    \<and> rawSellside_m s = (if safe \<and> rich \<and> sd \<noteq> ''1'' then insort z (rawSellside_m p) else rawSellside_m p)
    \<and> (\<exists>ok pre tr. visible tr = visible (trace ?p1) @ [Query qu] \<and> (ok \<longleftrightarrow> query_rc env tr qu = 0)
        \<and> visible (trace s) = visible (trace ?p1) @ (if safe \<and> rich then [Query qu] else [])
            @ [Send (connection_socket_m (conn_heap p ! a)) (send_block env pre
                (n @ (if \<not> safe then ''|failed'' else if \<not> rich then ''|failed, Insufficient balance''
                      else if ok then ''|success'' else ''|failed, repeat nid'') @ nl))])"
    using intake fields' k turn qu_def assms q by simp
  then obtain ok pre where r: "r = Inr True" "dataQueue_m (dq s) = []"
    and books: "rawBuyside_m s = (if safe \<and> rich \<and> sd = ''1'' then insort z (rawBuyside_m p) else rawBuyside_m p)"
      "rawSellside_m s = (if safe \<and> rich \<and> sd \<noteq> ''1'' then insort z (rawSellside_m p) else rawSellside_m p)"
    and vis: "visible (trace s) = visible tr @ (if safe \<and> rich then [Query qu] else [])
            @ [Send (connection_socket_m (conn_heap p ! a)) (send_block env pre
                (n @ (if \<not> safe then ''|failed'' else if \<not> rich then ''|failed, Insufficient balance''
                      else if ok then ''|success'' else ''|failed, repeat nid'') @ nl))]"
    by auto
  have "r2 = Inr ()" "p2 = s" using second p1 turn r by (simp_all add: bnd_app)
  then show ?thesis using p1 r books vis tr
    by (intro conjI exI [of _ qu] exI [of _ pre] exI [of _ "if \<not> safe then ''|failed'' else if \<not> rich
      then ''|failed, Insufficient balance'' else if ok then ''|success'' else ''|failed, repeat nid''"]) auto
qed


definition attended :: process where
  "attended = (at_point (small_trader\<lparr>dq := DataQueue 100\<rparr>) At_start)\<lparr>receivers := [0 \<mapsto> ([], [])]\<rparr>"

theorem order_round_witness:
  "\<exists>p1 p2. act quiet_env (Receive 0 (Some ''87|313542|60|1|1|1|KKC|&'')) attended = (Inr (), p1)
    \<and> act quiet_env (Take_order 9 (sample_order ''0'' 0 BUY)) p1 = (Inr (), p2) \<and> rawBuyside_m p2 = [4, 9]"
proof -
  let ?ws = "[''313542'', ''60'', ''1'', ''1'', ''1'', ''KKC'']" and ?ud = "\<lparr>userID = ''0324027'', password = ''123'',
    balance = literal 100000, book_value = literal 0\<rparr>"
  have c: "c_str ''87|313542|60|1|1|1|KKC|&'' = order_text ?ws @ ''&''"
    by (simp add: c_str_def NUL_def order_text_def)
  have f: "order_fields ?ws" by (simp add: order_fields_def field_ok_def NUL_def)
  have st: "connStatus_m attended" "traderstatus_m attended" "dataQueue_m (dq attended) = []"
    "receivers attended 0 = Some ([], [])" "0 < length (conn_heap attended)" "recvStatus_m (conn_heap attended ! 0)"
    "login_flag_m (conn_heap attended ! 0)" "map_find (connStorage_m attended) 7 = Some (Some 0)"
    "7 = connectionID_m (conn_heap attended ! 0)"
    "map_find (userList attended) (username (conn_heap attended ! 0)) = Some ?ud"
    "2 < length (tradeBasicData attended)" "nid_sub2 attended \<noteq> 0x7FFFFFFF" "rawBuyside_m attended = [4]"
    "''KKC'' \<in> set (productList attended)" "tradeBasicData attended ! 2 = ''60''"
    by (simp_all add: attended_def at_point_def small_trader_def small_server_def DataQueue_def trader.defs process.defs)
  have day: "stod (tradeBasicData attended ! 2) = Inr (Fin False 60)" using st(15) stod_sixty by simp
  obtain r1 p1 where first: "act quiet_env (Receive 0 (Some ''87|313542|60|1|1|1|KKC|&'')) attended = (r1, p1)" by force
  obtain r2 p2 where second: "act quiet_env (Take_order 9 (sample_order ''0'' 0 BUY)) p1 = (r2, p2)" by force
  from order_round [OF st(1-9) _ _ st(10) c _ f stod_sixty stoi_one st(11) day st(12) refl refl first second]
  show ?thesis using first second st sixty_in_band rich_for_sixty by simp
qed

end
