(* ===== verification/Execution_Flow.thy ===== *)
theory Execution_Flow
  imports Order_Flow
begin

section \<open>From a chosen pair to the reports of both clients\<close>

text \<open>
  The matching thread and the report thread together: a chosen pair is executed, and the two
  reports reach the two clients and the database. With \<open>Order_Flow\<close> this is the way of an order from the
  socket it came from back to that socket.
\<close>

text \<open>What the outside sees of the report of an order.\<close>

definition report_events :: "env \<Rightarrow> event list \<Rightarrow> int \<Rightarrow> order \<Rightarrow> event list" where
  "report_events env pre fd ord =
     [Send fd (send_block env pre (nid ord @ ''|OrderExec'' @ nl)),
      Query (c_str (insertReport_query (nid ord) (to_string_double (orderPrice ord)) (to_string_double (execPrice ord))
        (if getside ord = BUY then ''1'' else ''2'') (to_string (client_serialNum ord)))),
      Query (c_str (updateOrderSituation_query (nid ord) ''2''))]"

text \<open>The two steps of a report.\<close>

lemma report_round:
  fixes p :: "'a process_scheme"
  assumes "traderstatus_m p" and "report_at p = Report_poll" and "reportList_m p = reports @ [x]" and "order_heap p x = Some ord"
    and "map_find (connStorage_m p) (connId ord) = Some (Some ca)" and "ca < length (conn_heap p)"
  obtains tr h pre where "for_each [Report_exec, Report_exec] (act env) p
      = (Inr (), p\<lparr>trace := tr, conn_heap := h, reportList_m := reports\<rparr>)"
    and "visible tr = visible (trace p) @ report_events env pre (connection_socket_m (conn_heap p ! ca)) ord"
    and "length h = length (conn_heap p)" and "\<And>c. connection_socket_m (h ! c) = connection_socket_m (conn_heap p ! c)"
proof -
  let ?p0 = "p\<lparr>trace := trace p @ [Log ''TD'' DEBUG ''(Trader) Handle Exec Order'']\<rparr>"
  obtain s1 tr where send: "sendExecReport env x ?p0 = (Inr (), s1\<lparr>trace := tr\<rparr>)"
    and ans: "answered env ?p0 ca (nid ord @ ''|OrderExec'' @ nl) s1"
    and vis: "visible tr = visible (trace s1) @
      [Query (c_str (insertReport_query (nid ord) (to_string_double (orderPrice ord)) (to_string_double (execPrice ord))
          (if getside ord = BUY then ''1'' else ''2'') (to_string (client_serialNum ord)))),
       Query (c_str (updateOrderSituation_query (nid ord) ''2''))]"
    by (rule sendExecReport_run [of ?p0 x ord ca env]) (use assms(4-6) in simp_all)
  obtain tr1 pre ok where s1: "s1 = ?p0\<lparr>trace := tr1,
      conn_heap := (conn_heap p)[ca := (conn_heap p ! ca)\<lparr>recvStatus_m := ok\<rparr>]\<rparr>"
    and tr1: "visible tr1 = visible (trace p) @ [Send (connection_socket_m (conn_heap p ! ca))
      (send_block env pre (nid ord @ ''|OrderExec'' @ nl))]"
    using ans by (auto simp: answered_def)
  let ?h = "(conn_heap p)[ca := (conn_heap p ! ca)\<lparr>recvStatus_m := ok\<rparr>]"
  have poll: "generateExecReport_step env Report_poll p = (Inr Report_pop, s1\<lparr>trace := tr\<rparr>)"
    using assms(1,3) send by (simp add: bnd_app seq_def getTraderStatus_def)
  let ?p1 = "p\<lparr>trace := tr, conn_heap := ?h, report_at := Report_pop\<rparr>"
  have "act env Report_exec p = (Inr (), ?p1)" using assms(2) poll by (simp add: bnd_app s1 del: generateExecReport_step.simps)
  moreover have "act env Report_exec ?p1 = (Inr (), p\<lparr>trace := tr, conn_heap := ?h, reportList_m := reports\<rparr>)"
    using assms(2,3) by (simp add: bnd_app seq_def)
  ultimately have both: "for_each [Report_exec, Report_exec] (act env) p = (Inr (), p\<lparr>trace := tr, conn_heap := ?h, reportList_m := reports\<rparr>)"
    by (simp add: seq_ok del: act.simps)
  have socket: "connection_socket_m (?h ! c) = connection_socket_m (conn_heap p ! c)" for c
    using assms(6) by (cases "c = ca") simp_all
  show thesis
    by (rule that [where tr = tr and h = ?h and pre = pre]) (use both vis tr1 socket in \<open>simp_all add: s1 report_events_def\<close>)
qed

text \<open>
  C4. A chosen pair, once the mutex is free: the matching thread executes it, and four steps of the report
  thread tell the seller and then the buyer, each on the connection the order came from, with its own
  number; both executions are written to the database at the price of the sell order, and both orders are marked executed there.
  Nothing else that a client or the database could see happens, and no report is left.
\<close>

theorem execution_round:
  fixes p :: "'a process_scheme"
  assumes running: "traderstatus_m p" "match_at p = At_match b sl" "\<not> cv_m p" "report_at p = Report_poll" "reportList_m p = []"
    and orders: "order_heap p b = Some bo" "order_heap p sl = Some so" "b \<noteq> sl" "rawSellside_m p \<noteq> []"
    and quote: "map_find (quotesList p) ''KKC'' = Some (Some st)" "ordered (quotesList p)"
    and buyer: "map_find (connStorage_m p) (connId bo) = Some (Some cb)" "cb < length (conn_heap p)"
    and seller: "map_find (connStorage_m p) (connId so) = Some (Some cs)" "cs < length (conn_heap p)"
    and run: "for_each [Match, Report_exec, Report_exec, Report_exec, Report_exec] (act env) p = (r, p')"
  shows "r = Inr () \<and> match_at p' = At_done \<and> reportList_m p' = []
    \<and> rawBuyside_m p' = remove1 b (rawBuyside_m p) \<and> rawSellside_m p' = butlast (rawSellside_m p)
    \<and> (\<exists>pre1 pre2. visible (trace p') = visible (trace p)
        @ report_events env pre1 (connection_socket_m (conn_heap p ! cs)) (so\<lparr>execPrice := orderPrice so\<rparr>)
        @ report_events env pre2 (connection_socket_m (conn_heap p ! cb)) (bo\<lparr>execPrice := orderPrice so\<rparr>))"
proof -
  let ?bo = "bo\<lparr>execPrice := orderPrice so\<rparr>" and ?so = "so\<lparr>execPrice := orderPrice so\<rparr>"
  define p1 where "p1 = p\<lparr>order_heap := (order_heap p)(b \<mapsto> ?bo, sl \<mapsto> ?so),
      quotesList := map_put ''KKC'' (Some (traded (orderPrice so) st)) (quotesList p),
      reportList_m := [b, sl], rawSellside_m := butlast (rawSellside_m p), rawBuyside_m := remove1 b (rawBuyside_m p),
      trace := trace p @ [Log ''TD'' DEBUG ''(Trader) Match up success''], cv_m := False, match_at := At_done\<rparr>"
  let ?locked = "p\<lparr>cv_m := True\<rparr>"
  have match: "act env Match p = (Inr (), p1)"
    using running orders(1-4) match_execute_app [of ?locked b bo sl so st] quote
    by (simp add: bnd_app seq_def lock_cv_def unlock_cv_def p1_def)
  have p1: "traderstatus_m p1" "report_at p1 = Report_poll" "reportList_m p1 = [b] @ [sl]" "order_heap p1 sl = Some ?so"
    "order_heap p1 b = Some ?bo" "connStorage_m p1 = connStorage_m p" "conn_heap p1 = conn_heap p" "connId ?so = connId so"
    using running orders(3) by (simp_all add: p1_def)
  obtain tr2 h2 pre1 where two: "for_each [Report_exec, Report_exec] (act env) p1
      = (Inr (), p1\<lparr>trace := tr2, conn_heap := h2, reportList_m := [b]\<rparr>)"
    and vis2: "visible tr2 = visible (trace p1) @ report_events env pre1 (connection_socket_m (conn_heap p ! cs)) ?so"
    and h2: "length h2 = length (conn_heap p)" "\<And>c. connection_socket_m (h2 ! c) = connection_socket_m (conn_heap p ! c)"
    by (rule report_round [OF p1(1-4), of cs env]) (use seller p1 in simp_all)
  let ?p2 = "p1\<lparr>trace := tr2, conn_heap := h2, reportList_m := [b]\<rparr>"
  obtain tr3 h3 pre2 where three: "for_each [Report_exec, Report_exec] (act env) ?p2
      = (Inr (), ?p2\<lparr>trace := tr3, conn_heap := h3, reportList_m := []\<rparr>)"
    and vis3: "visible tr3 = visible (trace ?p2) @ report_events env pre2 (connection_socket_m (conn_heap ?p2 ! cb)) ?bo"
    by (rule report_round [of ?p2 "[]" b ?bo cb env]) (use buyer p1 h2 in simp_all)
  have one: "for_each [Match] (act env) p = (Inr (), p1)" using match by (simp add: seq_ok del: act.simps)
  have "for_each ([Match] @ [Report_exec, Report_exec] @ [Report_exec, Report_exec]) (act env) p
      = (Inr (), ?p2\<lparr>trace := tr3, conn_heap := h3, reportList_m := []\<rparr>)"
    by (simp only: for_each_append seq_def bnd_app one two three prod.case sum.case)
  then have "r = Inr ()" "p' = ?p2\<lparr>trace := tr3, conn_heap := h3, reportList_m := []\<rparr>"
    using run by (simp_all del: act.simps for_each.simps)
  then show ?thesis using vis2 vis3 h2(2)
    by (intro conjI exI [of _ pre1] exI [of _ pre2]) (simp_all add: p1_def)
qed


text \<open>Two clients, 7 and 8, and a chosen pair of their orders.\<close>

definition paired :: process where
  "paired = (at_point (small_trader\<lparr>cv_m := False, reportList_m := [],
      order_heap := (order_heap small_trader)(4 \<mapsto> (sample_order ''11'' 60 BUY)\<lparr>connId := 8\<rparr>),
      conn_heap := conn_heap small_trader @ [(conn_heap small_trader ! 0)\<lparr>connection_socket_m := 18\<rparr>],
      connStorage_m := [(7, Some 0), (8, Some 1)]\<rparr>) (At_match 4 3))"

theorem execution_round_witness:
  "\<exists>p' pre1 pre2. for_each [Match, Report_exec, Report_exec, Report_exec, Report_exec] (act quiet_env) paired = (Inr (), p')
    \<and> visible (trace p') = visible (trace paired)
      @ report_events quiet_env pre1 (connection_socket_m (conn_heap paired ! 0)) ((sample_order ''13'' 64 SELL)\<lparr>execPrice := Fin False 64\<rparr>)
      @ report_events quiet_env pre2 18 ((sample_order ''11'' 60 BUY)\<lparr>connId := 8, execPrice := Fin False 64\<rparr>)"
proof -
  let ?st = "\<lparr>stockNum = 0, priceNow = literal 60, priceMax = literal 60, priceMin = literal 60\<rparr>"
  have st: "traderstatus_m paired" "match_at paired = At_match 4 3" "\<not> cv_m paired" "report_at paired = Report_poll" "reportList_m paired = []"
    "order_heap paired 4 = Some ((sample_order ''11'' 60 BUY)\<lparr>connId := 8\<rparr>)" "order_heap paired 3 = Some (sample_order ''13'' 64 SELL)"
    "(4 :: nat) \<noteq> 3" "rawSellside_m paired \<noteq> []" "map_find (quotesList paired) ''KKC'' = Some (Some ?st)" "ordered (quotesList paired)"
    "map_find (connStorage_m paired) (connId ((sample_order ''11'' 60 BUY)\<lparr>connId := 8\<rparr>)) = Some (Some 1)" "1 < length (conn_heap paired)"
    "map_find (connStorage_m paired) (connId (sample_order ''13'' 64 SELL)) = Some (Some 0)" "0 < length (conn_heap paired)"
    by (simp_all add: paired_def at_point_def small_trader_def small_server_def sample_order_def trader.defs process.defs)
  obtain r p' where run: "for_each [Match, Report_exec, Report_exec, Report_exec, Report_exec] (act quiet_env) paired = (r, p')" by force
  have "connection_socket_m (conn_heap paired ! 1) = 18" "orderPrice (sample_order ''13'' 64 SELL) = Fin False 64"
    by (simp_all add: paired_def at_point_def small_trader_def small_server_def sample_order_def trader.defs process.defs)
  with execution_round [OF st run] run show ?thesis by auto
qed

end
