(* ===== verification/Market_Maker.thy ===== *)
theory Market_Maker
  imports Init_Parser Connection_Model
begin

section \<open>The market maker (MarketMaker/client.cpp)\<close>

text \<open>
  The client program: it connects to the server, logs in, asks for the price and sends a
  pair of orders. The loops of its threads are modelled by their turns.
\<close>

record client = world +
  ip :: initParser
  connCalculate :: int
  cl_priceNow :: double
  orderNum :: int
  orderLimitation :: int
  loginflag :: bool
  inventoryLimit :: int
  inventoryNum :: int
  exit_flag_m :: bool
  firstconn_flag_m :: bool
  cl_connStatus_m :: bool
  sockfd_m :: int

definition cl_log :: "log_level \<Rightarrow> string \<Rightarrow> ('a world_scheme, unit) cpp" where
  "cl_log = log_write ''CL''"

lemma cl_log_app [simp, run_simps]:
  "cl_log lvl doc s = (Inr (), s\<lparr>trace := trace s @ [Log ''CL'' lvl doc]\<rparr>)"
  by (simp add: cl_log_def)

definition setConnStatus :: "bool \<Rightarrow> ('a client_scheme, unit) cpp" where
  "setConnStatus stat = upd (\<lambda>s. s\<lparr>cl_connStatus_m := stat\<rparr>)"

definition getConnStatus :: "('a client_scheme, bool) cpp" where
  "getConnStatus = get cl_connStatus_m"

subsection \<open>Connecting\<close>

definition client_socketini :: "env \<Rightarrow> ('a client_scheme, unit) cpp" where
  "client_socketini env =
     bnd (get (\<lambda>s. read_file env (path_m (ip s)))) (\<lambda>file.
     seq (zoom ip (\<lambda>p s. s\<lparr>ip := p\<rparr>) (readLine file))
    (bnd (get (\<lambda>s. (ini_get (ip s) ''addr'', ini_get (ip s) ''port''))) (\<lambda>(addr, port_text).
     bnd (lift (stoi port_text)) (\<lambda>port.
     seq (cl_log DEBUG (''(Client) connect to '' @ addr @ '' '' @ port_text))
    (seq (emit (Syscall ''socket'' 0))
    (bnd (get (\<lambda>s. socket_fd env (trace s))) (\<lambda>fd.
     seq (upd (\<lambda>s. s\<lparr>sockfd_m := fd\<rparr>))
    (if fd < 0 then cl_log WARN ''(Client) socket initialise failed''
     else bnd (syscall env ''inet_pton'' 0) (\<lambda>ok.
       if \<not> ok then seq (cl_log WARN ''(Client) Invalid address/ Address not supported'') (setConnStatus False)
       else bnd (syscall env ''connect'' (port mod 2 ^ 16)) (\<lambda>ok.
         if \<not> ok then seq (cl_log WARN ''(Client) Connection Failed'') (setConnStatus False)
         else setConnStatus True))))))))))"

text \<open>The loop of \<open>allowConn\<close>; \<open>c\<close> is the value of \<open>connCalculate\<close> when it is entered.\<close>

function allow_loop :: "env \<Rightarrow> int \<Rightarrow> ('a client_scheme, unit) cpp" where
  "allow_loop env c =
     seq (client_socketini env)
    (bnd getConnStatus (\<lambda>up.
     bnd (get firstconn_flag_m) (\<lambda>first.
       if up then
         seq (cl_log DEBUG ''(Client) connect success '')
             (upd (\<lambda>s. s\<lparr>firstconn_flag_m := False, connCalculate := 0\<rparr>))
       else if first then
         seq (cl_log DEBUG ''(Client) Connect failed'') (upd (\<lambda>s. s\<lparr>exit_flag_m := True\<rparr>))
       else
         seq (cl_log DEBUG ''(Client) try connect'')
        (seq (upd (\<lambda>s. s\<lparr>connCalculate := c + 1\<rparr>))
             (if 3 < c + 1 then
                seq (upd (\<lambda>s. s\<lparr>exit_flag_m := True\<rparr>)) (cl_log DEBUG ''(Client) reconnect failed'')
              else allow_loop env (c + 1))))))"
  by pat_completeness auto
termination
  by (relation "measure (\<lambda>(env, c). nat (4 - c))") auto

declare allow_loop.simps [simp del]

definition allowConn :: "env \<Rightarrow> ('a client_scheme, unit) cpp" where
  "allowConn env = bnd (get connCalculate) (allow_loop env)"

subsection \<open>Sending\<close>

definition sendMsg :: "env \<Rightarrow> string \<Rightarrow> ('a client_scheme, unit) cpp" where
  "sendMsg env str =
     bnd (get (\<lambda>s. (sockfd_m s, send_block env (trace s) str))) (\<lambda>(fd, block).
     seq (emit (Send fd block))
    (bnd (get (\<lambda>s. send_rc env (trace s) fd block)) (\<lambda>sendSignal.
     seq (cl_log DEBUG (''(Client) Send Message '' @ str))
         (if sendSignal < 0 then cl_log ERROR ''(Client) send failed '' else ret ()))))"

text \<open>One turn of \<open>sendTypeMsg\<close> with the next word from the keyboard.\<close>

definition sendTypeMsg_turn :: "env \<Rightarrow> string \<Rightarrow> ('a client_scheme, bool) cpp" where
  "sendTypeMsg_turn env str =
     bnd (get exit_flag_m) (\<lambda>ex. if ex then ret False else seq (sendMsg env (c_str str)) (ret True))"

definition heartbeatSending_turn :: "env \<Rightarrow> ('a client_scheme, bool) cpp" where
  "heartbeatSending_turn env =
     bnd (get exit_flag_m) (\<lambda>ex. if ex then ret False else
     seq (sendMsg env ''<3&'')
    (bnd (get loginflag) (\<lambda>l.
     seq (if l then sendMsg env ''1233|KKC|&'' else sendMsg env ''1234|0324027|123|&'') (ret True))))"

text \<open>
  One turn of \<open>startTradingProcess\<close>; the result says whether the wait for a smaller
  inventory lets the thread go on at once (\<open>Some False\<close>: it waits to be notified).
\<close>

definition startTradingProcess_turn :: "env \<Rightarrow> ('a client_scheme, bool option) cpp" where
  "startTradingProcess_turn env =
     bnd (get exit_flag_m) (\<lambda>ex. if ex then ret None else
     bnd (get (\<lambda>s. orderNum s < orderLimitation s)) (\<lambda>more.
     seq (if more then
            seq (sendMsg env ''87|313542|60|1|1|1|KKC|&'') (sendMsg env ''87|313542|64|2|1|1|KKC|&'')
          else ret ())
         (bnd (get (\<lambda>s. inventoryNum s < inventoryLimit s)) (\<lambda>room. ret (Some room)))))"

subsection \<open>Receiving\<close>

definition client_dispatch :: "string \<Rightarrow> ('a client_scheme, unit) cpp" where
  "client_dispatch msg =
     (let temp = split msg ''|'' in
      bnd (vec_at temp 0) (\<lambda>t0.
      bnd (lift (stoi t0)) (\<lambda>code.
        if code = 1233 then
          bnd (vec_at temp 1) (\<lambda>t1.
          bnd (lift (stod t1)) (\<lambda>price.
          seq (upd (\<lambda>s. s\<lparr>cl_priceNow := price\<rparr>))
              (cl_log DEBUG (''(Client) update Price Now'' @ to_string_double price))))
        else if code = 1234 then
          seq (upd (\<lambda>s. s\<lparr>loginflag := True\<rparr>)) (cl_log DEBUG ''(Client) Login success'')
        else
          bnd (vec_at temp 1) (\<lambda>t1.
            if t1 = ''success'' then upd (\<lambda>s. s\<lparr>orderNum := orderNum s + 1\<rparr>)
            else if t1 = ''exec'' then upd (\<lambda>s. s\<lparr>inventoryNum := inventoryNum s + 1\<rparr>)
            else ret ()))))"

definition client_msgHandler :: "string \<Rightarrow> ('a client_scheme, unit) cpp" where
  "client_msgHandler msg =
     (if take 2 msg = ''<3'' then ret ()
      else try_catch (client_dispatch msg) (\<lambda>_. cl_log ERROR ''(Client) Handle msg failed''))"

text \<open>One turn of \<open>recvMsg\<close> with what \<open>recv\<close> yields; its buffer has 1024 bytes.\<close>

definition recvMsg_turn :: "env \<Rightarrow> string option \<Rightarrow> ('a client_scheme, bool) cpp" where
  "recvMsg_turn env received =
     bnd (get exit_flag_m) (\<lambda>ex. if ex then ret False else
     case received of
       Some (b # bs) \<Rightarrow>
         if buffer_size \<le> length (b # bs) then fail (Undefined Buffer_overflow)
         else seq (cl_log DEBUG (''(Client) recv '' @ c_str (b # bs)))
             (seq (client_msgHandler (c_str (b # bs))) (ret True))
     | _ \<Rightarrow>
         seq (cl_log ERROR ''(Client) recv failed'')
        (bnd (get sockfd_m) (\<lambda>fd.
         seq (emit (Syscall ''close'' fd))
        (seq (setConnStatus False)
        (seq (allowConn env) (ret True))))))"

text \<open>The constructor up to the start of the threads.\<close>

definition Client :: "env \<Rightarrow> string \<Rightarrow> string \<Rightarrow> ('a client_scheme, unit) cpp" where
  "Client env path chosen =
     seq (upd (\<lambda>s. s\<lparr>ip := InitParser path chosen, connCalculate := 0, orderNum := 0, orderLimitation := 10,
            loginflag := False, inventoryLimit := 10, inventoryNum := 0, exit_flag_m := False,
            firstconn_flag_m := True, cl_connStatus_m := False\<rparr>))
         (allowConn env)"

end
