(* ===== verification/Market_Facts.thy ===== *)
theory Market_Facts
  imports Market_Maker Server_Facts
begin

section \<open>The market maker and the server\<close>

text \<open>
  What the client makes of the blocks the server sends, and how often it tries to connect
  again.
\<close>

subsection \<open>Blocks\<close>

text \<open>
  C27. Both sides send blocks of 1024 bytes and receive into a buffer of 1024 bytes, and both
  write a terminator behind what they received: a block received as a whole, whatever
  it says, is written past the end of the buffer, in the client as in the server.
\<close>

theorem whole_block_overflows:
  assumes "exit_flag_m s = False"
  shows "recvMsg_turn env (Some (send_block env' tr msg)) s = (Inl (Undefined Buffer_overflow), s)
    \<and> recvfrom (Some (send_block env' tr msg)) old c = (Inl (Undefined Buffer_overflow), c)"
proof -
  have len: "length (send_block env' tr msg) = buffer_size" by simp
  then obtain b bs where blk: "send_block env' tr msg = b # bs" by (cases "send_block env' tr msg") auto
  then have "buffer_size \<le> length (b # bs)" using len by simp
  then show ?thesis using assms
    unfolding blk recvfrom_def by (simp add: recvMsg_turn_def bnd_app)
qed

subsection \<open>Replies\<close>

lemma two_fields:
  assumes "field_ok (CHR ''|'') n" and "field_ok (CHR ''|'') t"
  shows "split (n @ ''|'' @ t @ nl) ''|'' = [n, t @ nl]"
proof -
  have "strtok_all ''|'' (t @ nl) = [t @ nl]"
    using assms(2) by (intro strtok_all_token_end) (auto simp: field_ok_def)
  then show ?thesis
    using split_join_append [of "[n]" "CHR ''|''" "t @ nl"] assms by (simp add: join_def field_ok_def NUL_def)
qed

lemma digits_field: "digit_text n \<Longrightarrow> field_ok (CHR ''|'') n"
  by (auto simp: digit_text_def field_ok_def isdigit_def NUL_def)

lemma digits_nonneg: "digit_text n \<Longrightarrow> 0 \<le> base_val 10 n"
proof -
  have "\<forall>c \<in> set n. isdigit c \<Longrightarrow> 0 \<le> base_val 10 n"
  proof (induction n rule: rev_induct)
    case (snoc c n)
    have "(of_char c :: int) = int (of_char c)" by (rule of_nat_of_char [symmetric])
    then have "0 \<le> xdigit_val c" using snoc.prems by (simp add: xdigit_val_def isdigit_def del: of_nat_of_char)
    then show ?case using snoc by (simp add: base_val_def)
  qed (simp add: base_val_def)
  then show "digit_text n \<Longrightarrow> 0 \<le> base_val 10 n" by (simp add: digit_text_def)
qed

lemma digits_no_heart: "digit_text n \<Longrightarrow> take 2 (n @ m) \<noteq> ''<3''"
  by (cases n) (auto simp: digit_text_def isdigit_def)


lemma price_field:
  assumes "0 \<le> k" and "k < 1000000 * 2 ^ 33"
  shows "field_ok (CHR ''|'') (to_string_double (Fin False (fl (of_int k / 1000000))))"
proof -
  have "digit_text (show_nonneg (k div 1000000))" "digit_text (show_nonneg (k mod 1000000))"
    using assms(1) by (intro show_nonneg_digits; simp)+
  then show ?thesis
    by (auto simp: show_fixed6_decimal [OF assms] field_ok_def digit_text_def pad0_def isdigit_def NUL_def)
qed

text \<open>
  C25. A price that is a multiple of a millionth reaches the client: from what the server's
  answer to a price query leaves in the network, when the client receives the text
  with its terminator but less than the whole block, it takes over exactly the price
  the server holds, although it travels as a decimal text.
\<close>

theorem price_reaches_client:
  fixes s :: "'a client_scheme"
  assumes "exit_flag_m s = False" and "0 \<le> k" and "k < 1000000 * 2 ^ 33"
    and "reply = ''1233|'' @ to_string_double (Fin False (fl (of_int k / 1000000))) @ ''|&'' @ nl"
    and "length reply < n" and "n < 1024"
  shows "\<exists>s'. recvMsg_turn env (Some (take n (send_block env' tr reply))) s = (Inr True, s')
    \<and> cl_priceNow s' = Fin False (fl (of_int k / 1000000))"
proof -
  let ?p = "to_string_double (Fin False (fl (of_int k / 1000000)))"
  have p: "field_ok (CHR ''|'') ?p" by (rule price_field [OF assms(2,3)])
  have len: "n \<le> buffer_size" using assms(6) by simp
  from take_send_block [OF assms(5) len, of env' tr]
  obtain rest where rest: "take n (send_block env' tr reply) = reply @ NUL # rest" by blast
  have "NUL \<notin> set reply" using p by (auto simp: assms(4) field_ok_def NUL_def)
  then have c: "c_str (reply @ NUL # rest) = reply" by (rule c_str_stop)
  have "length (reply @ NUL # rest) = n" using rest len
    by (metis length_send_block length_take min.absorb2)
  moreover obtain b bs where blk: "reply @ NUL # rest = b # bs" by (cases "reply @ NUL # rest") auto
  ultimately have short: "length (b # bs) < buffer_size" using assms(6) by simp
  have "strtok_all ''|'' (''&'' @ nl) = [''&'' @ nl]" by (rule strtok_all_token_end) simp_all
  then have sp: "split reply ''|'' = [''1233'', ?p, ''&'' @ nl]"
    using split_join_append [of "[''1233'', ?p]" "CHR ''|''" "''&'' @ nl"] p
    by (simp add: assms(4) join_def field_ok_def NUL_def)
  have "stoi ''1233'' = Inr 1233"
    by (rule stoi_code) (simp_all add: digit_text_def isdigit_def base_val_def xdigit_val_def)
  then have d: "client_dispatch reply q = (Inr (), q\<lparr>cl_priceNow := Fin False (fl (of_int k / 1000000)),
      trace := trace q @ [Log ''CL'' DEBUG (''(Client) update Price Now'' @ ?p)]\<rparr>)" for q :: "'a client_scheme"
    using price_text_roundtrip [OF assms(2,3)] by (simp add: client_dispatch_def Let_def bnd_app seq_def sp)
  have "take 2 reply \<noteq> ''<3''" by (simp add: assms(4))
  then have "client_msgHandler reply q = client_dispatch reply q" for q :: "'a client_scheme"
    using d [of q] by (simp add: client_msgHandler_def try_catch_def)
  then show ?thesis
    unfolding rest blk using assms(1) short d c [unfolded blk]
    by (simp add: recvMsg_turn_def bnd_app seq_def)
qed

subsection \<open>Connecting again\<close>

definition socket_calls :: "event list \<Rightarrow> nat" where
  "socket_calls es = length (filter (\<lambda>e. e = Syscall ''socket'' 0) es)"

lemma socket_calls_simps [simp]: "socket_calls [] = 0" "socket_calls (es @ fs) = socket_calls es + socket_calls fs"
  "socket_calls (e # es) = (if e = Syscall ''socket'' 0 then 1 else 0) + socket_calls es"
  by (simp_all add: socket_calls_def)

lemma socketini_once:
  assumes "client_socketini env s = (r, s')"
  shows "socket_calls (trace s') \<le> socket_calls (trace s) + 1"
proof -
  obtain r1 p1 where read: "readLine (read_file env (path_m (ip s))) (ip s) = (r1, p1)" by force
  show ?thesis
  proof (cases "r1 = Inr () \<and> (\<exists>port. stoi (ini_get p1 ''port'') = Inr port)")
    case True
    then obtain port where port: "stoi (ini_get p1 ''port'') = Inr port" by blast
    show ?thesis using assms True read port
      by (auto simp: client_socketini_def bnd_app seq_def zoom_def setConnStatus_def syscall_def Let_def split: if_splits)
  next
    case False
    then show ?thesis using assms read
      by (auto simp: client_socketini_def bnd_app seq_def zoom_def split: sum.splits)
  qed
qed

lemma allow_loop_attempts:
  assumes "allow_loop env c s = (r, s')"
  shows "socket_calls (trace s') \<le> socket_calls (trace s) + max 1 (nat (4 - c))
    \<and> (r = Inr () \<longrightarrow> cl_connStatus_m s' \<or> exit_flag_m s')"
  using assms
proof (induction "nat (4 - c)" arbitrary: c s rule: less_induct)
  case less
  obtain r1 s1 where ini: "client_socketini env s = (r1, s1)" by force
  have one: "socket_calls (trace s1) \<le> socket_calls (trace s) + 1" by (rule socketini_once [OF ini])
  show ?case
  proof (cases r1)
    case (Inl f)
    then show ?thesis using less.prems ini one by (auto simp: allow_loop.simps [of env c] seq_def bnd_app)
  next
    case (Inr u)
    let ?s2 = "s1\<lparr>trace := trace s1 @ [Log ''CL'' DEBUG ''(Client) try connect''], connCalculate := c + 1\<rparr>"
    show ?thesis
    proof (cases "cl_connStatus_m s1 \<or> firstconn_flag_m s1 \<or> 3 < c + 1")
      case True
      then show ?thesis using less.prems ini one Inr
        by (auto simp: allow_loop.simps [of env c] seq_def bnd_app getConnStatus_def split: if_splits)
    next
      case False
      then have "allow_loop env (c + 1) ?s2 = (r, s')"
        using less.prems ini Inr by (simp add: allow_loop.simps [of env c] seq_def bnd_app getConnStatus_def)
      moreover have "nat (4 - (c + 1)) < nat (4 - c)" using False by simp
      ultimately have "socket_calls (trace s') \<le> socket_calls (trace ?s2) + max 1 (nat (4 - (c + 1)))
          \<and> (r = Inr () \<longrightarrow> cl_connStatus_m s' \<or> exit_flag_m s')" using less.hyps by blast
      then show ?thesis using one False by auto
    qed
  qed
qed

text \<open>
  C28. Connecting again ends: after a lost connection the client makes at most four attempts,
  whatever the system answers, and then it is connected or has given up for good; the
  very first connection gets one attempt.
\<close>

theorem connecting_ends:
  assumes "connCalculate s = 0" and "allowConn env s = (r, s')"
  shows "socket_calls (trace s') \<le> socket_calls (trace s) + (if firstconn_flag_m s then 1 else 4)
    \<and> (case r of Inl f \<Rightarrow> True | Inr u \<Rightarrow> cl_connStatus_m s' \<or> exit_flag_m s')"
proof -
  have run: "allow_loop env 0 s = (r, s')" using assms by (simp add: allowConn_def bnd_app)
  have "socket_calls (trace s') \<le> socket_calls (trace s) + 1" if first: "firstconn_flag_m s"
  proof -
    obtain r1 s1 where ini: "client_socketini env s = (r1, s1)" by force
    have "firstconn_flag_m s1" using ini first
      by (auto simp: client_socketini_def bnd_app seq_def zoom_def setConnStatus_def syscall_def Let_def
          split: if_splits sum.splits prod.splits)
    then show ?thesis using run ini socketini_once [OF ini]
      by (cases r1) (auto simp: allow_loop.simps [of env 0] seq_def bnd_app getConnStatus_def split: if_splits)
  qed
  then show ?thesis using allow_loop_attempts [OF run] by (auto split: sum.splits)
qed

subsection \<open>Instances\<close>

definition small_client :: client where
  "small_client = \<lparr>trace = [], ip = InitParser ''settings.ini'' ''TraderServer'', connCalculate = 0, cl_priceNow = Fin False 0,
     orderNum = 0, orderLimitation = 10, loginflag = True, inventoryLimit = 10, inventoryNum = 0, exit_flag_m = False,
     firstconn_flag_m = False, cl_connStatus_m = False, sockfd_m = 3\<rparr>"

theorem whole_block_overflows_witness:
  "recvMsg_turn quiet_env (Some (send_block quiet_env [] ''1234|7'')) small_client = (Inl (Undefined Buffer_overflow), small_client)"
  using whole_block_overflows [of small_client quiet_env quiet_env "[]" "''1234|7''"] by (simp add: small_client_def)


theorem price_reaches_client_witness:
  "cl_priceNow (snd (recvMsg_turn quiet_env (Some (take 100 (send_block quiet_env [] (''1233|60.500000|&'' @ nl)))) small_client))
    = Fin False (fl (121 / 2))"
proof -
  have t: "to_string_double (Fin False (fl (rat_of_int 60500000 / 1000000))) = ''60.500000''"
    by code_simp
  show ?thesis
    using price_reaches_client [of small_client 60500000 "''1233|60.500000|&'' @ nl" 100 quiet_env quiet_env "[]"] t
    by (auto simp: small_client_def)
qed

theorem connecting_ends_witness:
  "socket_calls (trace (snd (allowConn quiet_env small_client))) \<le> 4"
  using connecting_ends [of small_client quiet_env, OF _ prod.collapse [symmetric]] by (simp add: small_client_def)

end
