(* ===== verification/Logwriter.thy ===== *)
theory Logwriter
  imports Simplefunc
begin

section \<open>The log writer (funclib/logwriter.cpp)\<close>

text \<open>
  A \<open>Logwriter\<close> fixes its file when it is constructed (the path and the date of that
  day) and appends one line per call of \<open>write\<close>. The clock is an argument; the lines
  appended, with the file they go to, are the field \<open>written\<close>. The other components
  record a call \<open>logwrite->write(level, text)\<close> of their writer of type \<open>ty\<close> as the event
  \<open>Log ty level text\<close>; this theory says what line such a call produces.
\<close>

record tm =
  tm_year :: int  \<comment> \<open>years since 1900\<close>
  tm_mon :: int   \<comment> \<open>0 to 11\<close>
  tm_mday :: int
  tm_hour :: int
  tm_min :: int
  tm_sec :: int

record logwriter =
  logType_m :: string
  logcontent_m :: string
  documentation_m :: string
  filePath_m :: string
  written :: "(string \<times> string) list"

definition to_zero_lead :: "int \<Rightarrow> nat \<Rightarrow> string" where
  "to_zero_lead value precision = pad0 precision (to_string value)"

definition datetiming :: "tm \<Rightarrow> string" where
  "datetiming now = to_string (tm_year now + 1900) @ ''-'' @ to_zero_lead (tm_mon now + 1) 2
     @ ''-'' @ to_zero_lead (tm_mday now) 2"

definition Logwriter :: "tm \<Rightarrow> string \<Rightarrow> string \<Rightarrow> logwriter" where
  "Logwriter now logType filePath =
     \<lparr>logType_m = logType, logcontent_m = [], documentation_m = [],
      filePath_m = filePath @ datetiming now @ ''.log'', written = []\<rparr>"

definition getTime :: "tm \<Rightarrow> string" where
  "getTime now = datetiming now @ '' '' @ to_zero_lead (tm_hour now) 2 @ '':''
     @ to_zero_lead (tm_min now) 2 @ '':'' @ to_zero_lead (tm_sec now) 2"

definition log_write_line :: "tm \<Rightarrow> log_level \<Rightarrow> string \<Rightarrow> (logwriter, unit) cpp" where
  "log_write_line now level documentation =
     seq (upd (\<lambda>lw. lw\<lparr>documentation_m := documentation\<rparr>))
    (seq (upd (\<lambda>lw. lw\<lparr>logcontent_m :=
            (case level of
               FATAL \<Rightarrow> getTime now @ '' | Fatal | '' @ logType_m lw
             | WARN \<Rightarrow> getTime now @ '' | Warn | '' @ logType_m lw @ '' |''
             | ERROR \<Rightarrow> getTime now @ '' | Error | '' @ logType_m lw @ '' |''
             | DEBUG \<Rightarrow> getTime now @ '' | Debug | '' @ logType_m lw @ '' |''
             | TRACE \<Rightarrow> getTime now @ '' | Trace | '' @ logType_m lw @ '' |''
             | INFO \<Rightarrow> getTime now @ '' | Info | '' @ logType_m lw @ '' |'')\<rparr>))
         (upd (\<lambda>lw. lw\<lparr>written := written lw
            @ [(filePath_m lw, logcontent_m lw @ '' '' @ documentation_m lw)]\<rparr>)))"

subsection \<open>Fixed-width time stamps\<close>

definition valid_tm :: "tm \<Rightarrow> bool" where
  "valid_tm t \<longleftrightarrow> -900 \<le> tm_year t \<and> tm_year t < 8100 \<and> 0 \<le> tm_mon t \<and> tm_mon t < 12
     \<and> 1 \<le> tm_mday t \<and> tm_mday t < 32 \<and> 0 \<le> tm_hour t \<and> tm_hour t < 24
     \<and> 0 \<le> tm_min t \<and> tm_min t < 60 \<and> 0 \<le> tm_sec t \<and> tm_sec t < 61"

lemma two_digits:
  assumes "0 \<le> n" and "n < 100"
  shows "length (to_zero_lead n 2) = 2" and "base_val 10 (to_zero_lead n 2) = n"
    and "\<forall>c \<in> set (to_zero_lead n 2). isdigit c"
proof -
  have "length (show_nonneg n) \<le> 2" using assms by (intro length_show) simp_all
  then show "length (to_zero_lead n 2) = 2"
    using assms by (simp add: to_zero_lead_def pad0_def to_string_def)
  show "base_val 10 (to_zero_lead n 2) = n"
    using assms by (simp add: to_zero_lead_def pad0_def to_string_def base_val_replicate0 base_val_show)
  show "\<forall>c \<in> set (to_zero_lead n 2). isdigit c"
    using assms show_nonneg_digits [of n]
    by (auto simp: to_zero_lead_def pad0_def to_string_def digit_text_def isdigit_def)
qed

lemma length_show_lower:
  assumes "10 ^ k \<le> n"
  shows "k < length (show_nonneg n)"
proof (rule ccontr)
  assume "\<not> k < length (show_nonneg n)"
  then have len: "length (show_nonneg n) \<le> k" by simp
  have n: "0 \<le> n" using assms by (meson order_trans zero_le_numeral zero_le_power)
  have bound: "base_val 10 ds < 10 ^ length ds" if "\<forall>c \<in> set ds. isdigit c" for ds
    using that
  proof (induction ds rule: rev_induct)
    case (snoc c ds)
    have "(of_char c :: int) = int (of_char c)" by (rule of_nat_of_char [symmetric])
    then have "xdigit_val c < 10"
      using snoc.prems by (simp add: xdigit_val_def isdigit_def del: of_nat_of_char)
    with snoc show ?case by (simp add: base_val_append) (simp add: base_val_def)
  qed (simp add: base_val_def)
  have "base_val 10 (show_nonneg n) < 10 ^ length (show_nonneg n)"
    using show_nonneg_digits [OF n] by (intro bound) (simp add: digit_text_def)
  then have "n < 10 ^ length (show_nonneg n)" by (simp add: base_val_show n)
  also have "\<dots> \<le> 10 ^ k" using len by (simp add: power_increasing)
  finally show False using assms by simp
qed

lemma four_digits:
  assumes "1000 \<le> n" and "n < 10000"
  shows "length (to_string n) = 4"
  using assms length_show [of n 4] length_show_lower [of 3 n] by (simp add: to_string_def)

lemma length_getTime:
  assumes "valid_tm t" shows "length (getTime t) = 19"
proof -
  have "length (to_string (tm_year t + 1900)) = 4"
    using assms by (intro four_digits) (simp_all add: valid_tm_def)
  then show ?thesis
    using assms by (simp add: getTime_def datetiming_def two_digits valid_tm_def)
qed

lemma two_digits_inj:
  "0 \<le> a \<Longrightarrow> a < 100 \<Longrightarrow> 0 \<le> b \<Longrightarrow> b < 100 \<Longrightarrow> to_zero_lead a 2 = to_zero_lead b 2 \<Longrightarrow> a = b"
  by (metis two_digits(2))

lemma year_inj:
  "1000 \<le> a \<Longrightarrow> 1000 \<le> b \<Longrightarrow> to_string a = to_string b \<Longrightarrow> a = b"
  by (simp add: to_string_def) (metis base_val_show order_trans zero_le_numeral)

subsection \<open>The line of a call\<close>

fun level_name :: "log_level \<Rightarrow> string" where
  "level_name FATAL = ''Fatal''"
| "level_name WARN = ''Warn''"
| "level_name ERROR = ''Error''"
| "level_name DEBUG = ''Debug''"
| "level_name TRACE = ''Trace''"
| "level_name INFO = ''Info''"

lemma log_line:
  "written (snd (log_write_line now level doc lw)) = written lw @ [(filePath_m lw,
     getTime now @ '' | '' @ level_name level @ '' | '' @ logType_m lw
       @ (if level = FATAL then [] else '' |'') @ '' '' @ doc)]"
  and log_file_fixed: "filePath_m (snd (log_write_line now level doc lw)) = filePath_m lw"
  and log_type_fixed: "logType_m (snd (log_write_line now level doc lw)) = logType_m lw"
  by (cases level; simp add: log_write_line_def cpp_defs)+

end
