(* ===== verification/Gtest_Float.thy ===== *)
theory Gtest_Float
  imports Double "HOL-Library.Word"
begin

section \<open>Floating-point comparison of the test framework (gtest-internal.h, FloatingPoint)\<close>

text \<open>
  The template is instantiated with \<open>float\<close> and \<open>double\<close>; its \<open>Bits\<close> are the words of
  32 and 64 bits, and the union gives the bits of the number, which is all the class
  computes with. \<open>std::numeric_limits<RawType>::digits\<close> is 24 and 53.
\<close>

subsection \<open>Constants\<close>

definition digits :: "'w::len itself \<Rightarrow> nat" where
  "digits T = (if LENGTH('w) = 32 then 24 else 53)"

definition kBitCount :: "'w::len itself \<Rightarrow> nat" where
  "kBitCount T = LENGTH('w)"

definition kFractionBitCount :: "'w::len itself \<Rightarrow> nat" where
  "kFractionBitCount T = digits T - 1"

definition kExponentBitCount :: "'w::len itself \<Rightarrow> nat" where
  "kExponentBitCount T = kBitCount T - 1 - kFractionBitCount T"

definition kSignBitMask :: "'w::len word" where
  "kSignBitMask = push_bit (kBitCount TYPE('w) - 1) 1"

definition kFractionBitMask :: "'w::len word" where
  "kFractionBitMask = drop_bit (kExponentBitCount TYPE('w) + 1) (not 0)"

definition kExponentBitMask :: "'w::len word" where
  "kExponentBitMask = not (or kSignBitMask kFractionBitMask)"

definition kMaxUlps :: nat where
  "kMaxUlps = 4"

subsection \<open>Members\<close>

record 'b floatingPoint =
  bits_m :: 'b

text \<open>The constructor, with the bits of the number passed to it.\<close>

definition FloatingPoint :: "'w::len word \<Rightarrow> 'w word floatingPoint" where
  "FloatingPoint x = \<lparr>bits_m = x\<rparr>"

text \<open>The number is named by its bits.\<close>

definition ReinterpretBits :: "'w::len word \<Rightarrow> 'w word" where
  "ReinterpretBits b = bits_m ((FloatingPoint 0)\<lparr>bits_m := b\<rparr>)"

definition Infinity_bits :: "'w::len word" where
  "Infinity_bits = ReinterpretBits kExponentBitMask"

definition bits :: "'w::len word floatingPoint \<Rightarrow> 'w word" where
  "bits u = bits_m u"

definition exponent_bits :: "'w::len word floatingPoint \<Rightarrow> 'w word" where
  "exponent_bits u = and kExponentBitMask (bits_m u)"

definition fraction_bits :: "'w::len word floatingPoint \<Rightarrow> 'w word" where
  "fraction_bits u = and kFractionBitMask (bits_m u)"

definition sign_bit :: "'w::len word floatingPoint \<Rightarrow> 'w word" where
  "sign_bit u = and kSignBitMask (bits_m u)"

definition fp_is_nan :: "'w::len word floatingPoint \<Rightarrow> bool" where
  "fp_is_nan u \<longleftrightarrow> exponent_bits u = kExponentBitMask \<and> fraction_bits u \<noteq> 0"

definition SignAndMagnitudeToBiased :: "'w::len word \<Rightarrow> 'w word" where
  "SignAndMagnitudeToBiased sam =
     (if and kSignBitMask sam \<noteq> 0 then not sam + 1 else or kSignBitMask sam)"

definition DistanceBetweenSignAndMagnitudeNumbers :: "'w::len word \<Rightarrow> 'w word \<Rightarrow> 'w word" where
  "DistanceBetweenSignAndMagnitudeNumbers sam1 sam2 =
     (let biased1 = SignAndMagnitudeToBiased sam1; biased2 = SignAndMagnitudeToBiased sam2
      in if biased1 \<ge> biased2 then biased1 - biased2 else biased2 - biased1)"

definition AlmostEquals :: "'w::len word floatingPoint \<Rightarrow> 'w word floatingPoint \<Rightarrow> bool" where
  "AlmostEquals u rhs =
     (if fp_is_nan u \<or> fp_is_nan rhs then False
      else unat (DistanceBetweenSignAndMagnitudeNumbers (bits_m u) (bits_m rhs)) \<le> kMaxUlps)"

subsection \<open>The number a sign-and-magnitude word stands for\<close>

definition sam_int :: "'w::len word \<Rightarrow> int" where
  "sam_int w = (if bit w (LENGTH('w) - 1) then - (uint w - 2 ^ (LENGTH('w) - 1)) else uint w)"

lemma sign_mask_test: "and kSignBitMask w \<noteq> 0 \<longleftrightarrow> bit (w :: 'w::len word) (LENGTH('w) - 1)"
proof
  assume "bit w (LENGTH('w) - 1)"
  then have "bit (and kSignBitMask w) (LENGTH('w) - 1)"
    by (simp add: kSignBitMask_def kBitCount_def bit_simps)
  then show "and kSignBitMask w \<noteq> 0" by (metis bit_0_eq bot_apply bot_bool_def)
next
  assume "and kSignBitMask w \<noteq> 0"
  then obtain n where "bit (and kSignBitMask w) n" by (metis bit_eqI bit_0_eq bot_apply bot_bool_def)
  then show "bit w (LENGTH('w) - 1)" by (auto simp: kSignBitMask_def kBitCount_def bit_simps)
qed

lemma top_bit_uint: "bit (w :: 'w::len word) (LENGTH('w) - 1) \<longleftrightarrow> 2 ^ (LENGTH('w) - 1) \<le> uint w"
proof -
  have "bit w (LENGTH('w) - 1) \<longleftrightarrow> bit (uint w) (LENGTH('w) - 1)"
    by (simp add: bit_uint_iff)
  then have "bit w (LENGTH('w) - 1) \<longleftrightarrow> odd (uint w div 2 ^ (LENGTH('w) - 1))"
    by (simp only: bit_iff_odd [where 'a = int])
  moreover have bounds: "0 \<le> uint w" "uint w < 2 * 2 ^ (LENGTH('w) - 1)"
    using uint_lt2p [of w] by (simp_all flip: power_Suc)
  moreover have "uint w div 2 ^ (LENGTH('w) - 1) = (if 2 ^ (LENGTH('w) - 1) \<le> uint w then 1 else 0)"
    using bounds by (auto intro: div_pos_pos_trivial int_div_pos_eq [where r = "uint w - 2 ^ (LENGTH('w) - 1)"])
  ultimately show ?thesis by auto
qed

lemma biased_value: "uint (SignAndMagnitudeToBiased w) = 2 ^ (LENGTH('w) - 1) + sam_int (w :: 'w::len word)"
proof (cases "bit w (LENGTH('w) - 1)")
  case True
  have top: "(2::int) ^ LENGTH('w) = 2 * 2 ^ (LENGTH('w) - 1)" by (simp flip: power_Suc)
  have u: "2 ^ (LENGTH('w) - 1) \<le> uint w" "uint w < 2 ^ LENGTH('w)"
    using True top_bit_uint [of w] uint_lt2p [of w] by simp_all
  have pos: "(0::int) < 2 ^ (LENGTH('w) - 1)" by simp
  have "SignAndMagnitudeToBiased w = - w"
    using True by (simp add: SignAndMagnitudeToBiased_def sign_mask_test not_eq_complement)
  moreover have "uint (- w) = 2 ^ LENGTH('w) - uint w"
  proof -
    have "uint (- w) = (- uint w) mod 2 ^ LENGTH('w)" by (simp add: uint_word_ariths)
    also have "\<dots> = (2 ^ LENGTH('w) - uint w) mod 2 ^ LENGTH('w)" by simp
    also have "\<dots> = 2 ^ LENGTH('w) - uint w"
      by (rule mod_pos_pos_trivial) (use u pos in linarith)+
    finally show ?thesis .
  qed
  ultimately show ?thesis using True top by (simp add: sam_int_def)
next
  case False
  have "and kSignBitMask w = 0" using False sign_mask_test by blast
  then have biased: "SignAndMagnitudeToBiased w = kSignBitMask + w"
    by (simp add: SignAndMagnitudeToBiased_def disjunctive_add_eq_or)
  have s: "uint (kSignBitMask :: 'w word) = 2 ^ (LENGTH('w) - 1)"
    by (simp only: kSignBitMask_def kBitCount_def push_bit_eq_mult mult_1)
       (simp only: word_of_int_2p [symmetric] uint_word_of_int, simp add: mod_pos_pos_trivial)
  moreover have "uint w < 2 ^ (LENGTH('w) - 1)" using False top_bit_uint [of w] by simp
  moreover have "(2::int) ^ LENGTH('w) = 2 * 2 ^ (LENGTH('w) - 1)" by (simp flip: power_Suc)
  ultimately have "uint (kSignBitMask :: 'w word) + uint w < 2 ^ LENGTH('w)" by linarith
  then have "uint (kSignBitMask + w) = uint (kSignBitMask :: 'w word) + uint w"
    by (simp only: uint_add_lem)
  then show ?thesis using False biased s by (simp add: sam_int_def)
qed

lemma distance_value:
  fixes v w :: "'w::len word"
  shows "uint (DistanceBetweenSignAndMagnitudeNumbers v w) = \<bar>sam_int v - sam_int w\<bar>"
proof -
  have b: "uint (SignAndMagnitudeToBiased v) - uint (SignAndMagnitudeToBiased w) = sam_int v - sam_int w"
    by (simp add: biased_value)
  have minus: "uint (x - y) = uint x - uint y" if "y \<le> x" for x y :: "'w word"
    using that by (simp add: word_le_def uint_sub_lem)
  show ?thesis
    using b by (auto simp: DistanceBetweenSignAndMagnitudeNumbers_def Let_def minus word_le_def not_le)
qed

text \<open>
  C37. Two numbers are almost equal if neither is a NaN and their bit patterns, read as
  sign-and-magnitude integers, differ by at most four.
\<close>

theorem almost_equals_ulps:
  fixes v w :: "'w::len word"
  shows "AlmostEquals (FloatingPoint v) (FloatingPoint w) \<longleftrightarrow>
     \<not> (fp_is_nan (FloatingPoint v) \<or> fp_is_nan (FloatingPoint w)) \<and> \<bar>sam_int v - sam_int w\<bar> \<le> 4"
proof -
  have "unat (DistanceBetweenSignAndMagnitudeNumbers v w) \<le> 4 \<longleftrightarrow> \<bar>sam_int v - sam_int w\<bar> \<le> 4"
    using distance_value [of v w] by (simp flip: of_nat_le_iff [where 'a = int])
  then show ?thesis by (auto simp: AlmostEquals_def FloatingPoint_def kMaxUlps_def)
qed

subsection \<open>The doubles in the order of their bit patterns\<close>

text \<open>
  The double a word of 64 bits encodes; \<open>magnitude m\<close> is the value of a finite one whose
  exponent and fraction bits together are \<open>m\<close>.
\<close>

definition scaled :: "int \<Rightarrow> int \<Rightarrow> rat" where
  "scaled e f = (if e = 0 then of_int f * pow2 (-1074) else of_int (2 ^ 52 + f) * pow2 (e - 1075))"

definition magnitude :: "int \<Rightarrow> rat" where
  "magnitude m = scaled (m div 2 ^ 52) (m mod 2 ^ 52)"

definition decode :: "64 word \<Rightarrow> double" where
  "decode w = (let s = bit w 63; m = uint (take_bit 63 w); e = m div 2 ^ 52; f = m mod 2 ^ 52
     in if e = 2047 then (if f = 0 then Inf s else NaN s) else Fin s (magnitude m))"

lemma next_in_block:
  fixes m b :: int
  assumes "0 < b"
  shows "m mod b = b - 1 \<Longrightarrow> (m + 1) mod b = 0"
    and "m mod b = b - 1 \<Longrightarrow> (m + 1) div b = m div b + 1"
    and "m mod b \<noteq> b - 1 \<Longrightarrow> (m + 1) mod b = m mod b + 1"
    and "m mod b \<noteq> b - 1 \<Longrightarrow> (m + 1) div b = m div b"
proof -
  have m: "m + 1 = b * (m div b) + (m mod b + 1)" by simp
  have r: "0 \<le> m mod b" "m mod b < b" using assms by simp_all
  { assume last: "m mod b = b - 1"
    then have m': "m + 1 = b * (m div b + 1) + 0" using m by (simp add: distrib_left)
    show "(m + 1) mod b = 0" by (rule int_mod_pos_eq [OF m']) (use assms in simp_all)
    show "(m + 1) div b = m div b + 1" by (rule int_div_pos_eq [OF m']) (use assms in simp_all) }
  { assume "m mod b \<noteq> b - 1"
    then have "m mod b + 1 < b" using r by simp
    then show "(m + 1) mod b = m mod b + 1" "(m + 1) div b = m div b"
      using r by (intro int_mod_pos_eq [OF m] int_div_pos_eq [OF m]; simp)+ }
qed

lemma scaled_same: "scaled e f < scaled e (f + 1)"
  by (simp add: scaled_def)

lemma scaled_next:
  assumes "0 \<le> e" shows "scaled e (2 ^ 52 - 1) < scaled (e + 1) 0"
proof (cases "e = 0")
  case False
  have "pow2 (e + 1 - 1075) = 2 * pow2 (e - 1075)"
    using pow2_add [of "e - 1075" 1] by (simp add: algebra_simps)
  then show ?thesis using False assms by (simp add: scaled_def)
qed (simp add: scaled_def)

lemma magnitude_step:
  assumes "0 \<le> m"
  shows "magnitude m < magnitude (m + 1)"
proof (cases "m mod 2 ^ 52 = 2 ^ 52 - 1")
  case True
  have "0 \<le> m div 2 ^ 52" using assms by simp
  then show ?thesis
    unfolding magnitude_def next_in_block(1,2) [OF zero_less_power [OF zero_less_numeral] True] True by (rule scaled_next)
next
  case False
  show ?thesis
    unfolding magnitude_def next_in_block(3,4) [OF zero_less_power [OF zero_less_numeral] False] by (rule scaled_same)
qed

lemma magnitude_mono: "0 \<le> m \<Longrightarrow> m < n \<Longrightarrow> magnitude m < magnitude n"
proof (induction "nat (n - m)" arbitrary: n)
  case (Suc k)
  show ?case
  proof (cases "n = m + 1")
    case True
    then show ?thesis using magnitude_step Suc.prems by simp
  next
    case False
    then have "magnitude m < magnitude (n - 1)" using Suc by (intro Suc.hyps(1)) linarith+
    also have "\<dots> < magnitude n" using magnitude_step [of "n - 1"] Suc.prems by simp
    finally show ?thesis .
  qed
qed simp

lemma magnitude_less: "0 \<le> m \<Longrightarrow> 0 \<le> n \<Longrightarrow> magnitude m < magnitude n \<longleftrightarrow> m < n"
  using magnitude_mono [of m n] magnitude_mono [of n m] by (cases m n rule: linorder_cases) auto

lemma magnitude_zero [simp]: "magnitude 0 = 0"
  by (simp add: magnitude_def scaled_def)

lemma uint_low: "uint (take_bit n w) = uint w mod 2 ^ n"
  by (simp only: unsigned_take_bit_eq) (simp only: take_bit_eq_mod)

lemma uint_high: "uint (drop_bit n w) = uint w div 2 ^ n"
  by (simp only: drop_bit_eq_div [symmetric]) (rule bit_eqI, auto simp: bit_simps dest: bit_imp_le_length)

lemma masks_64:
  "(kExponentBitMask :: 64 word) = push_bit 52 (mask 11)" "(kFractionBitMask :: 64 word) = mask 52"
  by (simp_all add: kExponentBitMask_def kFractionBitMask_def kSignBitMask_def kExponentBitCount_def
      kFractionBitCount_def kBitCount_def digits_def mask_eq_exp_minus_1)

lemma exponent_all_ones:
  "and (push_bit 52 (mask 11)) w = push_bit 52 (mask 11) \<longleftrightarrow> uint (take_bit 63 (w :: 64 word)) div 2 ^ 52 = 2047"
proof -
  have "uint (take_bit 63 w) div 2 ^ 52 = uint (drop_bit 52 (take_bit 63 w))"
    by (simp only: uint_high)
  also have "\<dots> = 2047 \<longleftrightarrow> drop_bit 52 (take_bit 63 w) = mask 11"
    by (subst word_uint_eq_iff) (simp add: mask_eq_exp_minus_1)
  also have "\<dots> \<longleftrightarrow> (\<forall>n. 52 \<le> n \<and> n < 63 \<longrightarrow> bit w n)"
  proof
    assume eq: "drop_bit 52 (take_bit 63 w) = mask 11"
    show "\<forall>n. 52 \<le> n \<and> n < 63 \<longrightarrow> bit w n"
    proof (intro allI impI)
      fix n :: nat
      assume n: "52 \<le> n \<and> n < 63"
      have "bit (drop_bit 52 (take_bit 63 w)) (n - 52)" unfolding eq using n by (auto simp: bit_simps)
      then show "bit w n" using n by (simp add: bit_simps)
    qed
  qed (auto intro!: bit_word_eqI simp: bit_simps)
  also have "\<dots> \<longleftrightarrow> and (push_bit 52 (mask 11)) w = push_bit 52 (mask 11)"
  proof
    assume eq: "and (push_bit 52 (mask 11)) w = push_bit 52 (mask 11)"
    show "\<forall>n. 52 \<le> n \<and> n < 63 \<longrightarrow> bit w n"
    proof (intro allI impI)
      fix n :: nat
      assume n: "52 \<le> n \<and> n < 63"
      then have "bit (and (push_bit 52 (mask 11)) w) n" unfolding eq by (auto simp: bit_simps)
      then show "bit w n" by (simp add: bit_simps)
    qed
  qed (auto intro!: bit_word_eqI simp: bit_simps)
  finally show ?thesis by blast
qed

lemma nan_decode: "fp_is_nan (FloatingPoint v) \<longleftrightarrow> is_nan (decode v)"
proof -
  have "and (mask 52) v = take_bit 52 v" by (simp add: take_bit_eq_mask and.commute)
  moreover have "take_bit 52 v \<noteq> 0 \<longleftrightarrow> uint (take_bit 63 v) mod 2 ^ 52 \<noteq> 0"
    by (simp only: word_uint_eq_iff uint_low unsigned_0) (simp add: mod_mod_cancel)
  ultimately show ?thesis
    by (simp add: fp_is_nan_def exponent_bits_def fraction_bits_def FloatingPoint_def masks_64
        exponent_all_ones decode_def Let_def)
qed

lemma sam_int_take: "sam_int (v :: 64 word) = (if bit v 63 then - uint (take_bit 63 v) else uint (take_bit 63 v))"
proof -
  have "uint (take_bit 63 v) = (if bit v 63 then uint v - 2 ^ 63 else uint v)"
  proof (cases "bit v 63")
    case True
    then have "2 ^ 63 \<le> uint v" using top_bit_uint [of v] by simp
    moreover have "uint v < 2 ^ 64" using uint_lt2p [of v] by simp
    ultimately have "uint v mod 2 ^ 63 = uint v - 2 ^ 63"
      by (intro int_mod_pos_eq [where q = 1]) simp_all
    then show ?thesis using True by (simp only: uint_low if_True)
  next
    case False
    then have "uint v < 2 ^ 63" using top_bit_uint [of v] by simp
    then show ?thesis using False by (simp only: uint_low if_False) simp
  qed
  then show ?thesis by (simp add: sam_int_def)
qed

text \<open>The magnitude bits of a number that is no NaN; infinity is the largest.\<close>

lemma decode_cases:
  assumes "\<not> is_nan (decode v)"
  obtains m where "sam_int v = (if bit v 63 then - m else m)" and "0 \<le> m"
    and "(m = 2047 * 2 ^ 52 \<and> decode v = Inf (bit v 63))
      \<or> (m < 2047 * 2 ^ 52 \<and> decode v = Fin (bit v 63) (magnitude m))"
proof -
  let ?m = "uint (take_bit 63 v)"
  have m: "0 \<le> ?m" "?m < 2 ^ 63" by (simp_all only: uint_low) simp_all
  have split: "?m = 2 ^ 52 * (?m div 2 ^ 52) + ?m mod 2 ^ 52" by simp
  have low: "0 \<le> ?m mod 2 ^ 52" by simp
  show thesis
  proof (cases "?m div 2 ^ 52 = 2047")
    case True
    then have "?m mod 2 ^ 52 = 0" using assms by (auto simp: decode_def Let_def split: if_splits)
    then show thesis using True split m(1) sam_int_take [of v]
      by (intro that [of ?m]) (simp_all add: decode_def Let_def)
  next
    case False
    moreover have "?m div 2 ^ 52 < 2048" using m by simp
    ultimately have "?m div 2 ^ 52 < 2047" by simp
    then have "?m < 2047 * 2 ^ 52" by simp
    then show thesis using False m(1) sam_int_take [of v]
      by (intro that [of ?m]) (simp_all add: decode_def Let_def)
  qed
qed

lemma signed_magnitude_less:
  assumes "0 \<le> m" and "0 \<le> n"
  shows "Double.signed s (magnitude m) < Double.signed t (magnitude n) \<longleftrightarrow> (if s then - m else m) < (if t then - n else n)"
proof -
  have zero: "k = 0 \<and> magnitude k = 0 \<or> 0 < k \<and> 0 < magnitude k" if "0 \<le> k" for k
    using magnitude_less [of 0 k] that by auto
  from zero [OF assms(1)] zero [OF assms(2)] show ?thesis
    using magnitude_less [OF assms] magnitude_less [OF assms(2,1)]
    by (elim disjE; cases s; cases t) auto
qed

text \<open>
  On numbers that are not NaN the order of the sign-and-magnitude integers is the order of the
  doubles, so almost equal numbers are those with at most three doubles between them
  (infinity follows the largest finite one).
\<close>

theorem float_order:
  assumes "\<not> fp_is_nan (FloatingPoint v)" and "\<not> fp_is_nan (FloatingPoint w)"
  shows "decode v < decode w \<longleftrightarrow> sam_int v < sam_int w"
proof -
  obtain m where m: "sam_int v = (if bit v 63 then - m else m)" "0 \<le> m"
    "(m = 2047 * 2 ^ 52 \<and> decode v = Inf (bit v 63)) \<or> (m < 2047 * 2 ^ 52 \<and> decode v = Fin (bit v 63) (magnitude m))"
    by (rule decode_cases [OF assms(1) [unfolded nan_decode]])
  obtain n where n: "sam_int w = (if bit w 63 then - n else n)" "0 \<le> n"
    "(n = 2047 * 2 ^ 52 \<and> decode w = Inf (bit w 63)) \<or> (n < 2047 * 2 ^ 52 \<and> decode w = Fin (bit w 63) (magnitude n))"
    by (rule decode_cases [OF assms(2) [unfolded nan_decode]])
  from m(3) n(3) show ?thesis
  proof (elim disjE conjE)
    assume "decode v = Fin (bit v 63) (magnitude m)" "decode w = Fin (bit w 63) (magnitude n)"
    then show ?thesis using signed_magnitude_less [OF m(2) n(2)] by (simp add: m(1) n(1))
  qed (use m(1,2) n(1,2) in auto)
qed

theorem float_order_witness: "decode 0x3FF0000000000000 < decode 0x4000000000000000"
proof -
  have "\<not> fp_is_nan (FloatingPoint (0x3FF0000000000000 :: 64 word))" "\<not> fp_is_nan (FloatingPoint (0x4000000000000000 :: 64 word))"
    by (simp_all add: fp_is_nan_def exponent_bits_def fraction_bits_def masks_64 FloatingPoint_def mask_eq_exp_minus_1)
  note order = float_order [OF this]
  show ?thesis unfolding order by (simp add: sam_int_def bit_iff_odd)
qed

end
