(* ===== verification/Gtest_Params.thy ===== *)
theory Gtest_Params
  imports Prelude
begin

section \<open>Parameter generators of the test framework (gtest-param-util.h)\<close>

text \<open>
  A generator yields its first and its end iterator; an iterator is advanced, read and
  compared through virtual functions. Here an iterator is a value (copying one is what
  \<open>Clone\<close> does), a generator is known by its address, and the virtual functions of a
  generator and of its iterators are a record of functions. Comparing iterators of
  different generators ends the program (\<open>GTEST_CHECK_\<close>), and reading or advancing an
  iterator of a vector beyond its end is undefined.
\<close>

subsection \<open>Results that can be a fault\<close>

definition bind_sum :: "fault + 'a \<Rightarrow> ('a \<Rightarrow> fault + 'b) \<Rightarrow> fault + 'b" where
  "bind_sum r k = (case r of Inl f \<Rightarrow> Inl f | Inr x \<Rightarrow> k x)"

lemma bind_sum_simps [simp]: "bind_sum (Inr x) k = k x" "bind_sum (Inl f) k = Inl f"
  by (simp_all add: bind_sum_def)

fun map_checked :: "('a \<Rightarrow> fault + 'b) \<Rightarrow> 'a list \<Rightarrow> fault + 'b list" where
  "map_checked f [] = Inr []"
| "map_checked f (x # xs) = bind_sum (f x) (\<lambda>y. bind_sum (map_checked f xs) (\<lambda>ys. Inr (y # ys)))"

lemma map_checked_all: "(\<And>x. x \<in> set xs \<Longrightarrow> f x = Inr (g x)) \<Longrightarrow> map_checked f xs = Inr (map g xs)"
  by (induction xs) simp_all

text \<open>The check of all \<open>Equals\<close> functions.\<close>

definition same_base :: "nat \<Rightarrow> nat \<Rightarrow> fault + bool \<Rightarrow> fault + bool" where
  "same_base b c r = (if b = c then r else
     Inl (Abort ''The program attempted to compare iterators from different generators.''))"

subsection \<open>The interfaces\<close>

text \<open>\<open>ParamGeneratorInterface\<close> and \<open>ParamIteratorInterface\<close>.\<close>

record ('it, 'v) generator =
  Begin :: "fault + 'it"
  End :: "fault + 'it"
  BaseGenerator :: "'it \<Rightarrow> nat"
  Advance :: "'it \<Rightarrow> fault + 'it"
  Clone :: "'it \<Rightarrow> 'it"
  Current :: "'it \<Rightarrow> fault + 'v"
  Equals :: "'it \<Rightarrow> 'it \<Rightarrow> fault + bool"

text \<open>\<open>ParamIterator\<close>; \<open>same\<close> says whether both hold the very same iterator object.\<close>

definition iter_copy :: "('it, 'v) generator \<Rightarrow> 'it \<Rightarrow> 'it" where
  "iter_copy g other = Clone g other"

definition iter_assign :: "('it, 'v) generator \<Rightarrow> bool \<Rightarrow> 'it \<Rightarrow> 'it \<Rightarrow> 'it" where
  "iter_assign g same this other = (if same then this else Clone g other)"

definition iter_deref :: "('it, 'v) generator \<Rightarrow> 'it \<Rightarrow> fault + 'v" where
  "iter_deref g it = Current g it"

definition iter_pre_inc :: "('it, 'v) generator \<Rightarrow> 'it \<Rightarrow> fault + 'it" where
  "iter_pre_inc g it = Advance g it"

text \<open>The value returned and the iterator left behind.\<close>

definition iter_post_inc :: "('it, 'v) generator \<Rightarrow> 'it \<Rightarrow> fault + ('it \<times> 'it)" where
  "iter_post_inc g it = (let clone = Clone g it
     in bind_sum (Advance g it) (\<lambda>it'. Inr (clone, it')))"

definition iter_eq :: "('it, 'v) generator \<Rightarrow> bool \<Rightarrow> 'it \<Rightarrow> 'it \<Rightarrow> fault + bool" where
  "iter_eq g same this other = (if same then Inr True else Equals g this other)"

definition iter_neq :: "('it, 'v) generator \<Rightarrow> bool \<Rightarrow> 'it \<Rightarrow> 'it \<Rightarrow> fault + bool" where
  "iter_neq g same this other = bind_sum (iter_eq g same this other) (\<lambda>b. Inr (\<not> b))"

text \<open>\<open>ParamGenerator\<close> shares its generator with its copies.\<close>

definition gen_begin :: "('it, 'v) generator \<Rightarrow> fault + 'it" where
  "gen_begin g = Begin g"

definition gen_end :: "('it, 'v) generator \<Rightarrow> fault + 'it" where
  "gen_end g = End g"

text \<open>
  The loop \<open>for (it = g.begin(); it != g.end(); ++it)\<close> of the clients, collecting what
  \<open>*it\<close> yields. It may run forever, then it has no result.
\<close>

partial_function (option) collect_from :: "('it, 'v) generator \<Rightarrow> 'it \<Rightarrow> 'v list \<Rightarrow> (fault + 'v list) option" where
  "collect_from g it acc =
     (case bind_sum (gen_end g) (iter_neq g False it) of
        Inl f \<Rightarrow> Some (Inl f)
      | Inr go \<Rightarrow>
          if \<not> go then Some (Inr acc)
          else (case bind_sum (iter_deref g it) (\<lambda>v. bind_sum (iter_pre_inc g it) (\<lambda>it'. Inr (v, it'))) of
                  Inl f \<Rightarrow> Some (Inl f)
                | Inr (v, it') \<Rightarrow> collect_from g it' (acc @ [v])))"

definition collect :: "('it, 'v) generator \<Rightarrow> (fault + 'v list) option" where
  "collect g = (case gen_begin g of Inl f \<Rightarrow> Some (Inl f) | Inr it \<Rightarrow> collect_from g it [])"

text \<open>
  What a generator promises: its iterators have positions in a list of elements; the
  first one is at position 0, advancing moves to the next position, reading yields the
  element there, and comparing with the end tells whether all elements are behind.
\<close>

locale enumerates =
  fixes g :: "('it, 'v) generator" and elems :: "'v list" and at :: "'it \<Rightarrow> nat \<Rightarrow> bool"
  assumes begin_at: "\<exists>it. Begin g = Inr it \<and> at it 0"
    and end_at: "\<exists>e. End g = Inr e \<and> at e (length elems)"
    and advance_at: "at it i \<Longrightarrow> i < length elems \<Longrightarrow> \<exists>it'. Advance g it = Inr it' \<and> at it' (Suc i)"
    and current_at: "at it i \<Longrightarrow> i < length elems \<Longrightarrow> Current g it = Inr (elems ! i)"
    and at_bound: "at it i \<Longrightarrow> i \<le> length elems"
    and clone_at: "at it i \<Longrightarrow> at (Clone g it) i"
    and equals_at: "at it i \<Longrightarrow> at it' j \<Longrightarrow> Equals g it it' = Inr (i = j)"
begin

lemma collect_from_at: "at it i \<Longrightarrow> collect_from g it acc = Some (Inr (acc @ drop i elems))"
proof (induction "length elems - i" arbitrary: it i acc)
  case 0
  then have i: "i = length elems" using at_bound [of it i] by simp
  obtain e where "End g = Inr e" "at e (length elems)" using end_at by blast
  then show ?case
    using 0 i equals_at [of it i e "length elems"]
    by (subst collect_from.simps) (simp add: gen_end_def iter_neq_def iter_eq_def)
next
  case (Suc k)
  then have i: "i < length elems" by simp
  obtain e where e: "End g = Inr e" "at e (length elems)" using end_at by blast
  obtain it' where it': "Advance g it = Inr it'" "at it' (Suc i)"
    using advance_at [OF Suc.prems i] by blast
  have "collect_from g it' (acc @ [elems ! i]) = Some (Inr ((acc @ [elems ! i]) @ drop (Suc i) elems))"
    using Suc.hyps(2) by (intro Suc.hyps(1) it') simp
  then show ?case
    using e it'(1) current_at [OF Suc.prems i] equals_at [OF Suc.prems e(2)] i
    by (subst collect_from.simps)
       (simp add: gen_end_def iter_neq_def iter_eq_def iter_deref_def iter_pre_inc_def Cons_nth_drop_Suc)
qed

lemma collects: "collect g = Some (Inr elems)"
proof -
  obtain it where "Begin g = Inr it" "at it 0" using begin_at by blast
  then show ?thesis using collect_from_at [of it 0 "[]"] by (simp add: collect_def gen_begin_def)
qed

end

subsection \<open>Ranges\<close>

text \<open>
  \<open>RangeGenerator\<close> over a type with an addition \<open>add\<close> and a comparison \<open>lt\<close>; the
  conversion back to the type is part of \<open>add\<close>. The index is an \<open>int\<close> whose overflow is
  undefined, so counting the steps of a range that never ends does not go on forever.
\<close>

record ('v, 'i) rangeGenerator =
  rg_address :: nat
  rg_begin :: 'v
  rg_end :: 'v
  rg_step :: 'i
  rg_end_index :: int

record ('v, 'i) rangeIterator =
  ri_base :: nat
  ri_value :: 'v
  ri_index :: int
  ri_step :: 'i

abbreviation int_max :: int where
  "int_max \<equiv> 2147483647"

function count_steps :: "('v \<Rightarrow> 'i \<Rightarrow> 'v) \<Rightarrow> ('v \<Rightarrow> 'v \<Rightarrow> bool) \<Rightarrow> 'v \<Rightarrow> 'i \<Rightarrow> 'v \<Rightarrow> int \<Rightarrow> fault + int" where
  "count_steps add lt end' step i end_index =
     (if lt i end' then
        (if int_max \<le> end_index then Inl (Undefined Signed_overflow)
         else count_steps add lt end' step (add i step) (end_index + 1))
      else Inr end_index)"
  by pat_completeness auto
termination
  by (relation "measure (\<lambda>(add, lt, end', step, i, n). nat (int_max - n))") auto

declare count_steps.simps [simp del]

definition CalculateEndIndex :: "('v \<Rightarrow> 'i \<Rightarrow> 'v) \<Rightarrow> ('v \<Rightarrow> 'v \<Rightarrow> bool) \<Rightarrow> 'v \<Rightarrow> 'v \<Rightarrow> 'i \<Rightarrow> fault + int" where
  "CalculateEndIndex add lt begin' end' step = count_steps add lt end' step begin' 0"

definition RangeGenerator :: "('v \<Rightarrow> 'i \<Rightarrow> 'v) \<Rightarrow> ('v \<Rightarrow> 'v \<Rightarrow> bool) \<Rightarrow> nat \<Rightarrow> 'v \<Rightarrow> 'v \<Rightarrow> 'i
    \<Rightarrow> fault + ('v, 'i) rangeGenerator" where
  "RangeGenerator add lt address begin' end' step =
     bind_sum (CalculateEndIndex add lt begin' end' step) (\<lambda>n.
       Inr \<lparr>rg_address = address, rg_begin = begin', rg_end = end', rg_step = step, rg_end_index = n\<rparr>)"

definition range_iterator :: "nat \<Rightarrow> 'v \<Rightarrow> int \<Rightarrow> 'i \<Rightarrow> ('v, 'i) rangeIterator" where
  "range_iterator base value index step = \<lparr>ri_base = base, ri_value = value, ri_index = index, ri_step = step\<rparr>"

definition range_begin :: "('v, 'i) rangeGenerator \<Rightarrow> ('v, 'i) rangeIterator" where
  "range_begin rg = range_iterator (rg_address rg) (rg_begin rg) 0 (rg_step rg)"

definition range_end :: "('v, 'i) rangeGenerator \<Rightarrow> ('v, 'i) rangeIterator" where
  "range_end rg = range_iterator (rg_address rg) (rg_end rg) (rg_end_index rg) (rg_step rg)"

definition range_advance :: "('v \<Rightarrow> 'i \<Rightarrow> 'v) \<Rightarrow> ('v, 'i) rangeIterator \<Rightarrow> fault + ('v, 'i) rangeIterator" where
  "range_advance add it =
     (if ri_index it = int_max then Inl (Undefined Signed_overflow)
      else Inr (it\<lparr>ri_value := add (ri_value it) (ri_step it), ri_index := ri_index it + 1\<rparr>))"

definition range_copy :: "('v, 'i) rangeIterator \<Rightarrow> ('v, 'i) rangeIterator" where
  "range_copy other = range_iterator (ri_base other) (ri_value other) (ri_index other) (ri_step other)"

definition range_current :: "('v, 'i) rangeIterator \<Rightarrow> fault + 'v" where
  "range_current it = Inr (ri_value it)"

definition range_equals :: "('v, 'i) rangeIterator \<Rightarrow> ('v, 'i) rangeIterator \<Rightarrow> fault + bool" where
  "range_equals it other = same_base (ri_base it) (ri_base other) (Inr (ri_index it = ri_index other))"

definition range_generator :: "('v \<Rightarrow> 'i \<Rightarrow> 'v) \<Rightarrow> ('v, 'i) rangeGenerator \<Rightarrow> (('v, 'i) rangeIterator, 'v) generator" where
  "range_generator add rg = \<lparr>Begin = Inr (range_begin rg), End = Inr (range_end rg), BaseGenerator = ri_base,
     Advance = range_advance add, Clone = range_copy, Current = range_current, Equals = range_equals\<rparr>"

subsection \<open>The elements of a container\<close>

text \<open>
  \<open>ValuesInIteratorRangeGenerator\<close> holds a copy of the elements; an iterator is an index
  into it, with the element read last as a cached value.
\<close>

record 'v valuesGenerator =
  vg_address :: nat
  container :: "'v list"

record 'v valuesIterator =
  vi_base :: nat
  vi_iterator :: nat
  vi_value :: "'v option"

definition ValuesInGenerator :: "nat \<Rightarrow> 'v list \<Rightarrow> 'v valuesGenerator" where
  "ValuesInGenerator address elems = \<lparr>vg_address = address, container = elems\<rparr>"

definition values_iterator :: "nat \<Rightarrow> nat \<Rightarrow> 'v valuesIterator" where
  "values_iterator base iterator = \<lparr>vi_base = base, vi_iterator = iterator, vi_value = None\<rparr>"

definition values_begin :: "'v valuesGenerator \<Rightarrow> 'v valuesIterator" where
  "values_begin vg = values_iterator (vg_address vg) 0"

definition values_end :: "'v valuesGenerator \<Rightarrow> 'v valuesIterator" where
  "values_end vg = values_iterator (vg_address vg) (length (container vg))"

definition values_advance :: "'v valuesGenerator \<Rightarrow> 'v valuesIterator \<Rightarrow> fault + 'v valuesIterator" where
  "values_advance vg it =
     (if length (container vg) \<le> vi_iterator it then Inl (Undefined Deref_end)
      else Inr (it\<lparr>vi_iterator := vi_iterator it + 1, vi_value := None\<rparr>))"

text \<open>The copy constructor leaves the cached value empty.\<close>

definition values_copy :: "'v valuesIterator \<Rightarrow> 'v valuesIterator" where
  "values_copy other = values_iterator (vi_base other) (vi_iterator other)"

text \<open>The value and the iterator with its cache filled.\<close>

definition values_read :: "'v valuesGenerator \<Rightarrow> 'v valuesIterator \<Rightarrow> fault + ('v \<times> 'v valuesIterator)" where
  "values_read vg it = (case vi_value it of
       Some v \<Rightarrow> Inr (v, it)
     | None \<Rightarrow>
         if length (container vg) \<le> vi_iterator it then Inl (Undefined Deref_end)
         else (let v = container vg ! vi_iterator it in Inr (v, it\<lparr>vi_value := Some v\<rparr>)))"

definition values_current :: "'v valuesGenerator \<Rightarrow> 'v valuesIterator \<Rightarrow> fault + 'v" where
  "values_current vg it = bind_sum (values_read vg it) (\<lambda>(v, _). Inr v)"

definition values_equals :: "'v valuesIterator \<Rightarrow> 'v valuesIterator \<Rightarrow> fault + bool" where
  "values_equals it other = same_base (vi_base it) (vi_base other) (Inr (vi_iterator it = vi_iterator other))"

definition values_generator :: "'v valuesGenerator \<Rightarrow> ('v valuesIterator, 'v) generator" where
  "values_generator vg = \<lparr>Begin = Inr (values_begin vg), End = Inr (values_end vg), BaseGenerator = vi_base,
     Advance = values_advance vg, Clone = values_copy, Current = values_current vg, Equals = values_equals\<rparr>"

subsection \<open>What ranges and containers yield\<close>

text \<open>The value after \<open>n\<close> steps, and the elements of a range with \<open>n\<close> of them.\<close>

fun stepped :: "('v \<Rightarrow> 'i \<Rightarrow> 'v) \<Rightarrow> 'i \<Rightarrow> nat \<Rightarrow> 'v \<Rightarrow> 'v" where
  "stepped add step 0 v = v"
| "stepped add step (Suc n) v = stepped add step n (add v step)"

lemma stepped_Suc: "stepped add step (Suc n) v = add (stepped add step n v) step"
  by (induction n arbitrary: v) simp_all

definition range_elems :: "('v \<Rightarrow> 'i \<Rightarrow> 'v) \<Rightarrow> ('v, 'i) rangeGenerator \<Rightarrow> 'v list" where
  "range_elems add rg = map (\<lambda>n. stepped add (rg_step rg) n (rg_begin rg)) [0..<nat (rg_end_index rg)]"

definition range_at :: "('v \<Rightarrow> 'i \<Rightarrow> 'v) \<Rightarrow> ('v, 'i) rangeGenerator \<Rightarrow> ('v, 'i) rangeIterator \<Rightarrow> nat \<Rightarrow> bool" where
  "range_at add rg it i \<longleftrightarrow> ri_base it = rg_address rg \<and> ri_index it = int i \<and> ri_step it = rg_step rg
     \<and> i \<le> nat (rg_end_index rg)
     \<and> (i < nat (rg_end_index rg) \<longrightarrow> ri_value it = stepped add (rg_step rg) i (rg_begin rg))"

lemma count_steps_bounds: "count_steps add lt end' step i n = Inr m \<Longrightarrow> n \<le> m \<and> (n \<le> int_max \<longrightarrow> m \<le> int_max)"
proof (induction add lt end' step i n rule: count_steps.induct)
  case (1 add lt end' step i n)
  then show ?case by (subst (asm) (2) count_steps.simps) (auto split: if_splits)
qed

lemma range_enumerates:
  assumes "0 \<le> rg_end_index rg" and "rg_end_index rg \<le> int_max"
  shows "enumerates (range_generator add rg) (range_elems add rg) (range_at add rg)"
proof
  show "\<exists>it. Begin (range_generator add rg) = Inr it \<and> range_at add rg it 0"
    by (simp add: range_generator_def range_begin_def range_iterator_def range_at_def)
  show "\<exists>e. End (range_generator add rg) = Inr e \<and> range_at add rg e (length (range_elems add rg))"
    using assms by (simp add: range_generator_def range_end_def range_iterator_def range_at_def range_elems_def)
  fix it i
  assume at: "range_at add rg it i"
  show "i \<le> length (range_elems add rg)" using at by (simp add: range_at_def range_elems_def)
  show "range_at add rg (Clone (range_generator add rg) it) i"
    using at by (simp add: range_generator_def range_copy_def range_iterator_def range_at_def)
  { assume i: "i < length (range_elems add rg)"
    then have "ri_value it = stepped add (rg_step rg) i (rg_begin rg)" using at by (simp add: range_at_def range_elems_def)
    then show "Current (range_generator add rg) it = Inr (range_elems add rg ! i)"
      using i by (simp add: range_generator_def range_current_def range_elems_def)
    show "\<exists>it'. Advance (range_generator add rg) it = Inr it' \<and> range_at add rg it' (Suc i)"
      using at i assms stepped_Suc [of add "rg_step rg" i "rg_begin rg"]
      by (auto simp: range_generator_def range_advance_def range_at_def range_elems_def simp del: stepped.simps(2)) }
  fix it' j
  assume "range_at add rg it' j"
  then show "Equals (range_generator add rg) it it' = Inr (i = j)"
    using at by (simp add: range_generator_def range_equals_def same_base_def range_at_def)
qed

definition values_at :: "'v valuesGenerator \<Rightarrow> 'v valuesIterator \<Rightarrow> nat \<Rightarrow> bool" where
  "values_at vg it i \<longleftrightarrow> vi_base it = vg_address vg \<and> vi_iterator it = i \<and> i \<le> length (container vg)
     \<and> (vi_value it = None \<or> (i < length (container vg) \<and> vi_value it = Some (container vg ! i)))"

lemma values_enumerates: "enumerates (values_generator vg) (container vg) (values_at vg)"
proof
  show "\<exists>it. Begin (values_generator vg) = Inr it \<and> values_at vg it 0"
    by (simp add: values_generator_def values_begin_def values_iterator_def values_at_def)
  show "\<exists>e. End (values_generator vg) = Inr e \<and> values_at vg e (length (container vg))"
    by (simp add: values_generator_def values_end_def values_iterator_def values_at_def)
  fix it i
  assume at: "values_at vg it i"
  then show "i \<le> length (container vg)" by (simp add: values_at_def)
  show "values_at vg (Clone (values_generator vg) it) i"
    using at by (simp add: values_generator_def values_copy_def values_iterator_def values_at_def)
  show "i < length (container vg) \<Longrightarrow> Current (values_generator vg) it = Inr (container vg ! i)"
    using at by (auto simp: values_generator_def values_current_def values_read_def values_at_def Let_def)
  show "i < length (container vg) \<Longrightarrow> \<exists>it'. Advance (values_generator vg) it = Inr it' \<and> values_at vg it' (Suc i)"
    using at by (auto simp: values_generator_def values_advance_def values_at_def)
  fix it' j
  assume "values_at vg it' j"
  then show "Equals (values_generator vg) it it' = Inr (i = j)"
    using at by (simp add: values_generator_def values_equals_def same_base_def values_at_def)
qed

interpretation vals: enumerates "values_generator vg" "container vg" "values_at vg" for vg :: "'v valuesGenerator"
  by (rule values_enumerates)

end
