(* ===== verification/Gtest_Product.thy ===== *)
theory Gtest_Product
  imports Gtest_Params
begin

section \<open>Products of generators and converted generators (gtest-param-util.h)\<close>

text \<open>
  \<open>CartesianProductGenerator\<close> over any positive number of generators; the tuples are
  lists, so the components share a type of iterators and a type of values. An iterator
  holds the first, the end and the current iterator of every component and a cached
  value. \<open>ParamGeneratorConverter\<close> converts every element of a generator.
\<close>

subsection \<open>Cartesian products\<close>

record ('it, 'v) productGenerator =
  pg_address :: nat
  generators :: "('it, 'v) generator list"

record ('it, 'v) productIterator =
  pi_base :: nat
  pi_begin :: "'it list"
  pi_end :: "'it list"
  pi_current :: "'it list"
  pi_current_value :: "'v list option"

fun any_at_end :: "('it, 'v) generator list \<Rightarrow> 'it list \<Rightarrow> 'it list \<Rightarrow> fault + bool" where
  "any_at_end (g # gs) (c # cs) (e # es) =
     bind_sum (iter_eq g False c e) (\<lambda>at_end. if at_end then Inr True else any_at_end gs cs es)"
| "any_at_end _ _ _ = Inr False"

definition product_AtEnd :: "('it, 'v) productGenerator \<Rightarrow> ('it, 'v) productIterator \<Rightarrow> fault + bool" where
  "product_AtEnd pg it = any_at_end (generators pg) (pi_current it) (pi_end it)"

fun all_same :: "('it, 'v) generator list \<Rightarrow> 'it list \<Rightarrow> 'it list \<Rightarrow> fault + bool" where
  "all_same (g # gs) (c # cs) (e # es) =
     bind_sum (iter_eq g False c e) (\<lambda>same. if same then all_same gs cs es else Inr False)"
| "all_same _ _ _ = Inr True"

definition ComputeCurrentValue :: "('it, 'v) productGenerator \<Rightarrow> ('it, 'v) productIterator
    \<Rightarrow> fault + ('it, 'v) productIterator" where
  "ComputeCurrentValue pg it =
     bind_sum (product_AtEnd pg it) (\<lambda>at_end.
       if at_end then Inr it
       else bind_sum (map_checked (\<lambda>(g, c). iter_deref g c) (zip (generators pg) (pi_current it)))
              (\<lambda>vs. Inr (it\<lparr>pi_current_value := Some vs\<rparr>)))"

definition product_iterator :: "('it, 'v) productGenerator \<Rightarrow> bool \<Rightarrow> fault + ('it, 'v) productIterator" where
  "product_iterator pg is_end =
     bind_sum (map_checked gen_begin (generators pg)) (\<lambda>bs.
     bind_sum (map_checked gen_end (generators pg)) (\<lambda>es.
       ComputeCurrentValue pg \<lparr>pi_base = pg_address pg, pi_begin = bs, pi_end = es,
         pi_current = (if is_end then es else bs), pi_current_value = None\<rparr>))"

fun AdvanceIfEnd :: "('it, 'v) generator list \<Rightarrow> 'it list \<Rightarrow> 'it list \<Rightarrow> nat \<Rightarrow> 'it list \<Rightarrow> fault + 'it list" where
  "AdvanceIfEnd gs bs es 0 cs = bind_sum (iter_neq (gs ! 0) False (cs ! 0) (es ! 0)) (\<lambda>_. Inr cs)"
| "AdvanceIfEnd gs bs es (Suc k) cs =
     bind_sum (iter_neq (gs ! Suc k) False (cs ! Suc k) (es ! Suc k)) (\<lambda>ne.
       if ne then Inr cs
       else (let cs' = cs[Suc k := iter_assign (gs ! Suc k) False (cs ! Suc k) (bs ! Suc k)]
             in bind_sum (iter_pre_inc (gs ! k) (cs' ! k)) (\<lambda>c.
                  AdvanceIfEnd gs bs es k (cs'[k := c]))))"

definition product_advance :: "('it, 'v) productGenerator \<Rightarrow> ('it, 'v) productIterator
    \<Rightarrow> fault + ('it, 'v) productIterator" where
  "product_advance pg it =
     bind_sum (product_AtEnd pg it) (\<lambda>at_end.
       if at_end then Inl (Abort ''Assertion `!AtEnd()' failed'')
       else (let gs = generators pg; last_i = length gs - 1
             in bind_sum (iter_pre_inc (gs ! last_i) (pi_current it ! last_i)) (\<lambda>c.
                bind_sum (AdvanceIfEnd gs (pi_begin it) (pi_end it) last_i ((pi_current it)[last_i := c])) (\<lambda>cs.
                ComputeCurrentValue pg (it\<lparr>pi_current := cs\<rparr>)))))"

text \<open>A read of the cached value: a null pointer if there is none.\<close>

definition product_current :: "('it, 'v) productIterator \<Rightarrow> fault + 'v list" where
  "product_current it = (case pi_current_value it of None \<Rightarrow> Inl (Undefined Null_deref) | Some v \<Rightarrow> Inr v)"

definition product_equals :: "('it, 'v) productGenerator \<Rightarrow> ('it, 'v) productIterator
    \<Rightarrow> ('it, 'v) productIterator \<Rightarrow> fault + bool" where
  "product_equals pg it other = same_base (pi_base it) (pi_base other)
     (bind_sum (product_AtEnd pg it) (\<lambda>a.
      bind_sum (if a then product_AtEnd pg other else Inr False) (\<lambda>b.
        if b then Inr True else all_same (generators pg) (pi_current it) (pi_current other))))"

definition product_generator :: "('it, 'v) productGenerator \<Rightarrow> (('it, 'v) productIterator, 'v list) generator" where
  "product_generator pg = \<lparr>Begin = product_iterator pg False, End = product_iterator pg True, BaseGenerator = pi_base,
     Advance = product_advance pg, Clone = (\<lambda>it. it), Current = product_current, Equals = product_equals pg\<rparr>"

subsection \<open>Counting with the positions of the components\<close>

fun digits :: "nat list \<Rightarrow> nat \<Rightarrow> nat list" where
  "digits [] i = []"
| "digits (l # ls) i = (i div prod_list ls) # digits ls (i mod prod_list ls)"

lemma length_digits [simp]: "length (digits ls i) = length ls"
  by (induction ls arbitrary: i) simp_all

lemma digits_zero: "digits ls 0 = replicate (length ls) 0"
  by (induction ls) simp_all

lemma digits_less: "i < prod_list ls \<Longrightarrow> j < length ls \<Longrightarrow> digits ls i ! j < ls ! j"
proof (induction ls arbitrary: i j)
  case (Cons l ls)
  then have pos: "0 < prod_list ls" by (cases "prod_list ls") simp_all
  show ?case
  proof (cases j)
    case 0
    then show ?thesis using Cons.prems(1) by (simp add: less_mult_imp_div_less)
  next
    case (Suc j')
    then show ?thesis using Cons pos by simp
  qed
qed simp

lemma digits_inj: "digits ls i = digits ls k \<Longrightarrow> i < prod_list ls \<Longrightarrow> k < prod_list ls \<Longrightarrow> i = k"
proof (induction ls arbitrary: i k)
  case (Cons l ls)
  then have pos: "0 < prod_list ls" by (cases "prod_list ls") simp_all
  have "i mod prod_list ls = k mod prod_list ls" using Cons pos by (intro Cons.IH) simp_all
  moreover have "i div prod_list ls = k div prod_list ls" using Cons.prems(1) by simp
  ultimately show ?case by (metis div_mult_mod_eq)
qed simp

text \<open>The carry of \<open>AdvanceIfEnd\<close> on positions.\<close>

fun carry :: "nat list \<Rightarrow> nat \<Rightarrow> nat list \<Rightarrow> nat list" where
  "carry ls 0 ds = ds"
| "carry ls (Suc k) ds = (if ds ! Suc k = ls ! Suc k then carry ls k (ds[Suc k := 0, k := ds ! k + 1]) else ds)"

lemma carry_Cons:
  "k < length ds \<Longrightarrow> \<forall>j < k. ds ! j < ls ! j \<Longrightarrow>
   carry (l # ls) (Suc k) (d # ds) =
     (let ds' = carry ls k ds in if ds' ! 0 = ls ! 0 then (d + 1) # ds'[0 := 0] else d # ds')"
proof (induction k arbitrary: ds)
  case (Suc k)
  show ?case
  proof (cases "ds ! Suc k = ls ! Suc k")
    case True
    have "carry (l # ls) (Suc (Suc k)) (d # ds) = carry (l # ls) (Suc k) (d # ds[Suc k := 0, k := ds ! k + 1])"
      using True by simp
    also have "\<dots> = (let ds' = carry ls k (ds[Suc k := 0, k := ds ! k + 1])
        in if ds' ! 0 = ls ! 0 then (d + 1) # ds'[0 := 0] else d # ds')"
      using Suc.prems by (intro Suc.IH) simp_all
    finally show ?thesis using True by simp
  next
    case False
    then show ?thesis using Suc.prems(2) by (auto simp: Let_def)
  qed
qed (simp add: Let_def)

lemma carry_digits:
  assumes "ls \<noteq> []" and "i < prod_list ls"
  shows "carry ls (length ls - 1) ((digits ls i)[length ls - 1 := digits ls i ! (length ls - 1) + 1]) = digits ls (Suc i)"
  using assms
proof (induction ls arbitrary: i)
  case (Cons l ls)
  show ?case
  proof (cases "ls = []")
    case True
    then show ?thesis by simp
  next
    case ne: False
    let ?P = "prod_list ls" and ?n = "length ls - 1"
    have pos: "0 < ?P" using Cons.prems(2) by (cases ?P) simp_all
    let ?r = "i mod ?P" and ?q = "i div ?P"
    have r: "?r < ?P" using pos by simp
    let ?ds = "(digits ls ?r)[?n := digits ls ?r ! ?n + 1]"
    have n: "length ls = Suc ?n" using ne by simp
    have IH: "carry ls ?n ?ds = digits ls (Suc ?r)" by (rule Cons.IH [OF ne r])
    have lt: "\<forall>j < ?n. ?ds ! j < ls ! j" using digits_less [OF r] by simp
    have "carry (l # ls) (Suc ?n) (?q # ?ds) =
        (let ds' = digits ls (Suc ?r) in if ds' ! 0 = ls ! 0 then (?q + 1) # ds'[0 := 0] else ?q # ds')"
    proof (subst carry_Cons [OF _ lt])
      show "?n < length ?ds" by (subst length_list_update) (use n in simp)
      show "(let ds' = carry ls ?n ?ds in if ds' ! 0 = ls ! 0 then (?q + 1) # ds'[0 := 0] else ?q # ds') =
          (let ds' = digits ls (Suc ?r) in if ds' ! 0 = ls ! 0 then (?q + 1) # ds'[0 := 0] else ?q # ds')"
        by (simp only: IH)
    qed
    also have "\<dots> = digits (l # ls) (Suc i)"
    proof (cases "Suc ?r = ?P")
      case True
      obtain l0 ls0 where ls: "ls = l0 # ls0" using ne by (cases ls) simp_all
      have "0 < prod_list ls0" using pos by (simp add: ls)
      then have "digits ls (Suc ?r) = l0 # replicate (length ls0) 0"
        unfolding True by (simp add: ls digits_zero)
      moreover have "Suc i div ?P = ?q + 1" "Suc i mod ?P = 0" using True by (simp_all add: div_Suc mod_Suc)
      ultimately show ?thesis by (simp add: ls digits_zero Let_def)
    next
      case False
      then have "Suc ?r < ?P" using r by simp
      then have "digits ls (Suc ?r) ! 0 < ls ! 0" using ne by (intro digits_less) simp_all
      moreover have "Suc i div ?P = ?q" "Suc i mod ?P = Suc ?r" using False by (simp_all add: div_Suc mod_Suc)
      ultimately show ?thesis by (simp add: Let_def)
    qed
    finally have carried: "carry (l # ls) (Suc ?n) (?q # ?ds) = digits (l # ls) (Suc i)" .
    have "length (l # ls) - 1 = Suc ?n" using n by simp
    moreover have "(digits (l # ls) i)[Suc ?n := digits (l # ls) i ! Suc ?n + 1] = ?q # ?ds" by simp
    ultimately show ?thesis using carried by (simp only:)
  qed
qed simp

subsection \<open>What a product yields\<close>

text \<open>
  A component is a generator with its elements and the positions of its iterators;
  \<open>placed\<close> says where the iterators of a list of components stand.
\<close>

type_synonym ('it, 'v) component = "('it, 'v) generator \<times> 'v list \<times> ('it \<Rightarrow> nat \<Rightarrow> bool)"

definition component_ok :: "('it, 'v) component \<Rightarrow> bool" where
  "component_ok p \<longleftrightarrow> enumerates (fst p) (fst (snd p)) (snd (snd p))"

fun placed :: "('it, 'v) component list \<Rightarrow> 'it list \<Rightarrow> nat list \<Rightarrow> bool" where
  "placed [] [] [] = True"
| "placed (p # ps) (c # cs) (d # ds) = (snd (snd p) c d \<and> placed ps cs ds)"
| "placed _ _ _ = False"

abbreviation sizes :: "('it, 'v) component list \<Rightarrow> nat list" where
  "sizes ps \<equiv> map (\<lambda>p. length (fst (snd p))) ps"

lemma placed_lengths: "placed ps cs ds \<Longrightarrow> length cs = length ps \<and> length ds = length ps"
  by (induction ps cs ds rule: placed.induct) simp_all

lemma placed_nth: "placed ps cs ds \<Longrightarrow> k < length ps \<Longrightarrow> snd (snd (ps ! k)) (cs ! k) (ds ! k)"
  by (induction ps cs ds arbitrary: k rule: placed.induct) (auto simp: nth_Cons split: nat.split)

lemma placed_update: "placed ps cs ds \<Longrightarrow> snd (snd (ps ! k)) c d \<Longrightarrow> placed ps (cs[k := c]) (ds[k := d])"
  by (induction ps cs ds arbitrary: k rule: placed.induct) (auto split: nat.split)

lemma placed_bound: "placed ps cs ds \<Longrightarrow> \<forall>p \<in> set ps. component_ok p \<Longrightarrow> k < length ps \<Longrightarrow> ds ! k \<le> sizes ps ! k"
  using placed_nth [of ps cs ds k] enumerates.at_bound by (fastforce simp: component_ok_def)

lemma component_equals:
  "component_ok p \<Longrightarrow> snd (snd p) c d \<Longrightarrow> snd (snd p) e f \<Longrightarrow> Equals (fst p) c e = Inr (d = f)"
  unfolding component_ok_def by (rule enumerates.equals_at)

lemma equals_placed:
  "placed ps cs ds \<Longrightarrow> placed ps es fs \<Longrightarrow> \<forall>p \<in> set ps. component_ok p \<Longrightarrow> k < length ps \<Longrightarrow>
    iter_neq (fst (ps ! k)) False (cs ! k) (es ! k) = Inr (ds ! k \<noteq> fs ! k)"
  using placed_nth [of ps cs ds k] placed_nth [of ps es fs k]
  by (simp add: iter_neq_def iter_eq_def component_equals)

lemma any_at_end_placed:
  "placed ps cs ds \<Longrightarrow> placed ps es (sizes ps) \<Longrightarrow> \<forall>p \<in> set ps. component_ok p \<Longrightarrow>
    any_at_end (map fst ps) cs es = Inr (\<exists>k < length ps. ds ! k = sizes ps ! k)"
proof (induction ps cs ds arbitrary: es rule: placed.induct)
  case (2 p ps c cs d ds)
  obtain e es' where es: "es = e # es'" using "2.prems"(2) by (cases es) simp_all
  have "Equals (fst p) c e = Inr (d = length (fst (snd p)))"
    using "2.prems" by (intro component_equals) (simp_all add: es)
  moreover have "any_at_end (map fst ps) cs es' = Inr (\<exists>k < length ps. ds ! k = sizes ps ! k)"
    using "2.prems" by (intro "2.IH") (simp_all add: es)
  ultimately show ?case by (auto simp: es iter_eq_def less_Suc_eq_0_disj)
qed simp_all

lemma all_same_placed:
  "placed ps cs ds \<Longrightarrow> placed ps es fs \<Longrightarrow> \<forall>p \<in> set ps. component_ok p \<Longrightarrow>
    all_same (map fst ps) cs es = Inr (ds = fs)"
proof (induction ps cs ds arbitrary: es fs rule: placed.induct)
  case 1
  then show ?case by (cases es; cases fs) simp_all
next
  case (2 p ps c cs d ds)
  obtain e es' f fs' where es: "es = e # es'" "fs = f # fs'" using "2.prems"(2) by (cases es; cases fs) simp_all
  have "Equals (fst p) c e = Inr (d = f)"
    using "2.prems" by (intro component_equals) (simp_all add: es)
  moreover have "all_same (map fst ps) cs es' = Inr (ds = fs')"
    using "2.prems" by (intro "2.IH") (simp_all add: es)
  ultimately show ?case by (simp add: es iter_eq_def)
qed simp_all

lemma AdvanceIfEnd_placed:
  assumes "placed ps bs (replicate (length ps) 0)" and "placed ps es (sizes ps)" and "\<forall>p \<in> set ps. component_ok p"
    and "ps \<noteq> []"
  shows "placed ps cs ds \<Longrightarrow> k < length ps \<Longrightarrow> \<forall>j < k. ds ! j < sizes ps ! j \<Longrightarrow>
    \<exists>cs'. AdvanceIfEnd (map fst ps) bs es k cs = Inr cs' \<and> placed ps cs' (carry (sizes ps) k ds)"
proof (induction k arbitrary: cs ds)
  case 0
  then show ?case using equals_placed [OF "0.prems"(1) assms(2,3), of 0] by simp
next
  case (Suc k)
  have eq: "iter_neq (fst (ps ! Suc k)) False (cs ! Suc k) (es ! Suc k) = Inr (ds ! Suc k \<noteq> sizes ps ! Suc k)"
    by (rule equals_placed [OF Suc.prems(1) assms(2,3) Suc.prems(2)])
  show ?case
  proof (cases "ds ! Suc k = sizes ps ! Suc k")
    case False
    then show ?thesis using eq Suc.prems by simp
  next
    case True
    let ?b = "Clone (fst (ps ! Suc k)) (bs ! Suc k)"
    have "snd (snd (ps ! Suc k)) (bs ! Suc k) 0" using placed_nth [OF assms(1) Suc.prems(2)] Suc.prems(2) by simp
    then have "snd (snd (ps ! Suc k)) ?b 0"
      using assms(3) Suc.prems(2) enumerates.clone_at by (fastforce simp: component_ok_def)
    then have reset: "placed ps (cs[Suc k := ?b]) (ds[Suc k := 0])" by (rule placed_update [OF Suc.prems(1)])
    have ok: "enumerates (fst (ps ! k)) (fst (snd (ps ! k))) (snd (snd (ps ! k)))"
      using assms(3) Suc.prems(2) by (simp add: component_ok_def)
    have "snd (snd (ps ! k)) (cs ! k) (ds ! k)" using placed_nth [OF Suc.prems(1), of k] Suc.prems(2) by simp
    moreover have "ds ! k < length (fst (snd (ps ! k)))" using Suc.prems(2,3) by simp
    ultimately obtain c where c: "Advance (fst (ps ! k)) (cs ! k) = Inr c" "snd (snd (ps ! k)) c (Suc (ds ! k))"
      using enumerates.advance_at [OF ok] by blast
    obtain cs' where "AdvanceIfEnd (map fst ps) bs es k (cs[Suc k := ?b, k := c]) = Inr cs'"
      and "placed ps cs' (carry (sizes ps) k (ds[Suc k := 0, k := Suc (ds ! k)]))"
      using Suc.IH [OF placed_update [OF reset c(2)]] Suc.prems by auto
    then show ?thesis using eq True c(1) Suc.prems(2)
      by (simp add: Let_def iter_pre_inc_def iter_assign_def)
  qed
qed

abbreviation element_lists :: "('it, 'v) component list \<Rightarrow> 'v list list" where
  "element_lists ps \<equiv> map (\<lambda>p. fst (snd p)) ps"

lemma length_product_lists: "length (product_lists xss) = prod_list (map length xss)"
  by (induction xss) (simp_all add: length_concat comp_def sum_list_triv)

lemma nth_concat_equal:
  "(\<And>x. x \<in> set xs \<Longrightarrow> length (f x) = n) \<Longrightarrow> i < length xs * n \<Longrightarrow>
    concat (map f xs) ! i = f (xs ! (i div n)) ! (i mod n)"
proof (induction xs arbitrary: i)
  case (Cons x xs)
  then have n: "0 < n" by (cases n) simp_all
  show ?case
  proof (cases "i < n")
    case False
    then have "concat (map f xs) ! (i - n) = f (xs ! ((i - n) div n)) ! ((i - n) mod n)"
      using Cons.prems by (intro Cons.IH) simp_all
    moreover have "i div n = Suc ((i - n) div n)" "(i - n) mod n = i mod n"
      using False n by (simp_all add: le_div_geq le_mod_geq)
    ultimately show ?thesis using Cons.prems(1) False by (simp add: nth_append)
  qed (use Cons.prems(1) in \<open>simp add: nth_append\<close>)
qed simp

lemma product_lists_nth:
  "i < prod_list (map length xss) \<Longrightarrow> product_lists xss ! i = map2 (!) xss (digits (map length xss) i)"
proof (induction xss arbitrary: i)
  case (Cons xs xss)
  then have pos: "0 < prod_list (map length xss)" by (cases "prod_list (map length xss)") simp_all
  have "product_lists (xs # xss) ! i =
      map (Cons (xs ! (i div prod_list (map length xss)))) (product_lists xss) ! (i mod prod_list (map length xss))"
    using Cons.prems by (simp add: nth_concat_equal [where n = "prod_list (map length xss)"] length_product_lists)
  then show ?case using Cons.IH [of "i mod prod_list (map length xss)"] pos by (simp add: length_product_lists)
qed simp

lemma read_placed:
  "placed ps cs ds \<Longrightarrow> \<forall>p \<in> set ps. component_ok p \<Longrightarrow> \<forall>k < length ps. ds ! k < sizes ps ! k \<Longrightarrow>
    map_checked (\<lambda>(g, c). iter_deref g c) (zip (map fst ps) cs) = Inr (map2 (!) (element_lists ps) ds)"
proof (induction ps cs ds rule: placed.induct)
  case (2 p ps c cs d ds)
  have "d < length (fst (snd p))" using "2.prems"(3) by fastforce
  then have "Current (fst p) c = Inr (fst (snd p) ! d)"
    using "2.prems" enumerates.current_at by (fastforce simp: component_ok_def)
  moreover have "\<forall>k < length ps. ds ! k < sizes ps ! k" using "2.prems"(3) by fastforce
  ultimately show ?case using "2.IH" "2.prems" by (simp add: iter_deref_def)
qed simp_all

text \<open>The positions of the iterators of a product; behind the last one, any component is at its end.\<close>

definition product_at :: "('it, 'v) component list \<Rightarrow> nat \<Rightarrow> ('it, 'v) productIterator \<Rightarrow> nat \<Rightarrow> bool" where
  "product_at ps address it i \<longleftrightarrow> pi_base it = address \<and> placed ps (pi_begin it) (replicate (length ps) 0)
     \<and> placed ps (pi_end it) (sizes ps) \<and> i \<le> prod_list (sizes ps)
     \<and> (\<exists>ds. placed ps (pi_current it) ds
          \<and> (if i < prod_list (sizes ps)
             then ds = digits (sizes ps) i \<and> pi_current_value it = Some (map2 (!) (element_lists ps) ds)
             else \<exists>k < length ps. ds ! k = sizes ps ! k))"

lemma product_atE:
  assumes "product_at ps address it i"
  obtains ds where "placed ps (pi_current it) ds" and "i < prod_list (sizes ps) \<longrightarrow> ds = digits (sizes ps) i"
    and "\<not> i < prod_list (sizes ps) \<longrightarrow> (\<exists>k < length ps. ds ! k = sizes ps ! k)"
proof -
  have "\<exists>ds. placed ps (pi_current it) ds \<and> (if i < prod_list (sizes ps)
      then ds = digits (sizes ps) i \<and> pi_current_value it = Some (map2 (!) (element_lists ps) ds)
      else \<exists>k < length ps. ds ! k = sizes ps ! k)"
    using assms unfolding product_at_def by blast
  then show thesis using that by (cases "i < prod_list (sizes ps)") auto
qed

lemma not_at_end: "i < prod_list (sizes ps) \<Longrightarrow> \<not> (\<exists>k < length ps. digits (sizes ps) i ! k = sizes ps ! k)"
  using digits_less [of i "sizes ps"] by fastforce

lemma compute_placed:
  assumes "generators pg = map fst ps" and "\<forall>p \<in> set ps. component_ok p"
    and "pi_base it = pg_address pg" "placed ps (pi_begin it) (replicate (length ps) 0)"
    and "placed ps (pi_end it) (sizes ps)" and "placed ps (pi_current it) ds" and "i \<le> prod_list (sizes ps)"
    and "if i < prod_list (sizes ps) then ds = digits (sizes ps) i else \<exists>k < length ps. ds ! k = sizes ps ! k"
  shows "\<exists>it'. ComputeCurrentValue pg it = Inr it' \<and> product_at ps (pg_address pg) it' i"
proof -
  have at_end: "product_AtEnd pg it = Inr (\<exists>k < length ps. ds ! k = sizes ps ! k)"
    unfolding product_AtEnd_def assms(1) by (rule any_at_end_placed [OF assms(6,5,2)])
  show ?thesis
  proof (cases "i < prod_list (sizes ps)")
    case True
    then have ds: "ds = digits (sizes ps) i" using assms(8) by simp
    have "\<forall>k < length ps. ds ! k < sizes ps ! k" using digits_less [OF True] by (simp add: ds)
    note read_placed [OF assms(6,2) this]
    then show ?thesis
      using at_end not_at_end [OF True] assms(3-7) True
      by (simp add: ComputeCurrentValue_def assms(1) product_at_def ds)
  next
    case False
    then show ?thesis
      using at_end assms(3-8) by (auto simp: ComputeCurrentValue_def product_at_def)
  qed
qed

lemma prod_pos: "\<not> (\<exists>k < length ls. 0 = ls ! k) \<Longrightarrow> 0 < prod_list (ls :: nat list)"
  using prod_list_zero_iff [of ls] by (metis gr0I in_set_conv_nth)

lemma begin_placed:
  assumes "\<forall>p \<in> set ps. component_ok p"
  shows "\<exists>bs. map_checked gen_begin (map fst ps) = Inr bs \<and> placed ps bs (replicate (length ps) 0)"
  using assms
proof (induction ps)
  case (Cons p ps)
  then obtain b bs where "Begin (fst p) = Inr b" "snd (snd p) b 0" "map_checked gen_begin (map fst ps) = Inr bs"
    "placed ps bs (replicate (length ps) 0)"
    using enumerates.begin_at by (fastforce simp: component_ok_def)
  moreover from this(1) have "gen_begin (fst p) = Inr b" by (simp add: gen_begin_def)
  ultimately show ?case by simp
qed simp

lemma end_placed:
  assumes "\<forall>p \<in> set ps. component_ok p"
  shows "\<exists>es. map_checked gen_end (map fst ps) = Inr es \<and> placed ps es (sizes ps)"
  using assms
proof (induction ps)
  case (Cons p ps)
  then obtain e es where "End (fst p) = Inr e" "snd (snd p) e (length (fst (snd p)))"
    "map_checked gen_end (map fst ps) = Inr es" "placed ps es (sizes ps)"
    using enumerates.end_at by (fastforce simp: component_ok_def)
  moreover from this(1) have "gen_end (fst p) = Inr e" by (simp add: gen_end_def)
  ultimately show ?case by simp
qed simp

lemma product_iterator_at:
  assumes "generators pg = map fst ps" and "\<forall>p \<in> set ps. component_ok p" and "ps \<noteq> []"
  shows "\<exists>it. product_iterator pg False = Inr it \<and> product_at ps (pg_address pg) it 0"
    and "\<exists>it. product_iterator pg True = Inr it \<and> product_at ps (pg_address pg) it (prod_list (sizes ps))"
proof -
  obtain bs where bs: "map_checked gen_begin (map fst ps) = Inr bs" "placed ps bs (replicate (length ps) 0)"
    using begin_placed [OF assms(2)] by blast
  obtain es where es: "map_checked gen_end (map fst ps) = Inr es" "placed ps es (sizes ps)"
    using end_placed [OF assms(2)] by blast
  let ?it = "\<lambda>is_end. \<lparr>pi_base = pg_address pg, pi_begin = bs, pi_end = es,
      pi_current = (if is_end then es else bs), pi_current_value = None\<rparr>"
  have run: "product_iterator pg is_end = ComputeCurrentValue pg (?it is_end)" for is_end
    using bs(1) es(1) by (simp add: product_iterator_def assms(1))
  show "\<exists>it. product_iterator pg False = Inr it \<and> product_at ps (pg_address pg) it 0"
    unfolding run
  proof (rule compute_placed [OF assms(1,2)])
    show "if 0 < prod_list (sizes ps) then replicate (length ps) 0 = digits (sizes ps) 0
        else \<exists>k < length ps. replicate (length ps) 0 ! k = sizes ps ! k"
    proof (cases "0 < prod_list (sizes ps)")
      case False
      then obtain k where "k < length ps" "0 = sizes ps ! k" using prod_pos [of "sizes ps"] by auto
      then show ?thesis using False by (metis nth_replicate)
    qed (simp add: digits_zero)
  qed (simp_all add: bs(2) es(2))
  show "\<exists>it. product_iterator pg True = Inr it \<and> product_at ps (pg_address pg) it (prod_list (sizes ps))"
    unfolding run
  proof (rule compute_placed [OF assms(1,2)])
    show "if prod_list (sizes ps) < prod_list (sizes ps) then sizes ps = digits (sizes ps) (prod_list (sizes ps))
        else \<exists>k < length ps. sizes ps ! k = sizes ps ! k"
      using assms(3) by auto
  qed (simp_all add: bs(2) es(2))
qed

lemma product_advance_at:
  assumes "generators pg = map fst ps" and ok: "\<forall>p \<in> set ps. component_ok p" and "ps \<noteq> []"
    and at: "product_at ps (pg_address pg) it i" and i: "i < prod_list (sizes ps)"
  shows "\<exists>it'. product_advance pg it = Inr it' \<and> product_at ps (pg_address pg) it' (Suc i)"
proof -
  let ?n = "length ps - 1" and ?ds = "digits (sizes ps) i"
  have n: "?n < length ps" using assms(3) by simp
  have cur: "placed ps (pi_current it) ?ds" and bs: "placed ps (pi_begin it) (replicate (length ps) 0)"
    and es: "placed ps (pi_end it) (sizes ps)" and base: "pi_base it = pg_address pg"
    using at i by (auto simp: product_at_def)
  have "product_AtEnd pg it = Inr (\<exists>k < length ps. ?ds ! k = sizes ps ! k)"
    unfolding product_AtEnd_def assms(1) by (rule any_at_end_placed [OF cur es ok])
  then have inside: "product_AtEnd pg it = Inr False" using not_at_end [OF i] by simp
  have lt: "?ds ! k < sizes ps ! k" if "k < length ps" for k using digits_less [OF i] that by simp
  obtain c where c: "Advance (fst (ps ! ?n)) (pi_current it ! ?n) = Inr c" "snd (snd (ps ! ?n)) c (Suc (?ds ! ?n))"
    using enumerates.advance_at [of "fst (ps ! ?n)" "fst (snd (ps ! ?n))" "snd (snd (ps ! ?n))"
        "pi_current it ! ?n" "?ds ! ?n"] placed_nth [OF cur n] lt [OF n] n ok
    by (auto simp: component_ok_def)
  have moved: "placed ps ((pi_current it)[?n := c]) (?ds[?n := Suc (?ds ! ?n)])"
    by (rule placed_update [OF cur c(2)])
  obtain cs where cs: "AdvanceIfEnd (map fst ps) (pi_begin it) (pi_end it) ?n ((pi_current it)[?n := c]) = Inr cs"
    "placed ps cs (carry (sizes ps) ?n (?ds[?n := Suc (?ds ! ?n)]))"
    using AdvanceIfEnd_placed [OF bs es ok assms(3) moved n] lt n by auto
  have "carry (sizes ps) ?n (?ds[?n := Suc (?ds ! ?n)]) = digits (sizes ps) (Suc i)"
    using carry_digits [of "sizes ps" i] assms(3) i by simp
  then have cs_at: "placed ps cs (digits (sizes ps) (Suc i))" using cs(2) by simp
  have "\<exists>it'. ComputeCurrentValue pg (it\<lparr>pi_current := cs\<rparr>) = Inr it' \<and> product_at ps (pg_address pg) it' (Suc i)"
  proof (rule compute_placed [OF assms(1) ok])
    show "if Suc i < prod_list (sizes ps) then digits (sizes ps) (Suc i) = digits (sizes ps) (Suc i)
        else \<exists>k < length ps. digits (sizes ps) (Suc i) ! k = sizes ps ! k"
    proof (cases "Suc i < prod_list (sizes ps)")
      case False
      then have last: "Suc i = prod_list (sizes ps)" using i by simp
      obtain p ps' where "ps = p # ps'" using assms(3) by (cases ps) simp_all
      then show ?thesis using False last i by (intro if_not_P [THEN iffD2] exI [of _ 0]) auto
    qed simp
  qed (use base bs es cs_at i in simp_all)
  then show ?thesis
    using inside c(1) cs(1) n by (simp add: product_advance_def assms(1) iter_pre_inc_def Let_def)
qed

lemma product_enumerates:
  assumes "generators pg = map fst ps" and ok: "\<forall>p \<in> set ps. component_ok p" and "ps \<noteq> []"
  shows "enumerates (product_generator pg) (product_lists (element_lists ps)) (product_at ps (pg_address pg))"
proof
  have len: "length (product_lists (element_lists ps)) = prod_list (sizes ps)"
    by (simp add: length_product_lists comp_def)
  show "\<exists>it. Begin (product_generator pg) = Inr it \<and> product_at ps (pg_address pg) it 0"
    using product_iterator_at(1) [OF assms] by (simp add: product_generator_def)
  show "\<exists>e. End (product_generator pg) = Inr e
      \<and> product_at ps (pg_address pg) e (length (product_lists (element_lists ps)))"
    using product_iterator_at(2) [OF assms] by (simp add: product_generator_def len)
  fix it i
  assume at: "product_at ps (pg_address pg) it i"
  show "i \<le> length (product_lists (element_lists ps))" using at by (simp add: product_at_def len)
  show "product_at ps (pg_address pg) (Clone (product_generator pg) it) i"
    using at by (simp add: product_generator_def)
  { assume i: "i < length (product_lists (element_lists ps))"
    show "Current (product_generator pg) it = Inr (product_lists (element_lists ps) ! i)"
      using at i product_lists_nth [of i "element_lists ps"]
      by (auto simp: product_generator_def product_current_def product_at_def len comp_def)
    show "\<exists>it'. Advance (product_generator pg) it = Inr it' \<and> product_at ps (pg_address pg) it' (Suc i)"
      using product_advance_at [OF assms at] i by (simp add: product_generator_def len) }
  fix it' j
  assume at': "product_at ps (pg_address pg) it' j"
  obtain ds where ds: "placed ps (pi_current it) ds" "i < prod_list (sizes ps) \<longrightarrow> ds = digits (sizes ps) i"
    "\<not> i < prod_list (sizes ps) \<longrightarrow> (\<exists>k < length ps. ds ! k = sizes ps ! k)"
    by (rule product_atE [OF at])
  obtain fs where fs: "placed ps (pi_current it') fs" "j < prod_list (sizes ps) \<longrightarrow> fs = digits (sizes ps) j"
    "\<not> j < prod_list (sizes ps) \<longrightarrow> (\<exists>k < length ps. fs ! k = sizes ps ! k)"
    by (rule product_atE [OF at'])
  have es: "placed ps (pi_end it) (sizes ps)" "placed ps (pi_end it') (sizes ps)"
    using at at' by (simp_all add: product_at_def)
  have ends: "(\<exists>k < length ps. ds ! k = sizes ps ! k) = (\<not> i < prod_list (sizes ps))"
    "(\<exists>k < length ps. fs ! k = sizes ps ! k) = (\<not> j < prod_list (sizes ps))"
    using ds(2,3) fs(2,3) not_at_end [of i ps] not_at_end [of j ps] by blast+
  have end_iff: "product_AtEnd pg it = Inr (\<not> i < prod_list (sizes ps))"
    "product_AtEnd pg it' = Inr (\<not> j < prod_list (sizes ps))"
    unfolding product_AtEnd_def assms(1) any_at_end_placed [OF ds(1) es(1) ok] any_at_end_placed [OF fs(1) es(2) ok]
    by (simp_all only: ends)
  have same: "all_same (generators pg) (pi_current it) (pi_current it') = Inr (ds = fs)"
    unfolding assms(1) by (rule all_same_placed [OF ds(1) fs(1) ok])
  have "pi_base it = pi_base it'" and bounds: "i \<le> prod_list (sizes ps)" "j \<le> prod_list (sizes ps)"
    using at at' by (simp_all add: product_at_def)
  moreover have "(ds = fs) = (i = j)" if "i < prod_list (sizes ps) \<or> j < prod_list (sizes ps)"
    using that ds(2) fs(2) ends digits_inj [of "sizes ps" i j] by blast
  ultimately show "Equals (product_generator pg) it it' = Inr (i = j)"
    using end_iff same by (auto simp: product_generator_def product_equals_def same_base_def)
qed

subsection \<open>Converted generators\<close>

text \<open>
  \<open>ParamGeneratorConverter\<close>: an iterator holds a copy of an iterator of the source, one of
  its end, and the converted value, which is renewed unless the end is reached.
\<close>

record ('it, 'v, 'u) converter =
  cv_address :: nat
  source :: "('it, 'v) generator"
  convert :: "'v \<Rightarrow> 'u"

record ('it, 'u) convIterator =
  ci_base :: nat
  ci_it :: 'it
  ci_end :: 'it
  ci_value :: "'u option"

definition refresh :: "('it, 'v, 'u) converter \<Rightarrow> ('it, 'u) convIterator \<Rightarrow> fault + ('it, 'u) convIterator" where
  "refresh cv it =
     bind_sum (iter_neq (source cv) False (ci_it it) (ci_end it)) (\<lambda>ne.
       if ne then bind_sum (iter_deref (source cv) (ci_it it)) (\<lambda>v. Inr (it\<lparr>ci_value := Some (convert cv v)\<rparr>))
       else Inr it)"

definition conv_iterator :: "('it, 'v, 'u) converter \<Rightarrow> 'it \<Rightarrow> 'it \<Rightarrow> fault + ('it, 'u) convIterator" where
  "conv_iterator cv it e = refresh cv \<lparr>ci_base = cv_address cv, ci_it = iter_copy (source cv) it,
     ci_end = iter_copy (source cv) e, ci_value = None\<rparr>"

definition conv_begin :: "('it, 'v, 'u) converter \<Rightarrow> fault + ('it, 'u) convIterator" where
  "conv_begin cv = bind_sum (gen_begin (source cv)) (\<lambda>b. bind_sum (gen_end (source cv)) (conv_iterator cv b))"

definition conv_end :: "('it, 'v, 'u) converter \<Rightarrow> fault + ('it, 'u) convIterator" where
  "conv_end cv = bind_sum (gen_end (source cv)) (\<lambda>b. bind_sum (gen_end (source cv)) (conv_iterator cv b))"

definition conv_advance :: "('it, 'v, 'u) converter \<Rightarrow> ('it, 'u) convIterator \<Rightarrow> fault + ('it, 'u) convIterator" where
  "conv_advance cv it = bind_sum (iter_pre_inc (source cv) (ci_it it)) (\<lambda>i. refresh cv (it\<lparr>ci_it := i\<rparr>))"

definition conv_current :: "('it, 'u) convIterator \<Rightarrow> fault + 'u" where
  "conv_current it = (case ci_value it of None \<Rightarrow> Inl (Undefined Null_deref) | Some v \<Rightarrow> Inr v)"

definition conv_equals :: "('it, 'v, 'u) converter \<Rightarrow> ('it, 'u) convIterator \<Rightarrow> ('it, 'u) convIterator \<Rightarrow> fault + bool" where
  "conv_equals cv it other = same_base (ci_base it) (ci_base other)
     (let other_it = iter_copy (source cv) (ci_it other) in iter_eq (source cv) False (ci_it it) other_it)"

definition conv_copy :: "('it, 'v, 'u) converter \<Rightarrow> ('it, 'u) convIterator \<Rightarrow> ('it, 'u) convIterator" where
  "conv_copy cv other = other\<lparr>ci_it := iter_copy (source cv) (ci_it other), ci_end := iter_copy (source cv) (ci_end other)\<rparr>"

definition conv_generator :: "('it, 'v, 'u) converter \<Rightarrow> (('it, 'u) convIterator, 'u) generator" where
  "conv_generator cv = \<lparr>Begin = conv_begin cv, End = conv_end cv, BaseGenerator = ci_base,
     Advance = conv_advance cv, Clone = conv_copy cv, Current = conv_current, Equals = conv_equals cv\<rparr>"

definition conv_at :: "('it, 'v, 'u) converter \<Rightarrow> 'v list \<Rightarrow> ('it \<Rightarrow> nat \<Rightarrow> bool) \<Rightarrow> ('it, 'u) convIterator \<Rightarrow> nat \<Rightarrow> bool" where
  "conv_at cv elems at it i \<longleftrightarrow> ci_base it = cv_address cv \<and> at (ci_it it) i \<and> at (ci_end it) (length elems)
     \<and> (i < length elems \<longrightarrow> ci_value it = Some (convert cv (elems ! i)))"

context enumerates
begin

lemma refresh_at:
  assumes "source cv = g" and "ci_base it = cv_address cv" and "at (ci_it it) i" and "at (ci_end it) (length elems)"
  shows "\<exists>it'. refresh cv it = Inr it' \<and> conv_at cv elems at it' i"
proof -
  have "iter_neq (source cv) False (ci_it it) (ci_end it) = Inr (i \<noteq> length elems)"
    using equals_at [OF assms(3,4)] by (simp add: iter_neq_def iter_eq_def assms(1))
  moreover have "i < length elems \<Longrightarrow> iter_deref (source cv) (ci_it it) = Inr (elems ! i)"
    using current_at [OF assms(3)] by (simp add: iter_deref_def assms(1))
  ultimately show ?thesis
    using assms at_bound [OF assms(3)] by (auto simp: refresh_def conv_at_def)
qed

lemma converted:
  assumes "source cv = g"
  shows "enumerates (conv_generator cv) (map (convert cv) elems) (conv_at cv elems at)"
proof
  obtain b where b: "Begin g = Inr b" "at b 0" using begin_at by blast
  obtain e where e: "End g = Inr e" "at e (length elems)" using end_at by blast
  have made: "\<exists>it'. conv_iterator cv it e = Inr it' \<and> conv_at cv elems at it' i" if "at it i" for it i
    unfolding conv_iterator_def
    by (rule refresh_at [OF assms]) (use that e(2) clone_at assms in \<open>simp_all add: iter_copy_def\<close>)
  show "\<exists>it. Begin (conv_generator cv) = Inr it \<and> conv_at cv elems at it 0"
    using made [OF b(2)] b(1) e(1) by (simp add: conv_generator_def conv_begin_def gen_begin_def gen_end_def assms)
  show "\<exists>it. End (conv_generator cv) = Inr it \<and> conv_at cv elems at it (length (map (convert cv) elems))"
    using made [OF e(2)] e(1) by (simp add: conv_generator_def conv_end_def gen_end_def assms)
  fix it i
  assume it: "conv_at cv elems at it i"
  show "i \<le> length (map (convert cv) elems)" using it at_bound [of "ci_it it" i] by (simp add: conv_at_def)
  show "conv_at cv elems at (Clone (conv_generator cv) it) i"
    using it clone_at by (simp add: conv_at_def conv_generator_def conv_copy_def iter_copy_def assms)
  { assume i: "i < length (map (convert cv) elems)"
    show "Current (conv_generator cv) it = Inr (map (convert cv) elems ! i)"
      using it i by (simp add: conv_at_def conv_generator_def conv_current_def)
    obtain j where j: "Advance g (ci_it it) = Inr j" "at j (Suc i)"
      using advance_at [of "ci_it it" i] it i by (auto simp: conv_at_def)
    have "\<exists>it'. refresh cv (it\<lparr>ci_it := j\<rparr>) = Inr it' \<and> conv_at cv elems at it' (Suc i)"
      by (rule refresh_at [OF assms]) (use it j(2) in \<open>simp_all add: conv_at_def\<close>)
    then show "\<exists>it'. Advance (conv_generator cv) it = Inr it' \<and> conv_at cv elems at it' (Suc i)"
      using j(1) by (simp add: conv_generator_def conv_advance_def iter_pre_inc_def assms) }
  fix it' j
  assume "conv_at cv elems at it' j"
  then show "Equals (conv_generator cv) it it' = Inr (i = j)"
    using it equals_at [of "ci_it it" i "Clone g (ci_it it')" j] clone_at
    by (simp add: conv_at_def conv_generator_def conv_equals_def same_base_def Let_def iter_eq_def iter_copy_def assms)
qed

end

subsection \<open>What the generators yield\<close>

lemma count_steps_up:
  fixes b e s n :: int
  assumes "0 < s" and "n + (e - b) \<le> int_max"
  shows "count_steps (+) (<) e s b n = Inr (n + (if b < e then (e - b + s - 1) div s else 0))"
  using assms(2)
proof (induction "nat (e - b)" arbitrary: b n rule: less_induct)
  case less
  show ?case
  proof (cases "b < e")
    case True
    have small: "\<not> int_max \<le> n" using True less.prems by linarith
    have "count_steps (+) (<) e s (b + s) (n + 1) =
        Inr (n + 1 + (if b + s < e then (e - (b + s) + s - 1) div s else 0))"
      using True assms(1) less.prems by (intro less.hyps) linarith+
    moreover have "(e - b + s - 1) div s = 1 + (if b + s < e then (e - (b + s) + s - 1) div s else 0)"
    proof (cases "b + s < e")
      case True
      have "e - b + s - 1 = (e - (b + s) + s - 1) + 1 * s" by simp
      then have "(e - b + s - 1) div s = (e - (b + s) + s - 1) div s + 1"
        using assms(1) by (metis div_mult_self1 less_irrefl add.commute)
      then show ?thesis using True by simp
    next
      case False
      have "(e - b + s - 1) div s = 1"
        by (rule int_div_pos_eq [where r = "e - b - 1"]) (use True False in simp_all)
      then show ?thesis using False by simp
    qed
    ultimately show ?thesis using True small by (subst count_steps.simps) simp
  next
    case False
    then show ?thesis by (subst count_steps.simps) simp
  qed
qed

lemma stepped_int: "stepped (+) (s :: int) n b = b + int n * s"
  by (induction n arbitrary: b) (simp_all add: algebra_simps)

text \<open>
  Iterating over \<open>Range(b, e, s)\<close> on integers with a positive step yields b, b + s, and so on up to
  the last one below e, and ends.
\<close>

theorem int_range_elements:
  fixes b e s :: int
  assumes "0 < s" and "b < e" and "e - b \<le> int_max"
  shows "\<exists>rg. RangeGenerator (+) (<) address b e s = Inr rg
    \<and> collect (range_generator (+) rg) = Some (Inr (map (\<lambda>n. b + int n * s) [0..<nat ((e - b + s - 1) div s)]))"
proof -
  let ?n = "(e - b + s - 1) div s"
  let ?rg = "\<lparr>rg_address = address, rg_begin = b, rg_end = e, rg_step = s, rg_end_index = ?n\<rparr>"
  have count: "count_steps (+) (<) e s b 0 = Inr ?n" using count_steps_up [of s 0 e b] assms by simp
  have "0 \<le> ?n \<and> ?n \<le> int_max" using count_steps_bounds [OF count] by simp
  then have "collect (range_generator (+) ?rg) = Some (Inr (range_elems (+) ?rg))"
    by (intro enumerates.collects [OF range_enumerates]) simp_all
  then show ?thesis
    using count by (simp add: RangeGenerator_def CalculateEndIndex_def range_elems_def stepped_int)
qed

theorem int_range_elements_witness:
  "\<exists>rg. RangeGenerator (+) (<) 1 0 10 4 = Inr rg \<and> collect (range_generator (+) rg) = Some (Inr [0, 4, 8 :: int])"
  using int_range_elements [of 4 0 10 1] by (simp add: upt_rec)

lemma count_steps_down:
  fixes b e s n :: int
  assumes "s \<le> 0" and "b < e"
  shows "count_steps (+) (<) e s b n = Inl (Undefined Signed_overflow)"
  using assms(2)
proof (induction "nat (int_max - n)" arbitrary: b n rule: less_induct)
  case less
  have "n < int_max \<Longrightarrow> count_steps (+) (<) e s (b + s) (n + 1) = Inl (Undefined Signed_overflow)"
    using less.prems assms(1) by (intro less.hyps) linarith+
  then show ?case using less.prems by (subst count_steps.simps) simp
qed

text \<open>
  A range with a step that is not positive and a begin below its end counts its steps until the \<open>int\<close>
  that counts them overflows: no such generator comes into being.
\<close>

theorem int_range_without_end:
  fixes b e s :: int
  assumes "s \<le> 0" and "b < e"
  shows "RangeGenerator (+) (<) address b e s = Inl (Undefined Signed_overflow)"
  using count_steps_down [OF assms] by (simp add: RangeGenerator_def CalculateEndIndex_def)

theorem int_range_without_end_witness:
  "RangeGenerator (+) (<) 1 0 10 (0 :: int) = Inl (Undefined Signed_overflow)"
  using int_range_without_end [of 0 0 10 1] by simp

text \<open>The component of a container, as \<open>Values\<close> and \<open>ValuesIn\<close> make it.\<close>

definition container_component :: "nat \<times> 'v list \<Rightarrow> ('v valuesIterator, 'v) component" where
  "container_component = (\<lambda>(a, xs). let vg = ValuesInGenerator a xs in (values_generator vg, xs, values_at vg))"

lemma container_component_ok: "component_ok (container_component axs)"
proof (cases axs)
  case (Pair a xs)
  have "container (ValuesInGenerator a xs) = xs" by (simp add: ValuesInGenerator_def)
  then show ?thesis using vals.enumerates_axioms [of "ValuesInGenerator a xs"]
    by (simp add: component_ok_def container_component_def Pair Let_def)
qed

lemma product_of_containers:
  assumes "xss \<noteq> []"
  shows "collect (product_generator \<lparr>pg_address = address,
      generators = map (\<lambda>xs. values_generator (ValuesInGenerator (addr xs) xs)) xss\<rparr>) = Some (Inr (product_lists xss))"
proof -
  let ?ps = "map (\<lambda>xs. container_component (addr xs, xs)) xss"
  have parts: "enumerates (product_generator \<lparr>pg_address = address, generators = map fst ?ps\<rparr>)
      (product_lists (element_lists ?ps)) (product_at ?ps address)"
    using product_enumerates [of "\<lparr>pg_address = address, generators = map fst ?ps\<rparr>" ?ps] assms container_component_ok
    by fastforce
  have elems: "element_lists ?ps = xss"
    by (simp add: comp_def container_component_def Let_def)
  have gens: "map fst ?ps = map (\<lambda>xs. values_generator (ValuesInGenerator (addr xs) xs)) xss"
    by (simp add: comp_def container_component_def Let_def)
  show ?thesis using enumerates.collects [OF parts] unfolding elems gens .
qed

text \<open>
  Iterating over the Cartesian product of containers yields every tuple of their elements once,
  the last component varying fastest, and ends; it yields nothing when one container is empty.
\<close>

theorem product_elements:
  assumes "xss \<noteq> []"
  shows "collect (product_generator \<lparr>pg_address = address,
      generators = map (\<lambda>xs. values_generator (ValuesInGenerator (addr xs) xs)) xss\<rparr>) = Some (Inr (product_lists xss))"
  by (rule product_of_containers [OF assms])

theorem product_elements_witness:
  "collect (product_generator \<lparr>pg_address = 1,
      generators = map (\<lambda>xs. values_generator (ValuesInGenerator 2 xs)) [[1, 2], [3, 4 :: nat]]\<rparr>)
    = Some (Inr [[1, 3], [1, 4], [2, 3], [2, 4]])"
  using product_elements [of "[[1, 2], [3, 4 :: nat]]" 1 "\<lambda>_. 2"] by simp

text \<open>
  Converting the elements of a container yields the converted elements in their order.
\<close>

theorem converted_elements:
  "collect (conv_generator \<lparr>cv_address = address, source = values_generator (ValuesInGenerator a xs), convert = f\<rparr>)
     = Some (Inr (map f xs))"
proof -
  let ?cv = "\<lparr>cv_address = address, source = values_generator (ValuesInGenerator a xs), convert = f\<rparr>"
  have "source ?cv = values_generator (ValuesInGenerator a xs)" by simp
  note enumerates.collects [OF vals.converted [OF this]]
  then show ?thesis by (simp add: ValuesInGenerator_def)
qed

end
