(* ===== verification/Gtest_Names.thy ===== *)
theory Gtest_Names
  imports Text Std_Map
begin

section \<open>Names of tests (gtest-port.h, gtest-internal.h, gtest-param-util.h)\<close>

text \<open>
  The character classes the framework wraps, in the C locale, the functions that take a
  comma-separated list of test names apart, and the validity of a parameterised test's name.
\<close>

subsection \<open>Characters\<close>

definition islower :: "char \<Rightarrow> bool" where
  "islower c \<longleftrightarrow> 97 \<le> (of_char c :: nat) \<and> (of_char c :: nat) \<le> 122"

definition isupper :: "char \<Rightarrow> bool" where
  "isupper c \<longleftrightarrow> 65 \<le> (of_char c :: nat) \<and> (of_char c :: nat) \<le> 90"

definition toupper :: "char \<Rightarrow> char" where
  "toupper c = (if islower c then char_of ((of_char c :: nat) - 32) else c)"

definition IsAlpha :: "char \<Rightarrow> bool" where
  "IsAlpha ch \<longleftrightarrow> isupper ch \<or> islower ch"

definition IsAlNum :: "char \<Rightarrow> bool" where
  "IsAlNum ch \<longleftrightarrow> isupper ch \<or> islower ch \<or> isdigit ch"

definition IsDigit :: "char \<Rightarrow> bool" where
  "IsDigit ch \<longleftrightarrow> isdigit ch"

definition IsLower :: "char \<Rightarrow> bool" where
  "IsLower ch \<longleftrightarrow> islower ch"

definition IsSpace :: "char \<Rightarrow> bool" where
  "IsSpace ch \<longleftrightarrow> isspace ch"

definition IsUpper :: "char \<Rightarrow> bool" where
  "IsUpper ch \<longleftrightarrow> isupper ch"

definition IsXDigit :: "char \<Rightarrow> bool" where
  "IsXDigit ch \<longleftrightarrow> isxdigit ch"

text \<open>The overloads for wide characters look at the low byte of characters below 256 only.\<close>

definition IsXDigit_wide :: "nat \<Rightarrow> bool" where
  "IsXDigit_wide ch = (let low_byte = ch mod 256 in ch = low_byte \<and> isxdigit (char_of low_byte))"

definition ToLower :: "char \<Rightarrow> char" where
  "ToLower ch = tolower ch"

definition ToUpper :: "char \<Rightarrow> char" where
  "ToUpper ch = toupper ch"

function StripTrailingSpaces :: "string \<Rightarrow> string" where
  "StripTrailingSpaces str =
     (if str \<noteq> [] \<and> IsSpace (last str) then StripTrailingSpaces (butlast str) else str)"
  by pat_completeness auto
termination
  by (relation "measure length") auto

declare StripTrailingSpaces.simps [simp del]

subsection \<open>Lists of names\<close>

text \<open>\<open>strchr\<close> for a comma: the string from there on, or a null pointer.\<close>

definition from_comma :: "string \<Rightarrow> string option" where
  "from_comma str = (case dropWhile (\<lambda>c. c \<noteq> CHR '','') (c_str str) of [] \<Rightarrow> None | c # cs \<Rightarrow> Some (c # cs))"

definition SkipComma :: "string \<Rightarrow> string option" where
  "SkipComma str = (case from_comma str of None \<Rightarrow> None | Some comma \<Rightarrow> Some (dropWhile IsSpace (tl comma)))"

definition GetPrefixUntilComma :: "string \<Rightarrow> string" where
  "GetPrefixUntilComma str = (case from_comma str of
       None \<Rightarrow> c_str str | Some comma \<Rightarrow> take (length (c_str str) - length comma) (c_str str))"

text \<open>\<open>DefaultNameGenerator\<close> and \<open>GenerateNames\<close>: one name for every type of a list, by its index.\<close>

definition DefaultNameGenerator :: "'ty \<Rightarrow> nat \<Rightarrow> string" where
  "DefaultNameGenerator type i = to_string (int i)"

fun GenerateNamesRecursively :: "('ty \<Rightarrow> nat \<Rightarrow> string) \<Rightarrow> 'ty list \<Rightarrow> string list \<Rightarrow> nat \<Rightarrow> string list" where
  "GenerateNamesRecursively gen [] result i = result"
| "GenerateNamesRecursively gen (t # ts) result i = GenerateNamesRecursively gen ts (result @ [gen t i]) (i + 1)"

definition GenerateNames :: "('ty \<Rightarrow> nat \<Rightarrow> string) \<Rightarrow> 'ty list \<Rightarrow> string list" where
  "GenerateNames gen types = GenerateNamesRecursively gen types [] 0"

subsection \<open>Names of parameters\<close>

record 'v testParamInfo =
  tp_param :: 'v
  tp_index :: nat

definition TestParamInfo :: "'v \<Rightarrow> nat \<Rightarrow> 'v testParamInfo" where
  "TestParamInfo p i = \<lparr>tp_param = p, tp_index = i\<rparr>"

text \<open>\<open>PrintToString\<close> of a value of the parameter type is an argument.\<close>

definition PrintToStringParamName :: "('v \<Rightarrow> string) \<Rightarrow> 'v testParamInfo \<Rightarrow> string" where
  "PrintToStringParamName print info = print (tp_param info)"

definition DefaultParamName :: "'v testParamInfo \<Rightarrow> string" where
  "DefaultParamName info = to_string (int (tp_index info))"

fun valid_from :: "string \<Rightarrow> bool" where
  "valid_from [] = True"
| "valid_from (c # cs) = (if \<not> IsAlNum c \<and> c \<noteq> CHR ''_'' then False else valid_from cs)"

definition IsValidParamName :: "string \<Rightarrow> bool" where
  "IsValidParamName name = (if name = [] then False else valid_from name)"

subsection \<open>Facts\<close>

lemma valid_from_iff: "valid_from s \<longleftrightarrow> (\<forall>c \<in> set s. IsAlNum c \<or> c = CHR ''_'')"
  by (induction s) auto

lemma strip_spaces: "StripTrailingSpaces str = rev (dropWhile IsSpace (rev str))"
proof (induction str rule: rev_induct)
  case (snoc c cs)
  then show ?case by (subst StripTrailingSpaces.simps) simp
qed (simp add: StripTrailingSpaces.simps)

lemma generate_names: "GenerateNames gen ts = map (\<lambda>i. gen (ts ! i) i) [0..<length ts]"
proof -
  have "GenerateNamesRecursively gen ts acc k = acc @ map (\<lambda>i. gen (ts ! i) (k + i)) [0..<length ts]" for acc k
  proof (induction ts arbitrary: acc k)
    case (Cons t ts)
    have "map (\<lambda>i. gen ((t # ts) ! i) (k + i)) [0..<length (t # ts)]
        = gen t k # map (\<lambda>i. gen (ts ! i) (Suc k + i)) [0..<length ts]"
      by (simp add: upt_conv_Cons map_Suc_upt [symmetric] comp_def del: upt_Suc)
    then show ?case using Cons by simp
  qed simp
  then show ?thesis by (simp add: GenerateNames_def)
qed

lemma to_string_nat: "digit_text (to_string (int i)) \<and> base_val 10 (to_string (int i)) = int i"
  by (simp add: to_string_def show_nonneg_digits base_val_show)

lemma default_name_valid: "IsValidParamName (DefaultParamName info)"
  using to_string_nat [of "tp_index info"]
  by (auto simp: IsValidParamName_def DefaultParamName_def valid_from_iff digit_text_def IsAlNum_def)

lemma default_name_inj: "DefaultParamName a = DefaultParamName b \<longleftrightarrow> tp_index a = tp_index b"
  using to_string_nat [of "tp_index a"] to_string_nat [of "tp_index b"] by (metis DefaultParamName_def of_nat_eq_iff)

text \<open>A comma-separated list of names, as \<open>REGISTER_TYPED_TEST_SUITE_P\<close> passes it.\<close>

fun comma_list :: "string list \<Rightarrow> string" where
  "comma_list [] = []"
| "comma_list [n] = n"
| "comma_list (n # ns) = n @ '', '' @ comma_list ns"

definition plain_name :: "string \<Rightarrow> bool" where
  "plain_name n \<longleftrightarrow> n \<noteq> [] \<and> (\<forall>c \<in> set n. c \<noteq> CHR '','' \<and> c \<noteq> NUL \<and> \<not> IsSpace c)"

lemma comma_not_space: "IsSpace (CHR '' '')" "\<not> IsSpace (CHR '','')" "CHR '','' \<noteq> NUL"
  by (simp_all add: IsSpace_def isspace_def NUL_def)

lemma c_str_plain: "\<forall>c \<in> set s. c \<noteq> NUL \<Longrightarrow> c_str s = s"
  by (simp add: c_str_def)

lemma comma_list_no_nul: "\<forall>n \<in> set ns. plain_name n \<Longrightarrow> c \<in> set (comma_list ns) \<Longrightarrow> c \<noteq> NUL"
  by (induction ns rule: comma_list.induct) (auto simp: plain_name_def NUL_def)

lemma from_comma_none:
  assumes "plain_name n" shows "from_comma n = None" and "c_str n = n"
proof -
  show c: "c_str n = n" using assms by (intro c_str_plain) (auto simp: plain_name_def)
  have "dropWhile (\<lambda>c. c \<noteq> CHR '','') n = []" using assms by (auto simp: plain_name_def)
  then show "from_comma n = None" by (simp only: from_comma_def c list.case)
qed

lemma from_comma_some:
  assumes "plain_name n" and "\<forall>c \<in> set t. c \<noteq> NUL"
  shows "from_comma (n @ CHR '','' # t) = Some (CHR '','' # t)" and "c_str (n @ CHR '','' # t) = n @ CHR '','' # t"
proof -
  show c: "c_str (n @ CHR '','' # t) = n @ CHR '','' # t"
    using assms comma_not_space(3) by (intro c_str_plain) (auto simp: plain_name_def)
  have "dropWhile (\<lambda>c. c \<noteq> CHR '','') (n @ CHR '','' # t) = CHR '','' # t"
    using assms(1) by (subst dropWhile_append2) (auto simp: plain_name_def)
  then show "from_comma (n @ CHR '','' # t) = Some (CHR '','' # t)" by (simp add: from_comma_def c)
qed

lemma rest_no_nul: "\<forall>n \<in> set ns. plain_name n \<Longrightarrow> \<forall>c \<in> set ('' '' @ comma_list ns). c \<noteq> NUL"
  using comma_list_no_nul by (auto simp: NUL_def)

lemma first_name:
  assumes "\<forall>n \<in> set (n # ns). plain_name n"
  shows "StripTrailingSpaces (GetPrefixUntilComma (comma_list (n # ns))) = n"
proof -
  have n: "plain_name n" using assms by simp
  have "GetPrefixUntilComma (comma_list (n # ns)) = n"
  proof (cases ns)
    case Nil
    then show ?thesis by (simp add: GetPrefixUntilComma_def from_comma_none [OF n])
  next
    case (Cons m ms)
    then have "comma_list (n # ns) = n @ CHR '','' # ('' '' @ comma_list ns)" by simp
    then show ?thesis
      using from_comma_some [OF n rest_no_nul [of ns]] assms
      by (simp only: GetPrefixUntilComma_def) simp
  qed
  moreover have "dropWhile IsSpace (rev n) = rev n"
    using n by (cases n rule: rev_cases) (auto simp: plain_name_def)
  ultimately show ?thesis by (simp add: strip_spaces)
qed

lemma next_names:
  assumes "\<forall>n \<in> set (n # m # ns). plain_name n"
  shows "SkipComma (comma_list (n # m # ns)) = Some (comma_list (m # ns))"
proof -
  have "comma_list (n # m # ns) = n @ CHR '','' # ('' '' @ comma_list (m # ns))" by simp
  then have "SkipComma (comma_list (n # m # ns)) = Some (dropWhile IsSpace ('' '' @ comma_list (m # ns)))"
    using from_comma_some(1) [of n "'' '' @ comma_list (m # ns)"] rest_no_nul [of "m # ns"] assms
    by (simp only: SkipComma_def) simp
  moreover have "dropWhile IsSpace (comma_list (m # ns)) = comma_list (m # ns)"
    using assms by (cases m; cases ns) (auto simp: plain_name_def)
  ultimately show ?thesis by (simp add: comma_not_space(1))
qed

end
