(* ===== verification/Gtest_Registry.thy ===== *)
theory Gtest_Registry
  imports Gtest_Names
begin

section \<open>Registration of parameterised and typed tests (gtest-param-util.h, gtest-internal.h)\<close>

text \<open>
  What the framework does with a registered test is not in these headers: the calls of
  \<open>MakeAndRegisterTestInfo\<close>, \<open>InsertSyntheticTestCase\<close> and
  \<open>RegisterTypeParameterizedTestSuiteInstantiation\<close> are recorded in order. A test
  class is known by its type id and the addresses of its four set-up and tear-down
  functions; those of \<open>testing::Test\<close> are the defaults.
\<close>

record code_location =
  loc_file :: string
  line_no :: int

definition CodeLocation :: "string \<Rightarrow> int \<Rightarrow> code_location" where
  "CodeLocation f l = \<lparr>loc_file = f, line_no = l\<rparr>"

record fixture =
  type_id :: nat
  SetUpTestCase :: nat
  SetUpTestSuite :: nat
  TearDownTestCase :: nat
  TearDownTestSuite :: nat

record 'v testFactory =
  parameter :: 'v

record 'v registration =
  suite_name :: string
  test_name :: string
  type_param :: "string option"
  value_param :: "string option"
  location :: code_location
  fixture_id :: nat
  set_up :: "nat option"
  tear_down :: "nat option"
  factory :: "'v testFactory option"

datatype 'v reg_event =
    Test "'v registration"
  | Synthetic string code_location bool
  | Instantiation string

definition record_event :: "'v reg_event \<Rightarrow> ('v reg_event list, unit) cpp" where
  "record_event e = upd (\<lambda>es. es @ [e])"

lemma record_event_app [simp, run_simps]: "record_event e es = (Inr (), es @ [e])"
  by (simp add: record_event_def)

definition quoted :: "string \<Rightarrow> string" where
  "quoted s = CHR 0x27 # s @ [CHR 0x27]"

subsection \<open>Set-up and tear-down functions\<close>

definition GetNotDefaultOrNull :: "nat \<Rightarrow> nat \<Rightarrow> nat option" where
  "GetNotDefaultOrNull a def = (if a = def then None else Some a)"

definition GetSetUpCaseOrSuite :: "fixture \<Rightarrow> fixture \<Rightarrow> string \<Rightarrow> int \<Rightarrow> fault + nat option" where
  "GetSetUpCaseOrSuite base T filename line_num =
     (let test_case_fp = GetNotDefaultOrNull (SetUpTestCase T) (SetUpTestCase base);
          test_suite_fp = GetNotDefaultOrNull (SetUpTestSuite T) (SetUpTestSuite base)
      in if test_case_fp \<noteq> None \<and> test_suite_fp \<noteq> None
         then Inl (Abort (''Test can not provide both SetUpTestSuite and SetUpTestCase, please make sure there is only one present at ''
                @ filename @ '':'' @ to_string line_num))
         else Inr (if test_case_fp \<noteq> None then test_case_fp else test_suite_fp))"

definition GetTearDownCaseOrSuite :: "fixture \<Rightarrow> fixture \<Rightarrow> string \<Rightarrow> int \<Rightarrow> fault + nat option" where
  "GetTearDownCaseOrSuite base T filename line_num =
     (let test_case_fp = GetNotDefaultOrNull (TearDownTestCase T) (TearDownTestCase base);
          test_suite_fp = GetNotDefaultOrNull (TearDownTestSuite T) (TearDownTestSuite base)
      in if test_case_fp \<noteq> None \<and> test_suite_fp \<noteq> None
         then Inl (Abort (''Test can not provide both TearDownTestSuite and TearDownTestCase, please make sure there is only one present at''
                @ filename @ '':'' @ to_string line_num))
         else Inr (if test_case_fp \<noteq> None then test_case_fp else test_suite_fp))"

subsection \<open>Parameterised suites\<close>

definition ParameterizedTestFactory :: "'v \<Rightarrow> 'v testFactory" where
  "ParameterizedTestFactory p = \<lparr>parameter = p\<rparr>"

text \<open>\<open>CreateTest\<close> sets the parameter of the class the test then reads.\<close>

definition CreateTest :: "'v testFactory \<Rightarrow> ('v option, unit) cpp" where
  "CreateTest f = upd (\<lambda>_. Some (parameter f))"

definition CreateTestFactory :: "'v \<Rightarrow> 'v testFactory" where
  "CreateTestFactory p = ParameterizedTestFactory p"

record testInfo =
  test_suite_base_name :: string
  test_base_name :: string
  ti_location :: code_location

text \<open>
  \<open>generator\<close> are the elements the loop over the generator meets, in order (Gtest\_Product
  shows which these are).
\<close>

record 'v instantiationInfo =
  inst_name :: string
  inst_generator :: "'v list"
  name_func :: "'v testParamInfo \<Rightarrow> string"
  inst_file :: string
  inst_line :: int

record 'v suiteInfo =
  test_suite_name :: string
  suite_location :: code_location
  tests :: "testInfo list"
  instantiations :: "'v instantiationInfo list"
  suite_class :: fixture

definition ParameterizedTestSuiteInfo :: "string \<Rightarrow> code_location \<Rightarrow> fixture \<Rightarrow> 'v suiteInfo" where
  "ParameterizedTestSuiteInfo name loc cls = \<lparr>test_suite_name = name, suite_location = loc, tests = [],
     instantiations = [], suite_class = cls\<rparr>"

definition GetTestSuiteName :: "'v suiteInfo \<Rightarrow> string" where
  "GetTestSuiteName info = test_suite_name info"

definition GetTestSuiteTypeId :: "'v suiteInfo \<Rightarrow> nat" where
  "GetTestSuiteTypeId info = type_id (suite_class info)"

definition AddTestPattern :: "string \<Rightarrow> string \<Rightarrow> code_location \<Rightarrow> ('v suiteInfo, unit) cpp" where
  "AddTestPattern suite base loc =
     upd (\<lambda>info. info\<lparr>tests := tests info @ [\<lparr>test_suite_base_name = suite, test_base_name = base, ti_location = loc\<rparr>]\<rparr>)"

definition AddTestSuiteInstantiation :: "string \<Rightarrow> 'v list \<Rightarrow> ('v testParamInfo \<Rightarrow> string) \<Rightarrow> string \<Rightarrow> int
    \<Rightarrow> ('v suiteInfo, int) cpp" where
  "AddTestSuiteInstantiation name func name_f f l =
     seq (upd (\<lambda>info. info\<lparr>instantiations := instantiations info @
           [\<lparr>inst_name = name, inst_generator = func, name_func = name_f, inst_file = f, inst_line = l\<rparr>]\<rparr>))
         (ret 0)"

text \<open>
  The inner loop of \<open>RegisterTests\<close>, for one test and one instantiation, from a position
  on: \<open>seen\<close> are the names used so far. The result says whether any test was registered.
\<close>

fun register_params :: "('v \<Rightarrow> string) \<Rightarrow> fixture \<Rightarrow> 'v suiteInfo \<Rightarrow> testInfo \<Rightarrow> 'v instantiationInfo \<Rightarrow> string
    \<Rightarrow> 'v list \<Rightarrow> nat \<Rightarrow> string set \<Rightarrow> bool \<Rightarrow> ('v reg_event list, bool) cpp" where
  "register_params print base info test inst suite [] i seen generated = ret generated"
| "register_params print base info test inst suite (v # vs) i seen generated =
     (let param_name = name_func inst (TestParamInfo v i) in
      if \<not> IsValidParamName param_name then
        fail (Abort (''Parameterized test name '' @ quoted param_name @ '' is invalid, in '' @ inst_file inst
          @ '' line '' @ to_string (inst_line inst)))
      else if param_name \<in> seen then
        fail (Abort (''Duplicate parameterized test name '' @ quoted param_name @ '', in '' @ inst_file inst
          @ '' line '' @ to_string (inst_line inst)))
      else
        bnd (lift (GetSetUpCaseOrSuite base (suite_class info) (inst_file inst) (inst_line inst))) (\<lambda>su.
        bnd (lift (GetTearDownCaseOrSuite base (suite_class info) (inst_file inst) (inst_line inst))) (\<lambda>td.
        seq (record_event (Test \<lparr>suite_name = suite,
               test_name = (if test_base_name test \<noteq> [] then test_base_name test @ ''/'' else []) @ param_name,
               type_param = None, value_param = Some (print v), location = ti_location test,
               fixture_id = GetTestSuiteTypeId info, set_up = su, tear_down = td,
               factory = Some (CreateTestFactory v)\<rparr>))
            (register_params print base info test inst suite vs (i + 1) (insert param_name seen) True))))"

fun register_instantiations :: "('v \<Rightarrow> string) \<Rightarrow> fixture \<Rightarrow> 'v suiteInfo \<Rightarrow> testInfo \<Rightarrow> 'v instantiationInfo list
    \<Rightarrow> bool \<Rightarrow> ('v reg_event list, bool) cpp" where
  "register_instantiations print base info test [] generated = ret generated"
| "register_instantiations print base info test (inst # insts) generated =
     (let suite = (if inst_name inst \<noteq> [] then inst_name inst @ ''/'' else []) @ test_suite_base_name test in
      bnd (register_params print base info test inst suite (inst_generator inst) 0 {} generated) (\<lambda>gen.
        register_instantiations print base info test insts gen))"

fun register_all :: "('v \<Rightarrow> string) \<Rightarrow> fixture \<Rightarrow> 'v suiteInfo \<Rightarrow> testInfo list \<Rightarrow> bool \<Rightarrow> ('v reg_event list, bool) cpp" where
  "register_all print base info [] generated = ret generated"
| "register_all print base info (test # rest) generated =
     bnd (register_instantiations print base info test (instantiations info) generated) (\<lambda>gen.
       register_all print base info rest gen)"

definition RegisterTests :: "('v \<Rightarrow> string) \<Rightarrow> fixture \<Rightarrow> 'v suiteInfo \<Rightarrow> ('v reg_event list, unit) cpp" where
  "RegisterTests print base info =
     bnd (register_all print base info (tests info) False) (\<lambda>generated.
       if generated then ret ()
       else record_event (Synthetic (GetTestSuiteName info) (suite_location info) (tests info \<noteq> [])))"

subsection \<open>The registry of parameterised suites\<close>

text \<open>
  \<open>GetTestSuitePatternHolder\<close> yields a pointer into the registry: the position of the
  suite. A suite of another class under the same name ends the program.
\<close>

fun find_suite :: "string \<Rightarrow> nat \<Rightarrow> 'v suiteInfo list \<Rightarrow> nat \<Rightarrow> fault + nat option" where
  "find_suite name tid [] i = Inr None"
| "find_suite name tid (info # infos) i =
     (if GetTestSuiteName info = name then
        (if GetTestSuiteTypeId info \<noteq> tid then Inl (Abort name) else Inr (Some i))
      else find_suite name tid infos (i + 1))"

definition GetTestSuitePatternHolder :: "string \<Rightarrow> code_location \<Rightarrow> fixture \<Rightarrow> ('v suiteInfo list, nat) cpp" where
  "GetTestSuitePatternHolder name loc cls =
     bnd (get (\<lambda>infos. find_suite name (type_id cls) infos 0)) (\<lambda>r.
     bnd (lift r) (\<lambda>found. case found of
       Some i \<Rightarrow> ret i
     | None \<Rightarrow> bnd (get length) (\<lambda>i.
         seq (upd (\<lambda>infos. infos @ [ParameterizedTestSuiteInfo name loc cls])) (ret i))))"

definition Registry_RegisterTests :: "('v \<Rightarrow> string) \<Rightarrow> fixture \<Rightarrow> 'v suiteInfo list \<Rightarrow> ('v reg_event list, unit) cpp" where
  "Registry_RegisterTests print base infos = for_each infos (RegisterTests print base)"

subsection \<open>Typed suites\<close>

record typedTestSuitePState =
  registered_m :: bool
  registered_tests :: "(string, code_location) smap"

definition TypedTestSuitePState :: typedTestSuitePState where
  "TypedTestSuitePState = \<lparr>registered_m = False, registered_tests = []\<rparr>"

definition AddTestName :: "string \<Rightarrow> int \<Rightarrow> string \<Rightarrow> string \<Rightarrow> (typedTestSuitePState, bool) cpp" where
  "AddTestName f l case_name name =
     bnd (get registered_m) (\<lambda>registered.
       if registered then fail (Abort (''Test '' @ name @ '' must be defined before REGISTER_TYPED_TEST_SUITE_P(''
           @ case_name @ '', ...).''))
       else seq (upd (\<lambda>st. st\<lparr>registered_tests := map_insert name (CodeLocation f l) (registered_tests st)\<rparr>)) (ret True))"

definition TestExists :: "typedTestSuitePState \<Rightarrow> string \<Rightarrow> bool" where
  "TestExists st name \<longleftrightarrow> map_find (registered_tests st) name \<noteq> None"

definition GetCodeLocation :: "typedTestSuitePState \<Rightarrow> string \<Rightarrow> fault + code_location" where
  "GetCodeLocation st name = (case map_find (registered_tests st) name of
       None \<Rightarrow> Inl (Abort ''Condition it != registered_tests_.end() failed.'') | Some loc \<Rightarrow> Inr loc)"

text \<open>
  The types of a typed suite, for one test: the name of the type, the id of its fixture
  class and the test class made from it.
\<close>

type_synonym typed_test = "string \<times> nat \<times> fixture"

fun TypeParameterizedTest_Register :: "fixture \<Rightarrow> string \<Rightarrow> code_location \<Rightarrow> string \<Rightarrow> string \<Rightarrow> string list \<Rightarrow> nat
    \<Rightarrow> typed_test list \<Rightarrow> ('v reg_event list, bool) cpp" where
  "TypeParameterizedTest_Register base prefix loc case_name test_names type_names index [] = ret True"
| "TypeParameterizedTest_Register base prefix loc case_name test_names type_names index ((type, fid, cls) # types) =
     bnd (vec_at type_names index) (\<lambda>type_name.
     bnd (lift (GetSetUpCaseOrSuite base cls (loc_file loc) (line_no loc))) (\<lambda>su.
     bnd (lift (GetTearDownCaseOrSuite base cls (loc_file loc) (line_no loc))) (\<lambda>td.
     seq (record_event (Test \<lparr>suite_name = prefix @ (if prefix = [] then [] else ''/'') @ case_name @ ''/'' @ type_name,
            test_name = StripTrailingSpaces (GetPrefixUntilComma test_names), type_param = Some type,
            value_param = None, location = loc, fixture_id = fid, set_up = su, tear_down = td, factory = None\<rparr>))
         (TypeParameterizedTest_Register base prefix loc case_name test_names type_names (index + 1) types))))"

text \<open>All tests of a suite for all types; the names run on behind the commas, and a null pointer is no text.\<close>

fun TypeParameterizedTestSuite_Register :: "fixture \<Rightarrow> string \<Rightarrow> code_location \<Rightarrow> typedTestSuitePState \<Rightarrow> string
    \<Rightarrow> string option \<Rightarrow> string list \<Rightarrow> typed_test list list \<Rightarrow> ('v reg_event list, bool) cpp" where
  "TypeParameterizedTestSuite_Register base prefix loc st case_name test_names type_names [] = ret True"
| "TypeParameterizedTestSuite_Register base prefix loc st case_name test_names type_names (types # rest) =
     seq (record_event (Instantiation case_name))
     (case test_names of
        None \<Rightarrow> fail (Undefined Null_deref)
      | Some names \<Rightarrow>
          let name = StripTrailingSpaces (GetPrefixUntilComma names) in
          if \<not> TestExists st name then
            fail (Abort (''Failed to get code location for test '' @ case_name @ ''.'' @ name))
          else
            bnd (lift (GetCodeLocation st name)) (\<lambda>test_loc.
            seq (TypeParameterizedTest_Register base prefix test_loc case_name names type_names 0 types)
                (TypeParameterizedTestSuite_Register base prefix loc st case_name (SkipComma names) type_names rest)))"

subsection \<open>What a parameterised suite registers\<close>

text \<open>No function to set up or to tear down is given twice; \<open>su\<close> and \<open>td\<close> are those found.\<close>

definition class_ok :: "fixture \<Rightarrow> fixture \<Rightarrow> nat option \<Rightarrow> nat option \<Rightarrow> bool" where
  "class_ok base cls su td \<longleftrightarrow>
     (\<forall>f l. GetSetUpCaseOrSuite base cls f l = Inr su \<and> GetTearDownCaseOrSuite base cls f l = Inr td)"

definition param_name :: "'v instantiationInfo \<Rightarrow> nat \<times> 'v \<Rightarrow> string" where
  "param_name inst iv = name_func inst (TestParamInfo (snd iv) (fst iv))"

definition full_suite :: "testInfo \<Rightarrow> 'v instantiationInfo \<Rightarrow> string" where
  "full_suite test inst = (if inst_name inst \<noteq> [] then inst_name inst @ ''/'' else []) @ test_suite_base_name test"

definition param_test :: "('v \<Rightarrow> string) \<Rightarrow> 'v suiteInfo \<Rightarrow> nat option \<Rightarrow> nat option \<Rightarrow> testInfo \<Rightarrow> 'v instantiationInfo
    \<Rightarrow> nat \<times> 'v \<Rightarrow> 'v reg_event" where
  "param_test print info su td test inst iv = Test \<lparr>suite_name = full_suite test inst,
     test_name = (if test_base_name test \<noteq> [] then test_base_name test @ ''/'' else []) @ param_name inst iv,
     type_param = None, value_param = Some (print (snd iv)), location = ti_location test,
     fixture_id = GetTestSuiteTypeId info, set_up = su, tear_down = td, factory = Some \<lparr>parameter = snd iv\<rparr>\<rparr>"

definition names_ok :: "'v instantiationInfo \<Rightarrow> bool" where
  "names_ok inst \<longleftrightarrow> distinct (map (param_name inst) (enumerate 0 (inst_generator inst)))
     \<and> (\<forall>iv \<in> set (enumerate 0 (inst_generator inst)). IsValidParamName (param_name inst iv))"

definition all_param_tests :: "('v \<Rightarrow> string) \<Rightarrow> 'v suiteInfo \<Rightarrow> nat option \<Rightarrow> nat option \<Rightarrow> 'v reg_event list" where
  "all_param_tests print info su td = concat (map (\<lambda>test. concat (map (\<lambda>inst.
     map (param_test print info su td test inst) (enumerate 0 (inst_generator inst))) (instantiations info))) (tests info))"

lemma register_params_run:
  assumes "class_ok base (suite_class info) su td"
  shows "\<exists>m es'. register_params print base info test inst (full_suite test inst) vs i seen gen es =
    (if distinct (map (param_name inst) (enumerate i vs)) \<and> (\<forall>iv \<in> set (enumerate i vs).
          IsValidParamName (param_name inst iv) \<and> param_name inst iv \<notin> seen)
     then (Inr (gen \<or> vs \<noteq> []), es @ map (param_test print info su td test inst) (enumerate i vs))
     else (Inl (Abort m), es'))"
proof (induction vs arbitrary: i seen gen es)
  case (Cons v vs)
  let ?n = "name_func inst (TestParamInfo v i)"
  have name: "param_name inst (i, v) = ?n" by (simp add: param_name_def)
  show ?case
  proof (cases "IsValidParamName ?n \<and> ?n \<notin> seen")
    case True
    obtain m es' where IH: "register_params print base info test inst (full_suite test inst) vs (Suc i) (insert ?n seen) True
        (es @ [param_test print info su td test inst (i, v)]) =
      (if distinct (map (param_name inst) (enumerate (Suc i) vs)) \<and> (\<forall>iv \<in> set (enumerate (Suc i) vs).
            IsValidParamName (param_name inst iv) \<and> param_name inst iv \<notin> insert ?n seen)
       then (Inr (True \<or> vs \<noteq> []), (es @ [param_test print info su td test inst (i, v)]) @
               map (param_test print info su td test inst) (enumerate (Suc i) vs))
       else (Inl (Abort m), es'))"
      using Cons.IH by blast
    have run: "register_params print base info test inst (full_suite test inst) (v # vs) i seen gen es =
        register_params print base info test inst (full_suite test inst) vs (Suc i) (insert ?n seen) True
        (es @ [param_test print info su td test inst (i, v)])"
      using True assms
      by (simp add: class_ok_def Let_def seq_def bnd_app param_test_def param_name_def CreateTestFactory_def
          ParameterizedTestFactory_def)
    show ?thesis unfolding run IH using True name by (intro exI [of _ m] exI [of _ es']) (auto intro: rev_image_eqI)
  next
    case False
    then show ?thesis using name by (auto simp: Let_def)
  qed
qed simp

lemma register_instantiations_run:
  assumes "class_ok base (suite_class info) su td"
  shows "\<exists>m es'. register_instantiations print base info test insts gen es =
    (if \<forall>inst \<in> set insts. names_ok inst
     then (Inr (gen \<or> (\<exists>inst \<in> set insts. inst_generator inst \<noteq> [])), es @ concat (map (\<lambda>inst.
       map (param_test print info su td test inst) (enumerate 0 (inst_generator inst))) insts))
     else (Inl (Abort m), es'))"
proof (induction insts arbitrary: gen es)
  case (Cons inst insts)
  obtain m1 es1 where one: "register_params print base info test inst (full_suite test inst) (inst_generator inst) 0 {} gen es =
      (if names_ok inst then (Inr (gen \<or> inst_generator inst \<noteq> []),
          es @ map (param_test print info su td test inst) (enumerate 0 (inst_generator inst)))
       else (Inl (Abort m1), es1))"
    using register_params_run [OF assms, of print test inst "inst_generator inst" 0 "{}" gen es]
    by (auto simp: names_ok_def)
  show ?case
  proof (cases "names_ok inst")
    case True
    obtain m es' where "register_instantiations print base info test insts (gen \<or> inst_generator inst \<noteq> [])
        (es @ map (param_test print info su td test inst) (enumerate 0 (inst_generator inst))) =
      (if \<forall>inst \<in> set insts. names_ok inst
       then (Inr ((gen \<or> inst_generator inst \<noteq> []) \<or> (\<exists>inst \<in> set insts. inst_generator inst \<noteq> [])),
         (es @ map (param_test print info su td test inst) (enumerate 0 (inst_generator inst))) @ concat (map (\<lambda>inst.
         map (param_test print info su td test inst) (enumerate 0 (inst_generator inst))) insts))
       else (Inl (Abort m), es'))"
      using Cons.IH by blast
    then show ?thesis using True one by (auto simp: bnd_app full_suite_def Let_def)
  next
    case False
    then show ?thesis using one by (simp add: bnd_app full_suite_def Let_def)
  qed
qed simp

lemma register_all_run:
  assumes "class_ok base (suite_class info) su td"
  shows "\<exists>m es'. register_all print base info ts gen es =
    (if ts = [] \<or> (\<forall>inst \<in> set (instantiations info). names_ok inst)
     then (Inr (gen \<or> (ts \<noteq> [] \<and> (\<exists>inst \<in> set (instantiations info). inst_generator inst \<noteq> []))),
       es @ concat (map (\<lambda>test. concat (map (\<lambda>inst.
         map (param_test print info su td test inst) (enumerate 0 (inst_generator inst))) (instantiations info))) ts))
     else (Inl (Abort m), es'))"
proof (induction ts arbitrary: gen es)
  case (Cons test ts)
  let ?insts = "instantiations info"
  let ?new = "concat (map (\<lambda>inst. map (param_test print info su td test inst) (enumerate 0 (inst_generator inst))) ?insts)"
  let ?gen = "gen \<or> (\<exists>inst \<in> set ?insts. inst_generator inst \<noteq> [])"
  obtain m1 es1 where one: "register_instantiations print base info test ?insts gen es =
      (if \<forall>inst \<in> set ?insts. names_ok inst then (Inr ?gen, es @ ?new) else (Inl (Abort m1), es1))"
    using register_instantiations_run [OF assms] by blast
  show ?case
  proof (cases "\<forall>inst \<in> set ?insts. names_ok inst")
    case True
    obtain m es' where "register_all print base info ts ?gen (es @ ?new) =
      (if ts = [] \<or> (\<forall>inst \<in> set ?insts. names_ok inst)
       then (Inr (?gen \<or> (ts \<noteq> [] \<and> (\<exists>inst \<in> set ?insts. inst_generator inst \<noteq> []))),
         (es @ ?new) @ concat (map (\<lambda>test. concat (map (\<lambda>inst.
           map (param_test print info su td test inst) (enumerate 0 (inst_generator inst))) ?insts)) ts))
       else (Inl (Abort m), es'))"
      using Cons.IH by blast
    moreover have "register_all print base info (test # ts) gen es = register_all print base info ts ?gen (es @ ?new)"
      using True one by (simp add: bnd_app)
    ultimately show ?thesis using True by auto
  next
    case False
    then have "register_instantiations print base info test ?insts gen es = (Inl (Abort m1), es1)"
      using one by (simp only: if_False)
    moreover have "\<not> (test # ts = [] \<or> (\<forall>inst \<in> set ?insts. names_ok inst))"
      using False by simp
    ultimately show ?thesis
      by (intro exI [of _ m1] exI [of _ es1]) (simp only: register_all.simps bnd_app prod.case sum.case if_False)
  qed
qed simp

lemma RegisterTests_run:
  assumes "class_ok base (suite_class info) su td"
  shows "\<exists>m es'. RegisterTests print base info es =
    (if tests info = [] \<or> (\<forall>inst \<in> set (instantiations info). names_ok inst)
     then (Inr (), es @ (if all_param_tests print info su td = []
             then [Synthetic (test_suite_name info) (suite_location info) (tests info \<noteq> [])]
             else all_param_tests print info su td))
     else (Inl (Abort m), es'))"
proof -
  obtain m es' where run: "register_all print base info (tests info) False es =
    (if tests info = [] \<or> (\<forall>inst \<in> set (instantiations info). names_ok inst)
     then (Inr (False \<or> (tests info \<noteq> [] \<and> (\<exists>inst \<in> set (instantiations info). inst_generator inst \<noteq> []))),
       es @ all_param_tests print info su td)
     else (Inl (Abort m), es'))"
    unfolding all_param_tests_def using register_all_run [OF assms] by blast
  have none: "enumerate 0 xs = [] \<longleftrightarrow> xs = []" for xs :: "'a list"
    by (cases xs) simp_all
  have "all_param_tests print info su td = [] \<longleftrightarrow>
      \<not> (tests info \<noteq> [] \<and> (\<exists>inst \<in> set (instantiations info). inst_generator inst \<noteq> []))"
    by (auto simp: all_param_tests_def none)
  then show ?thesis using run
    by (intro exI [of _ m] exI [of _ es']) (auto simp: RegisterTests_def bnd_app GetTestSuiteName_def)
qed

text \<open>
  Registering a parameterised suite registers every test pattern with every value of every
  instantiation, in this order, under the name of the instantiation and the name made
  from the value, if these names are valid and distinct for each instantiation; if some
  are not, the program ends. Without any value one synthetic test is inserted.
\<close>

theorem registers_every_combination:
  assumes "class_ok base (suite_class info) su td"
  shows "\<exists>m es'. RegisterTests print base info es =
    (if tests info = [] \<or> (\<forall>inst \<in> set (instantiations info). names_ok inst)
     then (Inr (), es @ (if all_param_tests print info su td = []
             then [Synthetic (test_suite_name info) (suite_location info) (tests info \<noteq> [])]
             else all_param_tests print info su td))
     else (Inl (Abort m), es'))"
  by (rule RegisterTests_run [OF assms])

text \<open>
  With the default names, which are the positions of the values, no name is ever invalid or used
  twice.
\<close>

theorem default_names_ok:
  assumes "name_func inst = DefaultParamName"
  shows "names_ok inst"
proof -
  have "inj_on (param_name inst) (set (enumerate 0 xs))" for xs :: "'a list"
    using assms by (auto simp: inj_on_def param_name_def default_name_inj TestParamInfo_def in_set_enumerate_eq)
  then show ?thesis
    using assms by (auto simp: names_ok_def distinct_map param_name_def default_name_valid)
qed

subsection \<open>What a typed suite registers\<close>

text \<open>The test \<open>n\<close> of a typed suite for the type at position \<open>i\<close>; \<open>su\<close> and \<open>td\<close> give the functions found.\<close>

definition typed_test_of :: "(fixture \<Rightarrow> nat option) \<Rightarrow> (fixture \<Rightarrow> nat option) \<Rightarrow> string \<Rightarrow> code_location \<Rightarrow> string
    \<Rightarrow> string list \<Rightarrow> string \<Rightarrow> nat \<times> typed_test \<Rightarrow> 'v reg_event" where
  "typed_test_of su td prefix loc case_name type_names n it = (case it of (i, type, fid, cls) \<Rightarrow>
     Test \<lparr>suite_name = prefix @ (if prefix = [] then [] else ''/'') @ case_name @ ''/'' @ type_names ! i,
       test_name = n, type_param = Some type, value_param = None, location = loc, fixture_id = fid,
       set_up = su cls, tear_down = td cls, factory = None\<rparr>)"

lemma typed_test_run:
  assumes "\<forall>(type, fid, cls) \<in> set types. class_ok base cls (su cls) (td cls)"
    and "StripTrailingSpaces (GetPrefixUntilComma names) = n" and "i + length types \<le> length type_names"
  shows "TypeParameterizedTest_Register base prefix loc case_name names type_names i types es =
    (Inr True, es @ map (typed_test_of su td prefix loc case_name type_names n) (enumerate i types))"
  using assms
proof (induction types arbitrary: i es)
  case (Cons t types)
  obtain type fid cls where t: "t = (type, fid, cls)" by (cases t) auto
  have "i < length type_names" and "class_ok base cls (su cls) (td cls)" using Cons.prems t by auto
  then have "TypeParameterizedTest_Register base prefix loc case_name names type_names i (t # types) es =
      TypeParameterizedTest_Register base prefix loc case_name names type_names (Suc i) types
        (es @ [typed_test_of su td prefix loc case_name type_names n (i, t)])"
    using Cons.prems(2) by (simp add: t class_ok_def seq_def bnd_app typed_test_of_def)
  then show ?case using Cons.IH [of "Suc i" "es @ [typed_test_of su td prefix loc case_name type_names n (i, t)]"]
      Cons.prems by simp
qed simp

lemma typed_suite_run:
  assumes "\<forall>n \<in> set ns. plain_name n \<and> map_find (registered_tests st) n = Some (loc_of n)"
    and "length tss = length ns" and "\<forall>types \<in> set tss. length types \<le> length type_names"
    and "\<forall>types \<in> set tss. \<forall>(type, fid, cls) \<in> set types. class_ok base cls (su cls) (td cls)"
  shows "TypeParameterizedTestSuite_Register base prefix loc st case_name (Some (comma_list ns)) type_names tss es =
    (Inr True, es @ concat (map (\<lambda>(n, types). Instantiation case_name #
        map (typed_test_of su td prefix (loc_of n) case_name type_names n) (enumerate 0 types)) (zip ns tss)))"
  using assms
proof (induction ns arbitrary: tss es)
  case (Cons n ns)
  obtain types rest where tss: "tss = types # rest" using Cons.prems(2) by (cases tss) auto
  let ?es = "es @ Instantiation case_name # map (typed_test_of su td prefix (loc_of n) case_name type_names n) (enumerate 0 types)"
  have name: "StripTrailingSpaces (GetPrefixUntilComma (comma_list (n # ns))) = n"
    using Cons.prems(1) by (intro first_name) auto
  have one: "TypeParameterizedTest_Register base prefix (loc_of n) case_name (comma_list (n # ns)) type_names 0 types
      (es @ [Instantiation case_name]) = (Inr True, ?es)"
    using typed_test_run [OF _ name, of types base su td 0 type_names prefix "loc_of n" case_name "es @ [Instantiation case_name]"]
      Cons.prems(3,4) by (simp add: tss)
  have "TypeParameterizedTestSuite_Register base prefix loc st case_name (Some (comma_list (n # ns))) type_names tss es =
      TypeParameterizedTestSuite_Register base prefix loc st case_name (SkipComma (comma_list (n # ns))) type_names rest ?es"
    using Cons.prems(1) one by (simp add: tss name Let_def seq_def bnd_app TestExists_def GetCodeLocation_def)
  also have "\<dots> = TypeParameterizedTestSuite_Register base prefix loc st case_name (Some (comma_list ns)) type_names rest ?es"
  proof (cases ns)
    case Nil
    then show ?thesis using Cons.prems(2) by (simp add: tss)
  next
    case (Cons m ms)
    then show ?thesis using Cons.prems(1) next_names [of n m ms] by simp
  qed
  also have "\<dots> = (Inr True, ?es @ concat (map (\<lambda>(n, types). Instantiation case_name #
        map (typed_test_of su td prefix (loc_of n) case_name type_names n) (enumerate 0 types)) (zip ns rest)))"
    using Cons.prems by (intro Cons.IH) (auto simp: tss)
  finally show ?case by (simp add: tss)
qed simp

text \<open>
  A typed suite instantiated with its names separated by commas registers, for each name
  in turn, one test for each type, in the suite made from the prefix, the case and
  the name of the type, at the place where the test was defined: the walk through the
  comma-separated text meets exactly the names that were joined.
\<close>

theorem typed_suite_registers:
  assumes "\<forall>n \<in> set ns. plain_name n \<and> map_find (registered_tests st) n = Some (loc_of n)"
    and "length tss = length ns" and "\<forall>types \<in> set tss. length types \<le> length type_names"
    and "\<forall>types \<in> set tss. \<forall>(type, fid, cls) \<in> set types. class_ok base cls (su cls) (td cls)"
  shows "TypeParameterizedTestSuite_Register base prefix loc st case_name (Some (comma_list ns)) type_names tss es =
    (Inr True, es @ concat (map (\<lambda>(n, types). Instantiation case_name #
        map (typed_test_of su td prefix (loc_of n) case_name type_names n) (enumerate 0 types)) (zip ns tss)))"
  by (rule typed_suite_run [OF assms])

subsection \<open>The registry\<close>

lemma find_suite_none:
  "find_suite name tid infos k = Inr None \<longleftrightarrow> name \<notin> GetTestSuiteName ` set infos"
  by (induction infos arbitrary: k) auto

lemma find_suite_some:
  "find_suite name tid infos k = Inr (Some i) \<Longrightarrow> k \<le> i \<and> i < k + length infos
     \<and> GetTestSuiteName (infos ! (i - k)) = name \<and> GetTestSuiteTypeId (infos ! (i - k)) = tid"
proof (induction infos arbitrary: k)
  case (Cons info infos)
  show ?case
  proof (cases "GetTestSuiteName info = name")
    case False
    then have "find_suite name tid infos (k + 1) = Inr (Some i)" using Cons.prems by simp
    then show ?thesis using Cons.IH [of "k + 1"] by (auto simp: nth_Cons')
  qed (use Cons.prems in \<open>auto split: if_splits\<close>)
qed simp

lemma find_suite_other:
  "find_suite name tid infos k = Inl f \<Longrightarrow> f = Abort name
     \<and> (\<exists>info \<in> set infos. GetTestSuiteName info = name \<and> GetTestSuiteTypeId info \<noteq> tid)"
  by (induction infos arbitrary: k) (auto split: if_splits)

text \<open>
  The registry keeps one suite for each name: asking for a suite returns the position of
  the one registered under the name, or adds an empty one behind the others; the
  program ends when the name belongs to a suite of another class. No suite already
  registered changes, and names stay distinct.
\<close>

theorem one_suite_per_name:
  assumes "distinct (map GetTestSuiteName infos)"
  shows "\<exists>r infos'. GetTestSuitePatternHolder name loc cls infos = (r, infos')
    \<and> distinct (map GetTestSuiteName infos') \<and> take (length infos) infos' = infos
    \<and> (case r of
        Inl f \<Rightarrow> f = Abort name \<and> infos' = infos
          \<and> (\<exists>info \<in> set infos. GetTestSuiteName info = name \<and> GetTestSuiteTypeId info \<noteq> type_id cls)
      | Inr i \<Rightarrow> i < length infos' \<and> GetTestSuiteName (infos' ! i) = name
          \<and> GetTestSuiteTypeId (infos' ! i) = type_id cls
          \<and> infos' = (if name \<in> GetTestSuiteName ` set infos then infos
                      else infos @ [ParameterizedTestSuiteInfo name loc cls]))"
proof (cases "find_suite name (type_id cls) infos 0")
  case (Inl f)
  then show ?thesis using assms find_suite_other [OF Inl]
    by (simp add: GetTestSuitePatternHolder_def bnd_app)
next
  case (Inr found)
  show ?thesis
  proof (cases found)
    case None
    then have "name \<notin> GetTestSuiteName ` set infos" using Inr find_suite_none by fastforce
    then show ?thesis using None Inr assms
      by (simp add: GetTestSuitePatternHolder_def bnd_app seq_def ParameterizedTestSuiteInfo_def
          GetTestSuiteName_def GetTestSuiteTypeId_def)
  next
    case (Some i)
    then have "find_suite name (type_id cls) infos 0 = Inr (Some i)" using Inr by simp
    from find_suite_some [OF this] have i: "i < length infos" "GetTestSuiteName (infos ! i) = name"
      "GetTestSuiteTypeId (infos ! i) = type_id cls" by auto
    then have "name \<in> GetTestSuiteName ` set infos" by (metis nth_mem rev_image_eqI)
    then show ?thesis using Some Inr assms i by (simp add: GetTestSuitePatternHolder_def bnd_app)
  qed
qed

subsection \<open>Instances\<close>

text \<open>The class of tests that sets nothing up, and a suite of one pattern over the numbers 4 and 7.\<close>

definition plain_class :: fixture where
  "plain_class = \<lparr>type_id = 1, SetUpTestCase = 10, SetUpTestSuite = 11, TearDownTestCase = 12, TearDownTestSuite = 13\<rparr>"

definition number_suite :: "nat suiteInfo" where
  "number_suite = \<lparr>test_suite_name = ''Numbers'', suite_location = CodeLocation ''n.cc'' 3,
     tests = [\<lparr>test_suite_base_name = ''Numbers'', test_base_name = ''Odd'', ti_location = CodeLocation ''n.cc'' 5\<rparr>],
     instantiations = [\<lparr>inst_name = ''Some'', inst_generator = [4, 7], name_func = DefaultParamName, inst_file = ''n.cc'',
       inst_line = 9\<rparr>], suite_class = plain_class\<rparr>"

lemma plain_class_ok: "class_ok plain_class plain_class None None"
  by (simp add: class_ok_def GetSetUpCaseOrSuite_def GetTearDownCaseOrSuite_def GetNotDefaultOrNull_def Let_def)

lemma number_names: "map (param_name (hd (instantiations number_suite))) [(0, 4), (1, 7)] = [''0'', ''1'']"
  by (simp add: param_name_def number_suite_def DefaultParamName_def TestParamInfo_def to_string_def) code_simp

theorem default_names_ok_witness: "names_ok (hd (instantiations number_suite))"
  by (rule default_names_ok) (simp add: number_suite_def)

theorem registers_every_combination_witness:
  "\<exists>es. RegisterTests (\<lambda>_. []) plain_class number_suite [] = (Inr (), es) \<and> length es = 2"
proof -
  have "names_ok (hd (instantiations number_suite))"
    using number_names by (simp add: names_ok_def number_suite_def enumerate_simps) code_simp
  then have "\<forall>inst \<in> set (instantiations number_suite). names_ok inst" by (simp add: number_suite_def)
  moreover have "length (all_param_tests (\<lambda>_. []) number_suite None None) = 2"
    by (simp add: all_param_tests_def number_suite_def)
  moreover have "class_ok plain_class (suite_class number_suite) None None" by (simp add: number_suite_def plain_class_ok)
  ultimately show ?thesis
    using registers_every_combination [of plain_class number_suite None None "\<lambda>_. []" "[]"] by (auto split: if_splits)
qed

definition typed_state :: typedTestSuitePState where
  "typed_state = snd (seq (AddTestName ''t.cc'' 4 ''Case'' ''A'') (AddTestName ''t.cc'' 8 ''Case'' ''B'') TypedTestSuitePState)"

theorem typed_suite_registers_witness:
  "TypeParameterizedTestSuite_Register plain_class ''My'' (CodeLocation ''t.cc'' 20) typed_state ''Case'' (Some ''A, B'')
      [''0''] [[(''int'', 1, plain_class)], [(''int'', 1, plain_class)]] ([] :: nat reg_event list) =
    (Inr True, concat (map (\<lambda>(n, types). Instantiation ''Case'' #
        map (typed_test_of (\<lambda>_. None) (\<lambda>_. None) ''My'' (CodeLocation ''t.cc'' (if n = ''A'' then 4 else 8)) ''Case'' [''0''] n)
          (enumerate 0 types)) [(''A'', [(''int'', 1, plain_class)]), (''B'', [(''int'', 1, plain_class)])]))"
proof -
  have "plain_name n \<and> map_find (registered_tests typed_state) n = Some (CodeLocation ''t.cc'' (if n = ''A'' then 4 else 8))"
    if "n \<in> set [''A'', ''B'']" for n
    using that by (auto simp: typed_state_def seq_def bnd_app AddTestName_def TypedTestSuitePState_def plain_name_def NUL_def
      IsSpace_def isspace_def less_char_def)
  then show ?thesis
    using typed_suite_registers [of "[''A'', ''B'']" typed_state "\<lambda>n. CodeLocation ''t.cc'' (if n = ''A'' then 4 else 8)"
      "[[(''int'', 1, plain_class)], [(''int'', 1, plain_class)]]" "[''0'']" plain_class "\<lambda>_. None" "\<lambda>_. None"
      "''My''" "CodeLocation ''t.cc'' 20" "''Case''" "[] :: nat reg_event list"] plain_class_ok
    by simp
qed

theorem one_suite_per_name_witness:
  "GetTestSuitePatternHolder ''Numbers'' (CodeLocation ''n.cc'' 3) plain_class [number_suite] = (Inr 0, [number_suite])"
proof -
  have name: "GetTestSuiteName number_suite = ''Numbers''" "GetTestSuiteTypeId number_suite = type_id plain_class"
    by (simp_all add: number_suite_def GetTestSuiteName_def GetTestSuiteTypeId_def)
  have "distinct (map GetTestSuiteName [number_suite])" by simp
  from one_suite_per_name [OF this, of "''Numbers''" "CodeLocation ''n.cc'' 3" plain_class]
  have "\<exists>r infos'. GetTestSuitePatternHolder ''Numbers'' (CodeLocation ''n.cc'' 3) plain_class [number_suite] = (r, infos')
      \<and> (case r of Inl f \<Rightarrow> False | Inr i \<Rightarrow> i < length infos' \<and> infos' = [number_suite])"
    by (elim ex_forward) (auto simp: name split: sum.splits)
  then obtain r infos' where "GetTestSuitePatternHolder ''Numbers'' (CodeLocation ''n.cc'' 3) plain_class [number_suite] = (r, infos')"
      "case r of Inl f \<Rightarrow> False | Inr i \<Rightarrow> i < length infos' \<and> infos' = [number_suite]" by blast
  then show ?thesis by (cases r) auto
qed

end
