(* ===== verification/Gtest_Values.thy ===== *)
theory Gtest_Values
  imports Gtest_Product Gtest_Registry
begin

section \<open>Building generators and suites (gtest-param-test.h, gtest-internal.h)\<close>

text \<open>
  The functions a test writer calls to make a generator, the sequences of indices and the
  flat tuple they are built on, and what the macros \<open>TEST_P\<close> and
  \<open>INSTANTIATE_TEST_SUITE_P\<close> do to the registry. A template parameter is an argument
  of the model; a pack of values of several types is a list of values of one type that
  has them all, and a conversion to the type of the generator is a function.
\<close>

subsection \<open>Sequences of indices\<close>

fun DoubleSequence :: "bool \<Rightarrow> nat list \<Rightarrow> nat \<Rightarrow> nat list" where
  "DoubleSequence True I n = I @ map (\<lambda>i. n + i) I @ [2 * n]"
| "DoubleSequence False I n = I @ map (\<lambda>i. n + i) I"

fun MakeIndexSequence :: "nat \<Rightarrow> nat list" where
  "MakeIndexSequence n =
     (if n = 0 then [] else DoubleSequence (n mod 2 = 1) (MakeIndexSequence (n div 2)) (n div 2))"

declare MakeIndexSequence.simps [simp del]

definition IndexSequenceFor :: "'t list \<Rightarrow> nat list" where
  "IndexSequenceFor T = MakeIndexSequence (length T)"

text \<open>How deep the template recurses.\<close>

fun instantiation_depth :: "nat \<Rightarrow> nat" where
  "instantiation_depth n = (if n = 0 then 1 else Suc (instantiation_depth (n div 2)))"

declare instantiation_depth.simps [simp del]

text \<open>
  \<open>ElemFromList\<close> finds a type by overload resolution: the first \<open>N\<close> parameters, as many as
  the sequence has indices, ignore their arguments, the next one is the result.
\<close>

definition ElemFromList :: "nat \<Rightarrow> 't list \<Rightarrow> 't option" where
  "ElemFromList n T = (case drop (length (MakeIndexSequence n)) T of [] \<Rightarrow> None | t # _ \<Rightarrow> Some t)"

subsection \<open>Flat tuples\<close>

text \<open>One base class per index; its value is found by the index.\<close>

record 'v flatTuple =
  Indices :: "nat list"
  elem_base :: "nat \<Rightarrow> 'v option"

definition FlatTuple :: "'v list \<Rightarrow> 'v flatTuple" where
  "FlatTuple args = (let idx = MakeIndexSequence (length args) in
     \<lparr>Indices = idx, elem_base = map_of (zip idx args)\<rparr>)"

definition FlatTuple_Get :: "nat \<Rightarrow> 'v flatTuple \<Rightarrow> 'v option" where
  "FlatTuple_Get i t = elem_base t i"

definition FlatTuple_Apply :: "('v option list \<Rightarrow> 'r) \<Rightarrow> 'v flatTuple \<Rightarrow> 'r" where
  "FlatTuple_Apply f t = f (map (\<lambda>i. FlatTuple_Get i t) (Indices t))"

subsection \<open>Generators from values\<close>

text \<open>\<open>Range\<close>; the address is the one \<open>new\<close> yields.\<close>

definition Range_step :: "('v \<Rightarrow> 'i \<Rightarrow> 'v) \<Rightarrow> ('v \<Rightarrow> 'v \<Rightarrow> bool) \<Rightarrow> nat \<Rightarrow> 'v \<Rightarrow> 'v \<Rightarrow> 'i
    \<Rightarrow> fault + (('v, 'i) rangeIterator, 'v) generator" where
  "Range_step add lt address start end' step =
     bind_sum (RangeGenerator add lt address start end' step) (\<lambda>rg. Inr (range_generator add rg))"

definition Range :: "('v \<Rightarrow> int \<Rightarrow> 'v) \<Rightarrow> ('v \<Rightarrow> 'v \<Rightarrow> bool) \<Rightarrow> nat \<Rightarrow> 'v \<Rightarrow> 'v
    \<Rightarrow> fault + (('v, int) rangeIterator, 'v) generator" where
  "Range add lt address start end' = Range_step add lt address start end' 1"

text \<open>\<open>ValuesIn\<close> for a pair of iterators into a sequence, for an array and for a container.\<close>

definition ValuesIn_iterators :: "nat \<Rightarrow> 'v list \<Rightarrow> nat \<Rightarrow> nat \<Rightarrow> ('v valuesIterator, 'v) generator" where
  "ValuesIn_iterators address xs b e = values_generator (ValuesInGenerator address (take (e - b) (drop b xs)))"

definition ValuesIn_array :: "nat \<Rightarrow> 'v list \<Rightarrow> ('v valuesIterator, 'v) generator" where
  "ValuesIn_array address array = ValuesIn_iterators address array 0 (0 + length array)"

definition ValuesIn :: "nat \<Rightarrow> 'v list \<Rightarrow> ('v valuesIterator, 'v) generator" where
  "ValuesIn address cont = ValuesIn_iterators address cont 0 (length cont)"

text \<open>\<open>ValueArray\<close>, which turns into a generator of the type it is needed for.\<close>

record 'v valueArray =
  v_m :: "'v flatTuple"

definition ValueArray :: "'v list \<Rightarrow> 'v valueArray" where
  "ValueArray v = \<lparr>v_m = FlatTuple v\<rparr>"

definition MakeVector :: "('v \<Rightarrow> 'u) \<Rightarrow> nat list \<Rightarrow> 'v valueArray \<Rightarrow> 'u list" where
  "MakeVector cast I va = map (\<lambda>i. cast (the (FlatTuple_Get i (v_m va)))) I"

definition ValueArray_convert :: "('v \<Rightarrow> 'u) \<Rightarrow> nat \<Rightarrow> 'v valueArray \<Rightarrow> ('u valuesIterator, 'u) generator" where
  "ValueArray_convert cast address va =
     ValuesIn address (MakeVector cast (MakeIndexSequence (length (Indices (v_m va)))) va)"

definition Values :: "'v list \<Rightarrow> 'v valueArray" where
  "Values v = ValueArray v"

definition Bool :: "nat \<Rightarrow> (bool valuesIterator, bool) generator" where
  "Bool address = ValueArray_convert (\<lambda>b. b) address (Values [False, True])"

text \<open>\<open>Combine\<close> holds generators; what is held becomes a generator when it is used.\<close>

record ('it, 'v) cartesianProductHolder =
  holder_generators :: "('it, 'v) generator list"

definition CartesianProductHolder :: "('it, 'v) generator list \<Rightarrow> ('it, 'v) cartesianProductHolder" where
  "CartesianProductHolder g = \<lparr>holder_generators = g\<rparr>"

definition Combine :: "('it, 'v) generator list \<Rightarrow> ('it, 'v) cartesianProductHolder" where
  "Combine g = CartesianProductHolder g"

definition holder_convert :: "nat \<Rightarrow> ('it, 'v) cartesianProductHolder \<Rightarrow> (('it, 'v) productIterator, 'v list) generator" where
  "holder_convert address h = product_generator \<lparr>pg_address = address, generators = holder_generators h\<rparr>"

record ('it, 'v) paramConverterGenerator =
  pcg_generator :: "('it, 'v) generator"

definition ConvertGenerator :: "('it, 'v) generator \<Rightarrow> ('it, 'v) paramConverterGenerator" where
  "ConvertGenerator gen = \<lparr>pcg_generator = gen\<rparr>"

definition pcg_convert :: "('v \<Rightarrow> 'u) \<Rightarrow> nat \<Rightarrow> ('it, 'v) paramConverterGenerator \<Rightarrow> (('it, 'u) convIterator, 'u) generator" where
  "pcg_convert f address p = conv_generator \<lparr>cv_address = address, source = pcg_generator p, convert = f\<rparr>"

subsection \<open>The macros\<close>

text \<open>A member function called through the pointer the registry hands out.\<close>

definition at_suite :: "nat \<Rightarrow> ('v suiteInfo, 'r) cpp \<Rightarrow> ('v suiteInfo list, 'r) cpp" where
  "at_suite i = zoom (\<lambda>infos. infos ! i) (\<lambda>info infos. infos[i := info])"

text \<open>\<open>AddToRegistry\<close> of the class \<open>TEST_P\<close> defines.\<close>

definition TEST_P :: "fixture \<Rightarrow> string \<Rightarrow> string \<Rightarrow> code_location \<Rightarrow> ('v suiteInfo list, int) cpp" where
  "TEST_P cls suite name loc =
     bnd (GetTestSuitePatternHolder suite loc cls) (\<lambda>i.
     seq (at_suite i (AddTestPattern suite name loc)) (ret 0))"

text \<open>The initialiser of the dummy variable; without a second argument the names are the default ones.\<close>

definition INSTANTIATE_TEST_SUITE_P :: "fixture \<Rightarrow> string \<Rightarrow> string \<Rightarrow> 'v list \<Rightarrow> ('v testParamInfo \<Rightarrow> string) option
    \<Rightarrow> code_location \<Rightarrow> ('v suiteInfo list, int) cpp" where
  "INSTANTIATE_TEST_SUITE_P cls prefix suite gen name_generator loc =
     bnd (GetTestSuitePatternHolder suite loc cls) (\<lambda>i.
     at_suite i (AddTestSuiteInstantiation prefix gen
       (case name_generator of None \<Rightarrow> DefaultParamName | Some f \<Rightarrow> f) (loc_file loc) (line_no loc)))"

subsection \<open>Facts\<close>

lemma index_sequence: "MakeIndexSequence n = [0..<n]"
proof (induction n rule: MakeIndexSequence.induct)
  case (1 n)
  show ?case
  proof (cases "n = 0")
    case False
    let ?h = "n div 2"
    have shift: "map (\<lambda>i. ?h + i) [0..<?h] = [?h..<2 * ?h]"
      using map_add_upt [of ?h ?h] by (simp add: add.commute mult_2)
    have seq: "[0..<?h] @ [?h..<2 * ?h] = [0..<2 * ?h]"
      using upt_add_eq_append [of 0 ?h ?h] by (simp add: mult_2)
    have n: "n = (if n mod 2 = 1 then Suc (2 * ?h) else 2 * ?h)" by (cases "n mod 2 = 1") presburger+
    have "MakeIndexSequence n = DoubleSequence (n mod 2 = 1) [0..<?h] ?h"
      using 1 False by (simp add: MakeIndexSequence.simps [of n])
    also have "\<dots> = [0..<n]"
      using seq shift by (subst (4) n) (cases "n mod 2 = 1"; simp add: upt_Suc)
    finally show ?thesis .
  qed (simp add: MakeIndexSequence.simps [of 0])
qed

lemma depth_bound: "n < 2 ^ k \<Longrightarrow> instantiation_depth n \<le> Suc k"
proof (induction k arbitrary: n)
  case (Suc k)
  then show ?case
    using Suc.IH [of "n div 2"] by (cases "n = 0") (simp_all add: instantiation_depth.simps [of n] instantiation_depth.simps [of 0])
qed (simp add: instantiation_depth.simps [of 0])

lemma elem_from_list: "ElemFromList n T = (if n < length T then Some (T ! n) else None)"
  by (auto simp: ElemFromList_def index_sequence hd_drop_conv_nth [symmetric] split: list.split dest: hd_drop_conv_nth)

lemma get_flat: "FlatTuple_Get i (FlatTuple args) = (if i < length args then Some (args ! i) else None)"
proof (cases "i < length args")
  case True
  have "(i, args ! i) \<in> set (zip [0..<length args] args)"
    using True by (auto simp: set_zip intro!: exI [of _ i])
  then show ?thesis
    using True by (simp add: FlatTuple_Get_def FlatTuple_def Let_def index_sequence)
next
  case False
  then show ?thesis by (simp add: FlatTuple_Get_def FlatTuple_def Let_def index_sequence map_of_eq_None_iff image_def set_zip) auto
qed

lemma indices_flat [simp]: "Indices (FlatTuple args) = [0..<length args]"
  by (simp add: FlatTuple_def Let_def index_sequence)

lemma apply_flat: "FlatTuple_Apply f (FlatTuple args) = f (map Some args)"
proof -
  have "map (\<lambda>i. FlatTuple_Get i (FlatTuple args)) [0..<length args] = map Some args"
    by (rule nth_equalityI) (simp_all add: get_flat)
  then show ?thesis by (simp add: FlatTuple_Apply_def)
qed

lemma value_array: "ValueArray_convert cast address (Values vs) = values_generator (ValuesInGenerator address (map cast vs))"
proof -
  have "MakeVector cast [0..<length vs] (ValueArray vs) = map cast vs"
    by (rule nth_equalityI) (simp_all add: MakeVector_def ValueArray_def get_flat)
  then show ?thesis
    by (simp add: ValueArray_convert_def Values_def ValuesIn_def ValuesIn_iterators_def index_sequence) (simp add: ValueArray_def index_sequence)
qed

subsection \<open>What the macros do to the registry\<close>

text \<open>A use of one of the two macros, and what it runs when the program starts.\<close>

datatype 'v macro_use =
    Pattern (used_class: fixture) (used_suite: string) (used_name: string) (used_loc: code_location)
  | Instantiate (used_class: fixture) (used_name: string) (used_suite: string) (used_values: "'v list")
      (used_names: "('v testParamInfo \<Rightarrow> string) option") (used_loc: code_location)

fun run_use :: "'v macro_use \<Rightarrow> ('v suiteInfo list, unit) cpp" where
  "run_use (Pattern cls suite name loc) = seq (TEST_P cls suite name loc) (ret ())"
| "run_use (Instantiate cls prefix suite gen names loc) =
     seq (INSTANTIATE_TEST_SUITE_P cls prefix suite gen names loc) (ret ())"

text \<open>What the uses for one suite should leave behind, whatever lies between them.\<close>

definition the_tests :: "'v macro_use list \<Rightarrow> testInfo list" where
  "the_tests us = List.map_filter (\<lambda>u. case u of
     Pattern cls suite name loc \<Rightarrow> Some \<lparr>test_suite_base_name = suite, test_base_name = name, ti_location = loc\<rparr>
   | Instantiate _ _ _ _ _ _ \<Rightarrow> None) us"

definition the_instantiations :: "'v macro_use list \<Rightarrow> 'v instantiationInfo list" where
  "the_instantiations us = List.map_filter (\<lambda>u. case u of
     Pattern _ _ _ _ \<Rightarrow> None
   | Instantiate cls prefix suite gen names loc \<Rightarrow> Some \<lparr>inst_name = prefix, inst_generator = gen,
       name_func = (case names of None \<Rightarrow> DefaultParamName | Some f \<Rightarrow> f), inst_file = loc_file loc,
       inst_line = line_no loc\<rparr>) us"

definition suite_of :: "'v macro_use list \<Rightarrow> string \<Rightarrow> 'v suiteInfo" where
  "suite_of us n = (let own = filter (\<lambda>u. used_suite u = n) us in
     \<lparr>test_suite_name = n, suite_location = used_loc (hd own), tests = the_tests own,
      instantiations = the_instantiations own, suite_class = used_class (hd own)\<rparr>)"

definition suites_used :: "'v macro_use list \<Rightarrow> string list" where
  "suites_used us = rev (remdups (rev (map used_suite us)))"

text \<open>One class for each name, as the \<open>typeid\<close> check of the registry wants it.\<close>

definition one_class :: "'v macro_use list \<Rightarrow> bool" where
  "one_class us \<longleftrightarrow> (\<forall>u \<in> set us. \<forall>u' \<in> set us. used_suite u = used_suite u' \<longrightarrow> used_class u = used_class u')"

lemma suites_used_snoc:
  "suites_used (us @ [u]) = (if used_suite u \<in> used_suite ` set us then suites_used us else suites_used us @ [used_suite u])"
  by (simp add: suites_used_def)

lemma set_suites_used [simp]: "set (suites_used us) = used_suite ` set us"
  by (simp add: suites_used_def)

lemma distinct_suites_used: "distinct (suites_used us)"
  by (simp add: suites_used_def)

lemma names_suite_of [simp]: "GetTestSuiteName (suite_of us n) = n"
  by (simp add: GetTestSuiteName_def suite_of_def Let_def)

lemma class_suite_of:
  assumes "one_class us" and "u \<in> set us"
  shows "suite_class (suite_of us (used_suite u)) = used_class u"
proof -
  let ?own = "filter (\<lambda>v. used_suite v = used_suite u) us"
  have "?own \<noteq> []" using assms(2) by (auto simp: filter_empty_conv)
  from hd_in_set [OF this] have "hd ?own \<in> set us \<and> used_suite (hd ?own) = used_suite u"
    by (simp only: set_filter mem_Collect_eq)
  then have "used_class (hd ?own) = used_class u" using assms unfolding one_class_def by blast
  then show ?thesis by (simp add: suite_of_def Let_def)
qed

lemma suite_of_snoc_other: "used_suite u \<noteq> n \<Longrightarrow> suite_of (us @ [u]) n = suite_of us n"
  by (simp add: suite_of_def)

text \<open>The position of a suite in the registry the uses leave behind.\<close>

lemma find_suite_at:
  assumes "i < length infos" and "distinct (map GetTestSuiteName infos)"
    and "GetTestSuiteName (infos ! i) = name" and "GetTestSuiteTypeId (infos ! i) = tid"
  shows "find_suite name tid infos k = Inr (Some (k + i))"
  using assms
proof (induction infos arbitrary: i k)
  case (Cons info infos)
  show ?case
  proof (cases i)
    case 0
    then show ?thesis using Cons.prems by simp
  next
    case (Suc j)
    then have "GetTestSuiteName info \<noteq> name" using Cons.prems by (force simp: in_set_conv_nth)
    then show ?thesis using Cons.IH [of j "k + 1"] Cons.prems Suc by simp
  qed
qed simp

lemma holder_known:
  assumes "one_class us" and "u \<in> set us" and "used_suite u = n" and "used_class u = cls"
  shows "\<exists>i. i < length (suites_used us) \<and> suites_used us ! i = n
    \<and> GetTestSuitePatternHolder n loc cls (map (suite_of us) (suites_used us)) = (Inr i, map (suite_of us) (suites_used us))"
proof -
  have "n \<in> set (suites_used us)" using assms(2,3) by auto
  then obtain i where i: "i < length (suites_used us)" "suites_used us ! i = n" unfolding in_set_conv_nth by blast
  have "find_suite n (type_id cls) (map (suite_of us) (suites_used us)) 0 = Inr (Some (0 + i))"
  proof (rule find_suite_at)
    show "distinct (map GetTestSuiteName (map (suite_of us) (suites_used us)))"
      by (simp add: comp_def distinct_suites_used)
    show "GetTestSuiteTypeId (map (suite_of us) (suites_used us) ! i) = type_id cls"
      using class_suite_of [OF assms(1,2)] i assms(3,4) by (simp add: GetTestSuiteTypeId_def)
  qed (use i in simp_all)
  then show ?thesis using i by (auto simp: GetTestSuitePatternHolder_def bnd_app)
qed

lemma holder_new:
  assumes "n \<notin> used_suite ` set us"
  shows "GetTestSuitePatternHolder n loc cls (map (suite_of us) (suites_used us)) =
    (Inr (length (suites_used us)), map (suite_of us) (suites_used us) @ [ParameterizedTestSuiteInfo n loc cls])"
proof -
  have "find_suite n (type_id cls) (map (suite_of us) (suites_used us)) 0 = Inr None"
    unfolding find_suite_none using assms by (auto simp: image_iff)
  then show ?thesis by (simp add: GetTestSuitePatternHolder_def bnd_app seq_def)
qed

text \<open>One more use: the suite it names gets one entry more, whichever entries it has.\<close>

definition add_use :: "'v macro_use \<Rightarrow> 'v suiteInfo \<Rightarrow> 'v suiteInfo" where
  "add_use u info = info\<lparr>tests := tests info @ the_tests [u], instantiations := instantiations info @ the_instantiations [u]\<rparr>"

lemma run_use_holder:
  assumes "GetTestSuitePatternHolder (used_suite u) (used_loc u) (used_class u) infos = (Inr i, infos')"
  shows "run_use u infos = (Inr (), infos'[i := add_use u (infos' ! i)])"
  using assms
  by (cases u) (simp_all add: TEST_P_def INSTANTIATE_TEST_SUITE_P_def at_suite_def zoom_def AddTestPattern_def
      AddTestSuiteInstantiation_def seq_def bnd_app add_use_def the_tests_def the_instantiations_def
      map_filter_simps split: option.split)

lemma suite_of_snoc:
  "used_suite u = n \<Longrightarrow> n \<in> used_suite ` set us \<Longrightarrow> suite_of (us @ [u]) n = add_use u (suite_of us n)"
proof -
  assume n: "used_suite u = n" "n \<in> used_suite ` set us"
  then have "filter (\<lambda>v. used_suite v = n) us \<noteq> []" by (auto simp: filter_empty_conv)
  then show ?thesis
    using n(1) by (simp add: suite_of_def Let_def add_use_def the_tests_def the_instantiations_def map_filter_def)
qed

lemma suite_of_first:
  "n \<notin> used_suite ` set us \<Longrightarrow> used_suite u = n \<Longrightarrow>
    suite_of (us @ [u]) n = add_use u (ParameterizedTestSuiteInfo n (used_loc u) (used_class u))"
proof -
  assume n: "n \<notin> used_suite ` set us" "used_suite u = n"
  then have "filter (\<lambda>v. used_suite v = n) us = []" by (auto simp: filter_empty_conv image_iff)
  then show ?thesis
    using n(2) by (simp add: suite_of_def Let_def add_use_def the_tests_def the_instantiations_def map_filter_def
        ParameterizedTestSuiteInfo_def)
qed

lemma one_class_snoc: "one_class (us @ [u]) \<Longrightarrow> one_class us"
  unfolding one_class_def set_append by blast

lemma one_class_last: "one_class (us @ [u]) \<Longrightarrow> v \<in> set us \<Longrightarrow> used_suite v = used_suite u \<Longrightarrow> used_class v = used_class u"
  unfolding one_class_def set_append by (meson UnI1 UnI2 list.set_intros(1))

lemma run_use_step:
  assumes "one_class (us @ [u])"
  shows "run_use u (map (suite_of us) (suites_used us)) =
    (Inr (), map (suite_of (us @ [u])) (suites_used (us @ [u])))"
proof (cases "used_suite u \<in> used_suite ` set us")
  case True
  then obtain v where v: "v \<in> set us" "used_suite v = used_suite u" by auto
  from holder_known [OF one_class_snoc [OF assms] v one_class_last [OF assms v]] obtain i where i: "i < length (suites_used us)"
      "suites_used us ! i = used_suite u"
      "GetTestSuitePatternHolder (used_suite u) (used_loc u) (used_class u) (map (suite_of us) (suites_used us)) =
        (Inr i, map (suite_of us) (suites_used us))" by blast
  have "(map (suite_of us) (suites_used us))[i := suite_of (us @ [u]) (used_suite u)] = map (suite_of (us @ [u])) (suites_used us)"
  proof (rule nth_equalityI)
    fix j assume "j < length ((map (suite_of us) (suites_used us))[i := suite_of (us @ [u]) (used_suite u)])"
    then have j: "j < length (suites_used us)" by simp
    show "(map (suite_of us) (suites_used us))[i := suite_of (us @ [u]) (used_suite u)] ! j =
        map (suite_of (us @ [u])) (suites_used us) ! j"
    proof (cases "j = i")
      case False
      then have "suites_used us ! j \<noteq> used_suite u"
        using i j distinct_suites_used nth_eq_iff_index_eq by metis
      then show ?thesis using False j suite_of_snoc_other [of u "suites_used us ! j" us] by simp
    qed (use i in simp)
  qed simp
  then show ?thesis
    using run_use_holder [OF i(3)] i(1,2) True by (simp add: suites_used_snoc suite_of_snoc)
next
  case False
  have "map (suite_of us) (suites_used us) = map (suite_of (us @ [u])) (suites_used us)"
    using False by (intro map_cong) (auto intro!: suite_of_snoc_other [symmetric])
  moreover have "run_use u (map (suite_of us) (suites_used us)) =
      (Inr (), map (suite_of us) (suites_used us) @ [suite_of (us @ [u]) (used_suite u)])"
    using run_use_holder [OF holder_new [OF False]]
    by (simp add: suite_of_first [OF False] nth_append list_update_append)
  ultimately show ?thesis using False by (simp add: suites_used_snoc del: map_eq_conv)
qed

lemma uses_run: "one_class us \<Longrightarrow> for_each us run_use [] = (Inr (), map (suite_of us) (suites_used us))"
proof (induction us rule: rev_induct)
  case (snoc u us)
  have "one_class us" using snoc.prems by (rule one_class_snoc)
  then have "for_each us run_use [] = (Inr (), map (suite_of us) (suites_used us))" by (rule snoc.IH)
  then show ?case
    using run_use_step [OF snoc.prems] by (simp add: for_each_append seq_def bnd_app)
qed (simp add: suites_used_def)

text \<open>What the tests of all suites amount to, suite after suite in the order of their first use.\<close>

definition suite_events :: "('v \<Rightarrow> string) \<Rightarrow> 'v suiteInfo \<Rightarrow> nat option \<Rightarrow> nat option \<Rightarrow> 'v reg_event list" where
  "suite_events print info su td =
     (if all_param_tests print info su td = []
      then [Synthetic (GetTestSuiteName info) (suite_location info) (tests info \<noteq> [])]
      else all_param_tests print info su td)"

lemma instantiations_suite_of: "set (instantiations (suite_of us n)) \<subseteq> set (the_instantiations us)"
  by (auto simp: suite_of_def Let_def the_instantiations_def map_filter_def)

lemma registry_run:
  assumes "\<forall>info \<in> set infos. class_ok base (suite_class info) (su (suite_class info)) (td (suite_class info))
      \<and> (\<forall>inst \<in> set (instantiations info). names_ok inst)"
  shows "Registry_RegisterTests print base infos es =
    (Inr (), es @ concat (map (\<lambda>info. suite_events print info (su (suite_class info)) (td (suite_class info))) infos))"
  using assms
proof (induction infos arbitrary: es)
  case (Cons info infos)
  have "class_ok base (suite_class info) (su (suite_class info)) (td (suite_class info))" using Cons.prems by simp
  from RegisterTests_run [OF this, of print es] obtain m es' where
    "RegisterTests print base info es =
      (if tests info = [] \<or> (\<forall>inst \<in> set (instantiations info). names_ok inst)
       then (Inr (), es @ suite_events print info (su (suite_class info)) (td (suite_class info))) else (Inl (Abort m), es'))"
    unfolding suite_events_def GetTestSuiteName_def by blast
  then show ?case using Cons by (simp add: Registry_RegisterTests_def seq_def bnd_app)
qed (simp add: Registry_RegisterTests_def)


text \<open>
  A use of one of the macros for a class other than the one the suite of that name has ends the program
  with the suite's name.
\<close>

theorem class_clash_aborts:
  assumes "one_class us" and "v \<in> set us" and "used_suite v = used_suite u" and "type_id (used_class v) \<noteq> type_id (used_class u)"
  shows "fst (for_each (us @ [u]) run_use []) = Inl (Abort (used_suite u))"
proof -
  obtain i where i: "i < length (suites_used us)" "suites_used us ! i = used_suite u"
    using holder_known [OF assms(1-3) refl] by blast
  let ?infos = "map (suite_of us) (suites_used us)"
  have "used_suite u \<in> GetTestSuiteName ` set ?infos" using i nth_mem [OF i(1)] by (force simp: image_iff)
  then have "find_suite (used_suite u) (type_id (used_class u)) ?infos 0 \<noteq> Inr None"
    unfolding find_suite_none by simp
  moreover have "find_suite (used_suite u) (type_id (used_class u)) ?infos 0 \<noteq> Inr (Some j)" for j
  proof
    assume "find_suite (used_suite u) (type_id (used_class u)) ?infos 0 = Inr (Some j)"
    from find_suite_some [OF this] have "suites_used us ! j = used_suite u" "j < length (suites_used us)"
      "GetTestSuiteTypeId (suite_of us (used_suite u)) = type_id (used_class u)" by auto
    then show False
      using class_suite_of [OF assms(1,2)] assms(3,4) by (simp add: GetTestSuiteTypeId_def)
  qed
  ultimately obtain f where "find_suite (used_suite u) (type_id (used_class u)) ?infos 0 = Inl f"
    by (metis old.sum.exhaust not_None_eq)
  moreover from find_suite_other [OF this] have "f = Abort (used_suite u)" by simp
  ultimately have "GetTestSuitePatternHolder (used_suite u) (used_loc u) (used_class u) ?infos = (Inl (Abort (used_suite u)), ?infos)"
    for loc by (simp add: GetTestSuitePatternHolder_def bnd_app)
  then have "fst (run_use u ?infos) = Inl (Abort (used_suite u))"
    by (cases u) (simp_all add: TEST_P_def INSTANTIATE_TEST_SUITE_P_def seq_def bnd_app)
  then obtain infos' where "run_use u ?infos = (Inl (Abort (used_suite u)), infos')" by (metis prod.collapse)
  then show ?thesis
    using uses_run [OF assms(1)] by (simp add: for_each_append seq_def bnd_app)
qed

subsection \<open>What the functions yield\<close>

text \<open>
  C35. The values given to \<open>Values\<close>, converted to the type of the generator, combined by \<open>Combine\<close> and
  converted by \<open>ConvertGenerator\<close>, come out as the converted tuples, the last position varying
  fastest, each once, and then the generator ends.
\<close>

theorem combine_values:
  assumes "vss \<noteq> []"
  shows "collect (pcg_convert f a (ConvertGenerator (holder_convert b (Combine
      (map (\<lambda>vs. ValueArray_convert cast (addr vs) (Values vs)) vss)))))
    = Some (Inr (map f (product_lists (map (map cast) vss))))"
proof -
  let ?ps = "map (\<lambda>vs. container_component (addr vs, map cast vs)) vss"
  let ?g = "product_generator \<lparr>pg_address = b, generators = map fst ?ps\<rparr>"
  have elems: "element_lists ?ps = map (map cast) vss" by (simp add: comp_def container_component_def Let_def)
  have gens: "holder_convert b (Combine (map (\<lambda>vs. ValueArray_convert cast (addr vs) (Values vs)) vss)) = ?g"
    by (simp add: holder_convert_def Combine_def CartesianProductHolder_def value_array comp_def container_component_def Let_def)
  have parts: "enumerates ?g (product_lists (element_lists ?ps)) (product_at ?ps b)"
    using product_enumerates [of "\<lparr>pg_address = b, generators = map fst ?ps\<rparr>" ?ps] assms container_component_ok
    by fastforce
  have "source \<lparr>cv_address = a, source = ?g, convert = f\<rparr> = ?g" by simp
  from enumerates.collects [OF enumerates.converted [OF parts this]]
  show ?thesis unfolding elems by (simp add: pcg_convert_def ConvertGenerator_def gens)
qed

theorem combine_values_witness:
  "collect (pcg_convert length 3 (ConvertGenerator (holder_convert 2 (Combine
      (map (\<lambda>vs. ValueArray_convert int 1 (Values vs)) [[1, 2], [3 :: nat]]))))) = Some (Inr [2, 2])"
  using combine_values [of "[[1, 2], [3 :: nat]]" length 3 2 int "\<lambda>_. 1"] by simp

subsection \<open>Instances\<close>

text \<open>A suite used from two places, its instantiation before its last test.\<close>

definition number_uses :: "nat macro_use list" where
  "number_uses = [Pattern plain_class ''Numbers'' ''Odd'' (CodeLocation ''n.cc'' 5),
     Instantiate plain_class ''Some'' ''Numbers'' [4, 7] None (CodeLocation ''n.cc'' 9),
     Pattern plain_class ''Numbers'' ''Even'' (CodeLocation ''m.cc'' 2)]"

lemma number_uses_ok: "one_class number_uses" "\<forall>u \<in> set number_uses. used_class u = plain_class"
    "\<forall>inst \<in> set (the_instantiations number_uses). names_ok inst"
proof -
  have "names_ok inst" if "name_func inst = DefaultParamName" for inst :: "nat instantiationInfo"
  proof -
    have "inj_on (param_name inst) (set (enumerate 0 xs))" for xs :: "nat list"
      using that by (auto simp: inj_on_def param_name_def default_name_inj TestParamInfo_def in_set_enumerate_eq)
    then show ?thesis
      using that by (auto simp: names_ok_def distinct_map param_name_def default_name_valid)
  qed
  then show "\<forall>inst \<in> set (the_instantiations number_uses). names_ok inst"
    by (simp add: the_instantiations_def number_uses_def map_filter_simps)
qed (simp_all add: number_uses_def one_class_def)


theorem class_clash_aborts_witness:
  "fst (for_each (number_uses @ [Pattern (plain_class\<lparr>type_id := 2\<rparr>) ''Numbers'' ''Big'' (CodeLocation ''k.cc'' 1)]) run_use [])
     = Inl (Abort ''Numbers'')"
  using class_clash_aborts [OF number_uses_ok(1), of "hd number_uses"
      "Pattern (plain_class\<lparr>type_id := 2\<rparr>) ''Numbers'' ''Big'' (CodeLocation ''k.cc'' 1)"]
  by (simp add: number_uses_def plain_class_def)

end
