(* ===== verification/Gtest_Typed.thy ===== *)
theory Gtest_Typed
  imports Gtest_Registry
begin

section \<open>Typed tests (gtest-typed-test.h)\<close>

text \<open>
  What the macros for typed and type-parameterised tests run when the program starts. A type is known
  by what its name, its fixture class and the test classes made from it are:
  \<open>class_of\<close> gives them for a test. Of the state of a suite only
  \<open>VerifyRegisteredTestNames\<close> is not in the headers: it is a parameter.
\<close>

subsection \<open>Typed tests\<close>

definition TYPED_TEST :: "fixture \<Rightarrow> string \<Rightarrow> string \<Rightarrow> code_location \<Rightarrow> ('ty \<Rightarrow> nat \<Rightarrow> string) \<Rightarrow> ('ty \<Rightarrow> typed_test) \<Rightarrow> 'ty list
    \<Rightarrow> ('v reg_event list, bool) cpp" where
  "TYPED_TEST base case_name name loc name_generator class_of types =
     TypeParameterizedTest_Register base '''' loc case_name name (GenerateNames name_generator types) 0 (map class_of types)"

subsection \<open>Type-parameterised tests\<close>

text \<open>A suite: its state, the text of its test names, and what is registered.\<close>

record 'v typed_program =
  suite_state :: typedTestSuitePState
  registered_test_names :: "string option"
  events :: "'v reg_event list"

definition in_state :: "(typedTestSuitePState, 'a) cpp \<Rightarrow> ('v typed_program, 'a) cpp" where
  "in_state = zoom suite_state (\<lambda>st p. p\<lparr>suite_state := st\<rparr>)"

definition in_events :: "('v reg_event list, 'a) cpp \<Rightarrow> ('v typed_program, 'a) cpp" where
  "in_events = zoom events (\<lambda>es p. p\<lparr>events := es\<rparr>)"

definition TYPED_TEST_SUITE_P :: "('v typed_program, unit) cpp" where
  "TYPED_TEST_SUITE_P = upd (\<lambda>p. p\<lparr>suite_state := TypedTestSuitePState\<rparr>)"

definition TYPED_TEST_P :: "string \<Rightarrow> string \<Rightarrow> code_location \<Rightarrow> ('v typed_program, bool) cpp" where
  "TYPED_TEST_P suite name loc = in_state (AddTestName (loc_file loc) (line_no loc) suite name)"

type_synonym verify = "string \<Rightarrow> string \<Rightarrow> int \<Rightarrow> string \<Rightarrow> (typedTestSuitePState, string option) cpp"

definition REGISTER_TYPED_TEST_SUITE_P :: "verify \<Rightarrow> string \<Rightarrow> code_location \<Rightarrow> string \<Rightarrow> ('v typed_program, unit) cpp" where
  "REGISTER_TYPED_TEST_SUITE_P VerifyRegisteredTestNames suite loc names =
     bnd (in_state (VerifyRegisteredTestNames suite (loc_file loc) (line_no loc) names)) (\<lambda>t.
     upd (\<lambda>p. p\<lparr>registered_test_names := t\<rparr>))"

text \<open>
  \<open>all_tests\<close> is the list of templates that \<open>REGISTER_TYPED_TEST_SUITE_P\<close> names, as the test
  classes that they make.
\<close>

definition INSTANTIATE_TYPED_TEST_SUITE_P :: "fixture \<Rightarrow> string \<Rightarrow> string \<Rightarrow> code_location \<Rightarrow> ('ty \<Rightarrow> typed_test) list
    \<Rightarrow> ('ty \<Rightarrow> nat \<Rightarrow> string) \<Rightarrow> 'ty list \<Rightarrow> ('v typed_program, bool) cpp" where
  "INSTANTIATE_TYPED_TEST_SUITE_P base prefix suite loc all_tests name_generator types =
     bnd (get suite_state) (\<lambda>st.
     bnd (get registered_test_names) (\<lambda>names.
     in_events (TypeParameterizedTestSuite_Register base prefix loc st suite names
       (GenerateNames name_generator types) (map (\<lambda>test. map test types) all_tests))))"

subsection \<open>Facts\<close>

text \<open>A type-parameterised suite as it is written: its tests with their places and templates, then the two macros.\<close>

type_synonym 'ty typed_def = "string \<times> code_location \<times> ('ty \<Rightarrow> typed_test)"

definition define_test :: "string \<Rightarrow> 'ty typed_def \<Rightarrow> ('v typed_program, unit) cpp" where
  "define_test suite d = (case d of (name, place, _) \<Rightarrow> seq (TYPED_TEST_P suite name place) (ret ()))"

definition typed_suite :: "verify \<Rightarrow> fixture \<Rightarrow> string \<Rightarrow> string \<Rightarrow> code_location \<Rightarrow> 'ty typed_def list
    \<Rightarrow> ('ty \<Rightarrow> nat \<Rightarrow> string) \<Rightarrow> 'ty list \<Rightarrow> ('v typed_program, bool) cpp" where
  "typed_suite verify base prefix suite loc defs name_generator types =
     seq TYPED_TEST_SUITE_P
     (seq (for_each defs (define_test suite))
     (seq (REGISTER_TYPED_TEST_SUITE_P verify suite loc (comma_list (map fst defs)))
     (INSTANTIATE_TYPED_TEST_SUITE_P base prefix suite loc (map (\<lambda>d. snd (snd d)) defs) name_generator types)))"

text \<open>The documented behaviour: the text comes back if its names are those that were defined.\<close>

definition verifies :: "verify \<Rightarrow> bool" where
  "verifies verify \<longleftrightarrow> (\<forall>suite file line ns st. distinct ns \<and> set ns = {n. map_find (registered_tests st) n \<noteq> None} \<longrightarrow>
     (\<exists>st'. verify suite file line (comma_list ns) st = (Inr (Some (comma_list ns)), st')
        \<and> registered_tests st' = registered_tests st))"

text \<open>Where the tests are written.\<close>

definition written :: "'ty typed_def list \<Rightarrow> string \<Rightarrow> code_location option" where
  "written defs = map_of (map (\<lambda>(n, place, _). (n, CodeLocation (loc_file place) (line_no place))) defs)"

lemma written_simps [simp]:
  "written [] = Map.empty"
  "written ((n, place, test) # defs) = (written defs)(n \<mapsto> CodeLocation (loc_file place) (line_no place))"
  by (simp_all add: written_def)

lemma dom_written: "dom (written defs) = fst ` set defs"
  by (force simp: written_def dom_map_of_conv_image_fst image_image split: prod.splits)

lemma written_at: "distinct (map fst defs) \<Longrightarrow> (n, place, test) \<in> set defs \<Longrightarrow>
    written defs n = Some (CodeLocation (loc_file place) (line_no place))"
proof (induction defs)
  case (Cons d defs)
  obtain n' place' test' where d: "d = (n', place', test')" by (cases d)
  have "(n, place, test) \<in> set defs \<Longrightarrow> n \<noteq> n'" using Cons.prems(1) by (force simp: d)
  then show ?case using Cons by (auto simp: d)
qed simp

text \<open>The macros for the tests fill the state.\<close>

lemma defs_run:
  assumes "registered_m (suite_state p) = False" and "ordered (registered_tests (suite_state p))" and "distinct (map fst defs)"
    and "\<forall>d \<in> set defs. map_find (registered_tests (suite_state p)) (fst d) = None"
  shows "\<exists>st. for_each defs (define_test suite) p = (Inr (), p\<lparr>suite_state := st\<rparr>)
    \<and> map_find (registered_tests st) = map_find (registered_tests (suite_state p)) ++ written defs"
  using assms
proof (induction defs arbitrary: p)
  case Nil
  then show ?case by (intro exI [of _ "suite_state p"]) simp
next
  case (Cons d defs)
  obtain n place test where d: "d = (n, place, test)" by (cases d)
  let ?l = "CodeLocation (loc_file place) (line_no place)"
  let ?p = "p\<lparr>suite_state := (suite_state p)\<lparr>registered_tests := map_insert n ?l (registered_tests (suite_state p))\<rparr>\<rparr>"
  have "define_test suite d p = (Inr (), ?p)"
    using Cons.prems(1) by (simp add: define_test_def d TYPED_TEST_P_def in_state_def zoom_def AddTestName_def seq_def bnd_app)
  then have one: "for_each (d # defs) (define_test suite) p = for_each defs (define_test suite) ?p" by (simp add: seq_ok)
  have find: "map_find (registered_tests (suite_state ?p)) = (map_find (registered_tests (suite_state p)))(n \<mapsto> ?l)"
    using Cons.prems(2,4) by (simp add: d find_insert fun_eq_iff)
  have "\<exists>st. for_each defs (define_test suite) ?p = (Inr (), ?p\<lparr>suite_state := st\<rparr>)
    \<and> map_find (registered_tests st) = map_find (registered_tests (suite_state ?p)) ++ written defs"
  proof (rule Cons.IH)
    show "\<forall>d \<in> set defs. map_find (registered_tests (suite_state ?p)) (fst d) = None"
      using Cons.prems(3,4) unfolding find by (force simp: d)
  qed (use Cons.prems in \<open>simp_all add: ordered_insert\<close>)
  then obtain st where st: "for_each defs (define_test suite) ?p = (Inr (), ?p\<lparr>suite_state := st\<rparr>)"
    "map_find (registered_tests st) = map_find (registered_tests (suite_state ?p)) ++ written defs" by blast
  have new: "n \<notin> dom (written defs)" using Cons.prems(3) by (simp add: d dom_written)
  have "map_find (registered_tests st) = map_find (registered_tests (suite_state p)) ++ written (d # defs)"
    unfolding st(2) find d written_simps map_add_upd by (rule map_add_upd_left [OF new])
  moreover have "for_each (d # defs) (define_test suite) p = (Inr (), p\<lparr>suite_state := st\<rparr>)" using st(1) unfolding one by simp
  ultimately show ?case by blast
qed


subsection \<open>Instances\<close>

text \<open>Two tests for two types; the check of the names only notes that it was made.\<close>

definition two_tests :: "nat typed_def list" where
  "two_tests = [(''A'', CodeLocation ''t.cc'' 4, \<lambda>ty. (''int'', ty, plain_class)), (''B'', CodeLocation ''t.cc'' 8, \<lambda>ty. (''int'', ty, plain_class))]"

definition noting :: verify where
  "noting = (\<lambda>_ _ _ names st. (Inr (Some names), st\<lparr>registered_m := True\<rparr>))"


end
