(* ===== verification/Gtest_Results.thy ===== *)
theory Gtest_Results
  imports Gtest_Float
begin

section \<open>Results of assertions (gtest-message.h, gtest-assertion-result.h, gtest-test-part.h, gtest.h)\<close>

text \<open>
  Messages, assertion results, the comparison helpers behind \<open>EXPECT_EQ\<close> and the like, and
  the parts of a test result. A text that is streamed is given as printed. What the
  headers only declare is a parameter: \<open>GetString\<close> of a message, and the results that
  \<open>AssertionSuccess\<close>, \<open>AssertionFailure\<close> and \<open>EqFailure\<close> make.
\<close>

subsection \<open>Messages\<close>

type_synonym message = string

definition Message_from :: "string \<Rightarrow> message" where
  "Message_from str = str"

definition Message_copy :: "(message \<Rightarrow> string) \<Rightarrow> message \<Rightarrow> message" where
  "Message_copy GetString msg = GetString msg"

definition put_value :: "string \<Rightarrow> message \<Rightarrow> message" where
  "put_value printed ss = ss @ printed"

definition put_pointer :: "string option \<Rightarrow> message \<Rightarrow> message" where
  "put_pointer pointer ss = (case pointer of None \<Rightarrow> ss @ ''(null)'' | Some printed \<Rightarrow> ss @ printed)"

definition put_bool :: "bool \<Rightarrow> message \<Rightarrow> message" where
  "put_bool b ss = put_pointer (Some (if b then ''true'' else ''false'')) ss"

definition put_message :: "(message \<Rightarrow> string) \<Rightarrow> string \<Rightarrow> message \<Rightarrow> string" where
  "put_message GetString os sb = os @ GetString sb"

definition StreamableToString :: "(message \<Rightarrow> string) \<Rightarrow> string \<Rightarrow> string" where
  "StreamableToString GetString streamable = GetString (put_value streamable [])"

subsection \<open>Assertion results\<close>

record assertionResult =
  success_m :: bool
  message_m :: "string option"

definition AssertionResult :: "bool \<Rightarrow> assertionResult" where
  "AssertionResult success = \<lparr>success_m = success, message_m = None\<rparr>"

definition AssertionResult_bool :: "assertionResult \<Rightarrow> bool" where
  "AssertionResult_bool r = success_m r"

definition AssertionResult_message :: "assertionResult \<Rightarrow> string" where
  "AssertionResult_message r = (case message_m r of None \<Rightarrow> [] | Some m \<Rightarrow> takeWhile (\<lambda>c. c \<noteq> CHR 0x00) m)"

definition failure_message :: "assertionResult \<Rightarrow> string" where
  "failure_message r = AssertionResult_message r"

definition AppendMessage :: "(message \<Rightarrow> string) \<Rightarrow> message \<Rightarrow> assertionResult \<Rightarrow> assertionResult" where
  "AppendMessage GetString a_message r =
     (let m = (case message_m r of None \<Rightarrow> [] | Some m \<Rightarrow> m)
      in r\<lparr>message_m := Some (m @ takeWhile (\<lambda>c. c \<noteq> CHR 0x00) (GetString a_message))\<rparr>)"

definition result_put :: "(message \<Rightarrow> string) \<Rightarrow> string \<Rightarrow> assertionResult \<Rightarrow> assertionResult" where
  "result_put GetString printed r = AppendMessage GetString (put_value printed []) r"

subsection \<open>Comparison helpers\<close>

text \<open>The functions of the library the helpers call.\<close>

record library =
  GetString :: "message \<Rightarrow> string"
  AssertionSuccess :: assertionResult
  AssertionFailure :: assertionResult
  EqFailure :: "string \<Rightarrow> string \<Rightarrow> string \<Rightarrow> string \<Rightarrow> bool \<Rightarrow> assertionResult"

definition CmpHelperEQFailure :: "library \<Rightarrow> ('a \<Rightarrow> string) \<Rightarrow> ('b \<Rightarrow> string) \<Rightarrow> string \<Rightarrow> string \<Rightarrow> 'a \<Rightarrow> 'b \<Rightarrow> assertionResult" where
  "CmpHelperEQFailure lib format1 format2 lhs_expression rhs_expression lhs rhs =
     EqFailure lib lhs_expression rhs_expression (format1 lhs) (format2 rhs) False"

definition CmpHelperEQ :: "library \<Rightarrow> ('a \<Rightarrow> string) \<Rightarrow> ('b \<Rightarrow> string) \<Rightarrow> ('a \<Rightarrow> 'b \<Rightarrow> bool)
    \<Rightarrow> string \<Rightarrow> string \<Rightarrow> 'a \<Rightarrow> 'b \<Rightarrow> assertionResult" where
  "CmpHelperEQ lib format1 format2 eq lhs_expression rhs_expression lhs rhs =
     (if eq lhs rhs then AssertionSuccess lib
      else CmpHelperEQFailure lib format1 format2 lhs_expression rhs_expression lhs rhs)"

definition EqHelper_Compare :: "library \<Rightarrow> ('a \<Rightarrow> string) \<Rightarrow> ('b \<Rightarrow> string) \<Rightarrow> ('a \<Rightarrow> 'b \<Rightarrow> bool)
    \<Rightarrow> string \<Rightarrow> string \<Rightarrow> 'a \<Rightarrow> 'b \<Rightarrow> assertionResult" where
  "EqHelper_Compare lib format1 format2 eq lhs_expression rhs_expression lhs rhs =
     CmpHelperEQ lib format1 format2 eq lhs_expression rhs_expression lhs rhs"

definition CmpHelperOpFailure :: "library \<Rightarrow> ('a \<Rightarrow> string) \<Rightarrow> ('b \<Rightarrow> string) \<Rightarrow> string \<Rightarrow> string \<Rightarrow> 'a \<Rightarrow> 'b \<Rightarrow> string
    \<Rightarrow> assertionResult" where
  "CmpHelperOpFailure lib format1 format2 expr1 expr2 val1 val2 op =
     fold (result_put (GetString lib))
       [''Expected: ('', expr1, '') '', op, '' ('', expr2, ''), actual: '', format1 val1, '' vs '', format2 val2]
       (AssertionFailure lib)"

text \<open>The helpers for \<open>!=\<close>, \<open><=\<close>, \<open><\<close>, \<open>>=\<close> and \<open>>\<close> that the macro makes.\<close>

definition CmpHelper_op :: "library \<Rightarrow> ('a \<Rightarrow> string) \<Rightarrow> ('b \<Rightarrow> string) \<Rightarrow> ('a \<Rightarrow> 'b \<Rightarrow> bool) \<Rightarrow> string
    \<Rightarrow> string \<Rightarrow> string \<Rightarrow> 'a \<Rightarrow> 'b \<Rightarrow> assertionResult" where
  "CmpHelper_op lib format1 format2 holds op expr1 expr2 val1 val2 =
     (if holds val1 val2 then AssertionSuccess lib
      else CmpHelperOpFailure lib format1 format2 expr1 expr2 val1 val2 op)"

text \<open>\<open>show17\<close> prints a number with two digits more than its type guarantees.\<close>

definition CmpHelperFloatingPointEQ :: "library \<Rightarrow> ('w::len word \<Rightarrow> string) \<Rightarrow> string \<Rightarrow> string \<Rightarrow> 'w word \<Rightarrow> 'w word
    \<Rightarrow> assertionResult" where
  "CmpHelperFloatingPointEQ lib show17 lhs_expression rhs_expression lhs_value rhs_value =
     (let lhs = FloatingPoint lhs_value; rhs = FloatingPoint rhs_value in
      if AlmostEquals lhs rhs then AssertionSuccess lib
      else EqFailure lib lhs_expression rhs_expression (show17 lhs_value) (show17 rhs_value) False)"

subsection \<open>Parts of a test result\<close>

datatype part_type = kSuccess | kNonFatalFailure | kFatalFailure | kSkip

record testPartResult =
  type_m :: part_type
  file_name_m :: string
  line_number_m :: int
  summary_m :: string
  part_message_m :: string

definition TestPartResult :: "(string \<Rightarrow> string) \<Rightarrow> part_type \<Rightarrow> string option \<Rightarrow> int \<Rightarrow> string \<Rightarrow> testPartResult" where
  "TestPartResult ExtractSummary a_type a_file_name a_line_number a_message =
     \<lparr>type_m = a_type, file_name_m = (case a_file_name of None \<Rightarrow> [] | Some f \<Rightarrow> f), line_number_m = a_line_number,
      summary_m = ExtractSummary a_message, part_message_m = a_message\<rparr>"

definition file_name :: "testPartResult \<Rightarrow> string option" where
  "file_name r = (if file_name_m r = [] then None else Some (file_name_m r))"

definition skipped :: "testPartResult \<Rightarrow> bool" where
  "skipped r \<longleftrightarrow> type_m r = kSkip"

definition passed :: "testPartResult \<Rightarrow> bool" where
  "passed r \<longleftrightarrow> type_m r = kSuccess"

definition nonfatally_failed :: "testPartResult \<Rightarrow> bool" where
  "nonfatally_failed r \<longleftrightarrow> type_m r = kNonFatalFailure"

definition fatally_failed :: "testPartResult \<Rightarrow> bool" where
  "fatally_failed r \<longleftrightarrow> type_m r = kFatalFailure"

definition failed :: "testPartResult \<Rightarrow> bool" where
  "failed r \<longleftrightarrow> fatally_failed r \<or> nonfatally_failed r"

subsection \<open>Streaming\<close>

text \<open>What is streamed into a result is appended in order and leaves the verdict alone.\<close>

lemma streamed_message:
  assumes "\<And>m. m \<in> set texts \<Longrightarrow> g m = m" and "\<forall>m \<in> set texts. CHR 0x00 \<notin> set m"
    and "AssertionResult_message r = (case message_m r of None \<Rightarrow> [] | Some m \<Rightarrow> m)"
  shows "AssertionResult_message (fold (result_put g) texts r) = AssertionResult_message r @ concat texts
    \<and> AssertionResult_bool (fold (result_put g) texts r) = AssertionResult_bool r"
  using assms
proof (induction texts arbitrary: r)
  case (Cons t texts)
  have nul: "takeWhile (\<lambda>c. c \<noteq> CHR 0x00) t = t" using Cons.prems(2) by (auto simp: takeWhile_eq_all_conv)
  let ?old = "case message_m r of None \<Rightarrow> [] | Some m \<Rightarrow> m"
  have "takeWhile (\<lambda>c. c \<noteq> CHR 0x00) ?old = ?old"
    using Cons.prems(3) by (auto simp: AssertionResult_message_def split: option.splits)
  then have old: "CHR 0x00 \<notin> set ?old" by (metis (mono_tags, lifting) set_takeWhileD)
  have put: "result_put g t r = r\<lparr>message_m := Some (?old @ t)\<rparr>"
    using Cons.prems(1) nul by (simp add: result_put_def AppendMessage_def put_value_def Let_def)
  have "takeWhile (\<lambda>c. c \<noteq> CHR 0x00) (?old @ t) = ?old @ t"
    using old Cons.prems(2) by (auto simp: takeWhile_eq_all_conv)
  then have "AssertionResult_message (result_put g t r) = ?old @ t" "message_m (result_put g t r) = Some (?old @ t)"
    by (simp_all add: put AssertionResult_message_def)
  moreover from this have "AssertionResult_message (fold (result_put g) texts (result_put g t r)) =
      AssertionResult_message (result_put g t r) @ concat texts
      \<and> AssertionResult_bool (fold (result_put g) texts (result_put g t r)) = AssertionResult_bool (result_put g t r)"
    using Cons.prems by (intro Cons.IH) auto
  ultimately show ?case using Cons.prems(3) by (simp add: put AssertionResult_bool_def)
qed simp

text \<open>A failed comparison says which expressions were compared and what they were.\<close>

lemma failed_comparison_text:
  assumes "\<not> holds x y" and "\<And>m. GetString lib m = m" and "AssertionFailure lib = AssertionResult False"
    and "\<forall>t \<in> {expr1, expr2, op, format1 x, format2 y}. CHR 0x00 \<notin> set t"
  shows "AssertionResult_message (CmpHelper_op lib format1 format2 holds op expr1 expr2 x y) =
      ''Expected: ('' @ expr1 @ '') '' @ op @ '' ('' @ expr2 @ ''), actual: '' @ format1 x @ '' vs '' @ format2 y
    \<and> \<not> AssertionResult_bool (CmpHelper_op lib format1 format2 holds op expr1 expr2 x y)"
  using streamed_message [of "[''Expected: ('', expr1, '') '', op, '' ('', expr2, ''), actual: '', format1 x, '' vs '', format2 y]"
      "GetString lib" "AssertionResult False"] assms
  by (simp add: CmpHelper_op_def CmpHelperOpFailure_def AssertionResult_def AssertionResult_message_def AssertionResult_bool_def)

end
