(* ===== verification/Gtest_Types.thy ===== *)
theory Gtest_Types
  imports Simplefunc
begin

section \<open>Names of types (gtest-type-util.h)\<close>

text \<open>
  \<open>GetTypeName\<close> with the demangling function of the compiler's library as a parameter: it
  yields the readable name or nothing.
\<close>

subsection \<open>CanonicalizeForStdLibVersioning\<close>

text \<open>\<open>s.find(p, pos)\<close>, as a position in \<open>s\<close>.\<close>

definition find_at :: "string \<Rightarrow> string \<Rightarrow> nat \<Rightarrow> nat option" where
  "find_at p s pos = (if pos \<le> length s then map_option ((+) pos) (str_find p (drop pos s)) else None)"

lemma find_at_bound: "find_at p s pos = Some i \<Longrightarrow> pos \<le> i \<and> i + length p \<le> length s"
  by (auto simp: find_at_def dest: str_find_bound split: if_splits)

text \<open>The loop: what lies before \<open>pos\<close> is done; each round shortens the text by one space.\<close>

function strip_spaces_from :: "string \<Rightarrow> nat \<Rightarrow> string" where
  "strip_spaces_from s pos = (case find_at '', '' s pos of
     None \<Rightarrow> s
   | Some p \<Rightarrow> strip_spaces_from (take p s @ '','' @ drop (p + 2) s) (p + 1))"
  by auto
termination by (relation "measure (\<lambda>(s, pos). length s)") (auto dest!: find_at_bound)

declare strip_spaces_from.simps [simp del]

definition CanonicalizeForStdLibVersioning :: "string \<Rightarrow> string" where
  "CanonicalizeForStdLibVersioning s =
     (let s' = (if take 7 s = ''std::__'' then
                  (case find_at ''::'' s 7 of Some end_ \<Rightarrow> take 3 s @ drop end_ s | None \<Rightarrow> s)
                else s)
      in strip_spaces_from s' 0)"

definition GetTypeName :: "(string \<Rightarrow> string option) \<Rightarrow> string \<Rightarrow> string" where
  "GetTypeName demangle name =
     CanonicalizeForStdLibVersioning (case demangle name of Some readable_name \<Rightarrow> readable_name | None \<Rightarrow> name)"

subsection \<open>What the loop does\<close>

text \<open>Every comma loses the space right behind it, once.\<close>

fun tighten :: "string \<Rightarrow> string" where
  "tighten (c # d # s) = (if c = CHR '','' \<and> d = CHR '' '' then CHR '','' # tighten s else c # tighten (d # s))"
| "tighten s = s"

lemma tighten_find:
  "tighten s = (case str_find '', '' s of None \<Rightarrow> s | Some i \<Rightarrow> take i s @ '','' @ tighten (drop (i + 2) s))"
proof (induction s rule: tighten.induct)
  case (1 c d s)
  then show ?case by (cases "c = CHR '','' \<and> d = CHR '' ''") (auto split: option.splits)
qed simp_all

lemma strip_spaces_tighten: "pos \<le> length s \<Longrightarrow> strip_spaces_from s pos = take pos s @ tighten (drop pos s)"
proof (induction s pos rule: strip_spaces_from.induct)
  case (1 s pos)
  show ?case
  proof (cases "str_find '', '' (drop pos s)")
    case None
    then show ?thesis using 1 by (subst strip_spaces_from.simps) (simp add: find_at_def tighten_find [of "drop pos s"])
  next
    case (Some i)
    let ?p = "pos + i" and ?s = "take (pos + i) s @ '','' @ drop (pos + i + 2) s"
    have bound: "?p + 2 \<le> length s" using str_find_bound [OF Some] 1(2) by auto
    have at: "find_at '', '' s pos = Some ?p" using Some 1(2) by (simp add: find_at_def)
    have "strip_spaces_from s pos = strip_spaces_from ?s (?p + 1)"
      by (subst strip_spaces_from.simps) (simp add: at)
    also have "\<dots> = take (?p + 1) ?s @ tighten (drop (?p + 1) ?s)"
      using at bound by (intro 1(1)) simp_all
    also have "\<dots> = take ?p s @ '','' @ tighten (drop (?p + 2) s)" using bound by simp
    also have "\<dots> = take pos s @ tighten (drop pos s)"
      by (simp add: tighten_find [of "drop pos s"] Some take_add add.commute [of _ pos])
    finally show ?thesis .
  qed
qed

lemma strip_all_spaces [simp]: "strip_spaces_from s 0 = tighten s"
  by (simp add: strip_spaces_tighten)

lemma tighten_length: "length (tighten s) \<le> length s"
  by (induction s rule: tighten.induct) auto

lemma tighten_same: "tighten s = s \<longleftrightarrow> str_find '', '' s = None"
proof (cases "str_find '', '' s")
  case (Some i)
  have "length (tighten s) \<le> i + 1 + (length s - (i + 2))" "i + 2 \<le> length s"
    using tighten_length [of "drop (i + 2) s"] str_find_bound [OF Some] by (auto simp: tighten_find [of s] Some)
  then have "length (tighten s) \<noteq> length s" by linarith
  then show ?thesis using Some by auto
qed (simp add: tighten_find)

lemma str_find_separator:
  "CHR '':'' \<notin> set ns \<Longrightarrow> str_find ''::'' (ns @ ''::'' @ rest) = Some (length ns)"
  by (induction ns) auto

text \<open>
  Type names of the standard library come out the same whatever inline namespace the library
  uses: the name of the namespace and the spaces behind commas are dropped, and nothing else.
\<close>

theorem versions_agree:
  assumes "CHR '':'' \<notin> set ns"
  shows "CanonicalizeForStdLibVersioning (''std::__'' @ ns @ ''::'' @ rest) = ''std::'' @ tighten rest
    \<and> (take 2 rest \<noteq> ''__'' \<longrightarrow> CanonicalizeForStdLibVersioning (''std::'' @ rest) = ''std::'' @ tighten rest)"
proof (intro conjI impI)
  have plain: "tighten (''std::'' @ rest) = ''std::'' @ tighten rest" by (cases rest) simp_all
  have "find_at ''::'' (''std::__'' @ ns @ ''::'' @ rest) 7 = Some (7 + length ns)"
    using str_find_separator [OF assms, of rest] by (simp add: find_at_def)
  moreover have "drop (7 + length ns) (''std::__'' @ ns @ ''::'' @ rest) = ''::'' @ rest"
    using drop_append [of "7 + length ns" "''std::__'' @ ns" "''::'' @ rest"] by simp
  ultimately show "CanonicalizeForStdLibVersioning (''std::__'' @ ns @ ''::'' @ rest) = ''std::'' @ tighten rest"
    using plain unfolding CanonicalizeForStdLibVersioning_def Let_def strip_all_spaces by simp
  assume "take 2 rest \<noteq> ''__''"
  then show "CanonicalizeForStdLibVersioning (''std::'' @ rest) = ''std::'' @ tighten rest"
    using plain by (simp add: CanonicalizeForStdLibVersioning_def Let_def)
qed

text \<open>
  The comment over the function says that names outside of \<open>std\<close> come back unmodified; such a name comes
  back unmodified exactly if it has no comma with a space behind it.
\<close>

theorem outside_std_modified:
  assumes "take 7 s \<noteq> ''std::__''"
  shows "CanonicalizeForStdLibVersioning s = s \<longleftrightarrow> str_find '', '' s = None"
  using assms by (simp add: CanonicalizeForStdLibVersioning_def tighten_same)

theorem outside_std_modified_witness:
  "CanonicalizeForStdLibVersioning ''my::pair<int, bool>'' \<noteq> ''my::pair<int, bool>''"
  using outside_std_modified [of "''my::pair<int, bool>''"] by simp

theorem versions_agree_witness:
  "CanonicalizeForStdLibVersioning ''std::__1::pair<int, bool>'' = ''std::pair<int,bool>''"
  using versions_agree [of "''1''" "''pair<int, bool>''"] by simp

end
