(* ===== verification/Gtest_Assertions.thy ===== *)
theory Gtest_Assertions
  imports Gtest_Results Gtest_Registry Gtest_Types
begin

section \<open>The assertion macros (gtest_pred_impl.h, gtest-internal.h, gtest.h)\<close>

text \<open>
  A statement of test code ends by running through, by returning from the function it
  stands in, or by throwing. The macros are functions from the statements and expressions
  they are given to a statement; an expression yields a value or throws. What the library
  does with a reported message is not in the headers: each report is recorded, with
  the data of its \<open>AssertHelper\<close> and the message streamed into the assertion.
\<close>

subsection \<open>Statements\<close>

record thrown =
  thrown_type :: string
  derives_std :: bool
  what_text :: string

datatype flow = Done | Returned | Threw thrown

record report =
  helper_type :: part_type
  helper_file :: string
  helper_line :: int
  helper_message :: string
  streamed :: message

record 'u run =
  reports :: "report list"
  user :: 'u

type_synonym 'u statement = "'u run \<Rightarrow> flow \<times> 'u run"
type_synonym ('u, 'a) expr = "'u run \<Rightarrow> (thrown + 'a) \<times> 'u run"

definition skip :: "'u statement" where
  "skip = (\<lambda>s. (Done, s))"

definition followed_by :: "'u statement \<Rightarrow> 'u statement \<Rightarrow> 'u statement" where
  "followed_by a b = (\<lambda>s. case a s of (Done, s') \<Rightarrow> b s' | r \<Rightarrow> r)"

definition block :: "'u statement list \<Rightarrow> 'u statement" where
  "block sts = foldr followed_by sts skip"

text \<open>A statement that calls a function: the function's return is not the caller's.\<close>

definition call :: "'u statement \<Rightarrow> 'u statement" where
  "call body = (\<lambda>s. case body s of (Returned, s') \<Rightarrow> (Done, s') | r \<Rightarrow> r)"

definition pure :: "'a \<Rightarrow> ('u, 'a) expr" where
  "pure v = (\<lambda>s. (Inr v, s))"

definition apply_to :: "('a \<Rightarrow> 'b) \<Rightarrow> ('u, 'a) expr \<Rightarrow> ('u, 'b) expr" where
  "apply_to f e = (\<lambda>s. case e s of (r, s') \<Rightarrow> (map_sum id f r, s'))"

subsection \<open>Reports\<close>

definition GTEST_MESSAGE_AT :: "string \<Rightarrow> int \<Rightarrow> string \<Rightarrow> part_type \<Rightarrow> message \<Rightarrow> 'u statement" where
  "GTEST_MESSAGE_AT file line m result_type msg = (\<lambda>s. (Done, s\<lparr>reports := reports s @
     [\<lparr>helper_type = result_type, helper_file = file, helper_line = line, helper_message = m, streamed = msg\<rparr>]\<rparr>))"

text \<open>Where an assertion stands, and what is streamed into it.\<close>

type_synonym place = "code_location \<times> message"

definition GTEST_MESSAGE :: "place \<Rightarrow> string \<Rightarrow> part_type \<Rightarrow> 'u statement" where
  "GTEST_MESSAGE site m result_type = GTEST_MESSAGE_AT (loc_file (fst site)) (line_no (fst site)) m result_type (snd site)"

definition return_after :: "'u statement \<Rightarrow> 'u statement" where
  "return_after st = followed_by st (\<lambda>s. (Returned, s))"

definition GTEST_FATAL_FAILURE :: "place \<Rightarrow> string \<Rightarrow> 'u statement" where
  "GTEST_FATAL_FAILURE site m = return_after (GTEST_MESSAGE site m kFatalFailure)"

definition GTEST_NONFATAL_FAILURE :: "place \<Rightarrow> string \<Rightarrow> 'u statement" where
  "GTEST_NONFATAL_FAILURE site m = GTEST_MESSAGE site m kNonFatalFailure"

definition GTEST_SUCCESS :: "place \<Rightarrow> string \<Rightarrow> 'u statement" where
  "GTEST_SUCCESS site m = GTEST_MESSAGE site m kSuccess"

definition GTEST_SKIP_text :: "place \<Rightarrow> string \<Rightarrow> 'u statement" where
  "GTEST_SKIP_text site m = return_after (GTEST_MESSAGE site m kSkip)"

definition GTEST_SKIP :: "place \<Rightarrow> 'u statement" where
  "GTEST_SKIP site = GTEST_SKIP_text site []"

definition ADD_FAILURE :: "place \<Rightarrow> 'u statement" where
  "ADD_FAILURE site = GTEST_NONFATAL_FAILURE site ''Failed''"

definition ADD_FAILURE_AT :: "string \<Rightarrow> int \<Rightarrow> message \<Rightarrow> 'u statement" where
  "ADD_FAILURE_AT file line msg = GTEST_MESSAGE_AT file line ''Failed'' kNonFatalFailure msg"

definition GTEST_FAIL :: "place \<Rightarrow> 'u statement" where
  "GTEST_FAIL site = GTEST_FATAL_FAILURE site ''Failed''"

definition GTEST_FAIL_AT :: "string \<Rightarrow> int \<Rightarrow> message \<Rightarrow> 'u statement" where
  "GTEST_FAIL_AT file line msg = return_after (GTEST_MESSAGE_AT file line ''Failed'' kFatalFailure msg)"

definition GTEST_SUCCEED :: "place \<Rightarrow> 'u statement" where
  "GTEST_SUCCEED site = GTEST_SUCCESS site ''Succeeded''"

subsection \<open>Predicates\<close>

text \<open>A result that is false runs \<open>on_failure\<close> with its message.\<close>

definition GTEST_ASSERT :: "('u, assertionResult) expr \<Rightarrow> (string \<Rightarrow> 'u statement) \<Rightarrow> 'u statement" where
  "GTEST_ASSERT expression on_failure = (\<lambda>s. case expression s of
     (Inl e, s') \<Rightarrow> (Threw e, s')
   | (Inr gtest_ar, s') \<Rightarrow> if AssertionResult_bool gtest_ar then (Done, s') else on_failure (failure_message gtest_ar) s')"

text \<open>
  The five helpers; a value is given with its printed form, and the arguments of an
  assertion are one expression, so that they may be evaluated in any order.
\<close>

type_synonym 'a printed = "'a \<times> string"

definition AssertPred1Helper :: "library \<Rightarrow> string \<Rightarrow> string \<Rightarrow> ('a \<Rightarrow> bool) \<Rightarrow> 'a printed \<Rightarrow> assertionResult" where
  "AssertPred1Helper lib pred_text e1 pred v1 =
     (if pred (fst v1) then AssertionSuccess lib
      else fold (result_put (GetString lib))
        [pred_text, ''('', e1, '') evaluates to false, where'', [CHR 0x0A], e1, '' evaluates to '', snd v1]
        (AssertionFailure lib))"

definition AssertPred2Helper :: "library \<Rightarrow> string \<Rightarrow> string \<Rightarrow> string \<Rightarrow> ('a \<Rightarrow> 'b \<Rightarrow> bool) \<Rightarrow> 'a printed \<Rightarrow> 'b printed
    \<Rightarrow> assertionResult" where
  "AssertPred2Helper lib pred_text e1 e2 pred v1 v2 =
     (if pred (fst v1) (fst v2) then AssertionSuccess lib
      else fold (result_put (GetString lib))
        [pred_text, ''('', e1, '', '', e2, '') evaluates to false, where'', [CHR 0x0A],
         e1, '' evaluates to '', snd v1, [CHR 0x0A], e2, '' evaluates to '', snd v2]
        (AssertionFailure lib))"

definition AssertPred3Helper :: "library \<Rightarrow> string \<Rightarrow> string \<Rightarrow> string \<Rightarrow> string \<Rightarrow> ('a \<Rightarrow> 'b \<Rightarrow> 'c \<Rightarrow> bool)
    \<Rightarrow> 'a printed \<Rightarrow> 'b printed \<Rightarrow> 'c printed \<Rightarrow> assertionResult" where
  "AssertPred3Helper lib pred_text e1 e2 e3 pred v1 v2 v3 =
     (if pred (fst v1) (fst v2) (fst v3) then AssertionSuccess lib
      else fold (result_put (GetString lib))
        [pred_text, ''('', e1, '', '', e2, '', '', e3, '') evaluates to false, where'', [CHR 0x0A],
         e1, '' evaluates to '', snd v1, [CHR 0x0A], e2, '' evaluates to '', snd v2, [CHR 0x0A],
         e3, '' evaluates to '', snd v3]
        (AssertionFailure lib))"

definition AssertPred4Helper :: "library \<Rightarrow> string \<Rightarrow> string \<Rightarrow> string \<Rightarrow> string \<Rightarrow> string \<Rightarrow> ('a \<Rightarrow> 'b \<Rightarrow> 'c \<Rightarrow> 'd \<Rightarrow> bool)
    \<Rightarrow> 'a printed \<Rightarrow> 'b printed \<Rightarrow> 'c printed \<Rightarrow> 'd printed \<Rightarrow> assertionResult" where
  "AssertPred4Helper lib pred_text e1 e2 e3 e4 pred v1 v2 v3 v4 =
     (if pred (fst v1) (fst v2) (fst v3) (fst v4) then AssertionSuccess lib
      else fold (result_put (GetString lib))
        [pred_text, ''('', e1, '', '', e2, '', '', e3, '', '', e4, '') evaluates to false, where'', [CHR 0x0A],
         e1, '' evaluates to '', snd v1, [CHR 0x0A], e2, '' evaluates to '', snd v2, [CHR 0x0A],
         e3, '' evaluates to '', snd v3, [CHR 0x0A], e4, '' evaluates to '', snd v4]
        (AssertionFailure lib))"

definition AssertPred5Helper :: "library \<Rightarrow> string \<Rightarrow> string \<Rightarrow> string \<Rightarrow> string \<Rightarrow> string \<Rightarrow> string
    \<Rightarrow> ('a \<Rightarrow> 'b \<Rightarrow> 'c \<Rightarrow> 'd \<Rightarrow> 'e \<Rightarrow> bool) \<Rightarrow> 'a printed \<Rightarrow> 'b printed \<Rightarrow> 'c printed \<Rightarrow> 'd printed \<Rightarrow> 'e printed
    \<Rightarrow> assertionResult" where
  "AssertPred5Helper lib pred_text e1 e2 e3 e4 e5 pred v1 v2 v3 v4 v5 =
     (if pred (fst v1) (fst v2) (fst v3) (fst v4) (fst v5) then AssertionSuccess lib
      else fold (result_put (GetString lib))
        [pred_text, ''('', e1, '', '', e2, '', '', e3, '', '', e4, '', '', e5, '') evaluates to false, where'', [CHR 0x0A],
         e1, '' evaluates to '', snd v1, [CHR 0x0A], e2, '' evaluates to '', snd v2, [CHR 0x0A],
         e3, '' evaluates to '', snd v3, [CHR 0x0A], e4, '' evaluates to '', snd v4, [CHR 0x0A],
         e5, '' evaluates to '', snd v5]
        (AssertionFailure lib))"

definition GTEST_PRED_FORMAT1 :: "(string \<Rightarrow> 'a \<Rightarrow> assertionResult) \<Rightarrow> string \<Rightarrow> ('u, 'a) expr
    \<Rightarrow> (string \<Rightarrow> 'u statement) \<Rightarrow> 'u statement" where
  "GTEST_PRED_FORMAT1 pred_format t1 v1 on_failure = GTEST_ASSERT (apply_to (pred_format t1) v1) on_failure"

definition GTEST_PRED_FORMAT2 :: "(string \<Rightarrow> string \<Rightarrow> 'a \<Rightarrow> 'b \<Rightarrow> assertionResult) \<Rightarrow> string \<Rightarrow> string
    \<Rightarrow> ('u, 'a \<times> 'b) expr \<Rightarrow> (string \<Rightarrow> 'u statement) \<Rightarrow> 'u statement" where
  "GTEST_PRED_FORMAT2 pred_format t1 t2 vs on_failure =
     GTEST_ASSERT (apply_to (\<lambda>(v1, v2). pred_format t1 t2 v1 v2) vs) on_failure"

definition GTEST_PRED_FORMAT3 :: "(string \<Rightarrow> string \<Rightarrow> string \<Rightarrow> 'a \<Rightarrow> 'b \<Rightarrow> 'c \<Rightarrow> assertionResult) \<Rightarrow> string \<Rightarrow> string \<Rightarrow> string
    \<Rightarrow> ('u, 'a \<times> 'b \<times> 'c) expr \<Rightarrow> (string \<Rightarrow> 'u statement) \<Rightarrow> 'u statement" where
  "GTEST_PRED_FORMAT3 pred_format t1 t2 t3 vs on_failure =
     GTEST_ASSERT (apply_to (\<lambda>(v1, v2, v3). pred_format t1 t2 t3 v1 v2 v3) vs) on_failure"

definition GTEST_PRED_FORMAT4 :: "(string \<Rightarrow> string \<Rightarrow> string \<Rightarrow> string \<Rightarrow> 'a \<Rightarrow> 'b \<Rightarrow> 'c \<Rightarrow> 'd \<Rightarrow> assertionResult)
    \<Rightarrow> string \<Rightarrow> string \<Rightarrow> string \<Rightarrow> string \<Rightarrow> ('u, 'a \<times> 'b \<times> 'c \<times> 'd) expr \<Rightarrow> (string \<Rightarrow> 'u statement) \<Rightarrow> 'u statement" where
  "GTEST_PRED_FORMAT4 pred_format t1 t2 t3 t4 vs on_failure =
     GTEST_ASSERT (apply_to (\<lambda>(v1, v2, v3, v4). pred_format t1 t2 t3 t4 v1 v2 v3 v4) vs) on_failure"

definition GTEST_PRED_FORMAT5 :: "(string \<Rightarrow> string \<Rightarrow> string \<Rightarrow> string \<Rightarrow> string \<Rightarrow> 'a \<Rightarrow> 'b \<Rightarrow> 'c \<Rightarrow> 'd \<Rightarrow> 'e \<Rightarrow> assertionResult)
    \<Rightarrow> string \<Rightarrow> string \<Rightarrow> string \<Rightarrow> string \<Rightarrow> string \<Rightarrow> ('u, 'a \<times> 'b \<times> 'c \<times> 'd \<times> 'e) expr \<Rightarrow> (string \<Rightarrow> 'u statement) \<Rightarrow> 'u statement" where
  "GTEST_PRED_FORMAT5 pred_format t1 t2 t3 t4 t5 vs on_failure =
     GTEST_ASSERT (apply_to (\<lambda>(v1, v2, v3, v4, v5). pred_format t1 t2 t3 t4 t5 v1 v2 v3 v4 v5) vs) on_failure"

text \<open>The predicate macros hand their texts and arguments to the helpers.\<close>

definition GTEST_PRED1 :: "library \<Rightarrow> string \<Rightarrow> ('a \<Rightarrow> bool) \<Rightarrow> string \<Rightarrow> ('u, 'a printed) expr \<Rightarrow> (string \<Rightarrow> 'u statement) \<Rightarrow> 'u statement" where
  "GTEST_PRED1 lib p pred t1 v1 on_failure = GTEST_ASSERT (apply_to (AssertPred1Helper lib p t1 pred) v1) on_failure"

definition GTEST_PRED2 :: "library \<Rightarrow> string \<Rightarrow> ('a \<Rightarrow> 'b \<Rightarrow> bool) \<Rightarrow> string \<Rightarrow> string \<Rightarrow> ('u, 'a printed \<times> 'b printed) expr
    \<Rightarrow> (string \<Rightarrow> 'u statement) \<Rightarrow> 'u statement" where
  "GTEST_PRED2 lib p pred t1 t2 vs on_failure =
     GTEST_ASSERT (apply_to (\<lambda>(v1, v2). AssertPred2Helper lib p t1 t2 pred v1 v2) vs) on_failure"

definition GTEST_PRED3 :: "library \<Rightarrow> string \<Rightarrow> ('a \<Rightarrow> 'b \<Rightarrow> 'c \<Rightarrow> bool) \<Rightarrow> string \<Rightarrow> string \<Rightarrow> string
    \<Rightarrow> ('u, 'a printed \<times> 'b printed \<times> 'c printed) expr \<Rightarrow> (string \<Rightarrow> 'u statement) \<Rightarrow> 'u statement" where
  "GTEST_PRED3 lib p pred t1 t2 t3 vs on_failure =
     GTEST_ASSERT (apply_to (\<lambda>(v1, v2, v3). AssertPred3Helper lib p t1 t2 t3 pred v1 v2 v3) vs) on_failure"

definition GTEST_PRED4 :: "library \<Rightarrow> string \<Rightarrow> ('a \<Rightarrow> 'b \<Rightarrow> 'c \<Rightarrow> 'd \<Rightarrow> bool) \<Rightarrow> string \<Rightarrow> string \<Rightarrow> string \<Rightarrow> string
    \<Rightarrow> ('u, 'a printed \<times> 'b printed \<times> 'c printed \<times> 'd printed) expr \<Rightarrow> (string \<Rightarrow> 'u statement) \<Rightarrow> 'u statement" where
  "GTEST_PRED4 lib p pred t1 t2 t3 t4 vs on_failure =
     GTEST_ASSERT (apply_to (\<lambda>(v1, v2, v3, v4). AssertPred4Helper lib p t1 t2 t3 t4 pred v1 v2 v3 v4) vs) on_failure"

definition GTEST_PRED5 :: "library \<Rightarrow> string \<Rightarrow> ('a \<Rightarrow> 'b \<Rightarrow> 'c \<Rightarrow> 'd \<Rightarrow> 'e \<Rightarrow> bool) \<Rightarrow> string \<Rightarrow> string \<Rightarrow> string \<Rightarrow> string \<Rightarrow> string
    \<Rightarrow> ('u, 'a printed \<times> 'b printed \<times> 'c printed \<times> 'd printed \<times> 'e printed) expr \<Rightarrow> (string \<Rightarrow> 'u statement) \<Rightarrow> 'u statement" where
  "GTEST_PRED5 lib p pred t1 t2 t3 t4 t5 vs on_failure =
     GTEST_ASSERT (apply_to (\<lambda>(v1, v2, v3, v4, v5). AssertPred5Helper lib p t1 t2 t3 t4 t5 pred v1 v2 v3 v4 v5) vs) on_failure"

definition EXPECT_PRED_FORMAT2 :: "(string \<Rightarrow> string \<Rightarrow> 'a \<Rightarrow> 'b \<Rightarrow> assertionResult) \<Rightarrow> string \<Rightarrow> string
    \<Rightarrow> ('u, 'a \<times> 'b) expr \<Rightarrow> place \<Rightarrow> 'u statement" where
  "EXPECT_PRED_FORMAT2 pred_format t1 t2 vs site = GTEST_PRED_FORMAT2 pred_format t1 t2 vs (GTEST_NONFATAL_FAILURE site)"

definition ASSERT_PRED_FORMAT2 :: "(string \<Rightarrow> string \<Rightarrow> 'a \<Rightarrow> 'b \<Rightarrow> assertionResult) \<Rightarrow> string \<Rightarrow> string
    \<Rightarrow> ('u, 'a \<times> 'b) expr \<Rightarrow> place \<Rightarrow> 'u statement" where
  "ASSERT_PRED_FORMAT2 pred_format t1 t2 vs site = GTEST_PRED_FORMAT2 pred_format t1 t2 vs (GTEST_FATAL_FAILURE site)"

definition EXPECT_EQ :: "library \<Rightarrow> ('a \<Rightarrow> string) \<Rightarrow> ('b \<Rightarrow> string) \<Rightarrow> ('a \<Rightarrow> 'b \<Rightarrow> bool) \<Rightarrow> string \<Rightarrow> string
    \<Rightarrow> ('u, 'a \<times> 'b) expr \<Rightarrow> place \<Rightarrow> 'u statement" where
  "EXPECT_EQ lib format1 format2 eq = EXPECT_PRED_FORMAT2 (EqHelper_Compare lib format1 format2 eq)"

definition ASSERT_EQ :: "library \<Rightarrow> ('a \<Rightarrow> string) \<Rightarrow> ('b \<Rightarrow> string) \<Rightarrow> ('a \<Rightarrow> 'b \<Rightarrow> bool) \<Rightarrow> string \<Rightarrow> string
    \<Rightarrow> ('u, 'a \<times> 'b) expr \<Rightarrow> place \<Rightarrow> 'u statement" where
  "ASSERT_EQ lib format1 format2 eq = ASSERT_PRED_FORMAT2 (EqHelper_Compare lib format1 format2 eq)"

text \<open>The macros for \<open>NE\<close>, \<open>LE\<close>, \<open>LT\<close>, \<open>GE\<close> and \<open>GT\<close>, by the operator and its text.\<close>

definition EXPECT_op :: "library \<Rightarrow> ('a \<Rightarrow> string) \<Rightarrow> ('b \<Rightarrow> string) \<Rightarrow> ('a \<Rightarrow> 'b \<Rightarrow> bool) \<Rightarrow> string \<Rightarrow> string \<Rightarrow> string
    \<Rightarrow> ('u, 'a \<times> 'b) expr \<Rightarrow> place \<Rightarrow> 'u statement" where
  "EXPECT_op lib format1 format2 holds op = EXPECT_PRED_FORMAT2 (CmpHelper_op lib format1 format2 holds op)"

definition ASSERT_op :: "library \<Rightarrow> ('a \<Rightarrow> string) \<Rightarrow> ('b \<Rightarrow> string) \<Rightarrow> ('a \<Rightarrow> 'b \<Rightarrow> bool) \<Rightarrow> string \<Rightarrow> string \<Rightarrow> string
    \<Rightarrow> ('u, 'a \<times> 'b) expr \<Rightarrow> place \<Rightarrow> 'u statement" where
  "ASSERT_op lib format1 format2 holds op = ASSERT_PRED_FORMAT2 (CmpHelper_op lib format1 format2 holds op)"

definition EXPECT_FLOAT_EQ :: "library \<Rightarrow> ('w::len word \<Rightarrow> string) \<Rightarrow> string \<Rightarrow> string \<Rightarrow> ('u, 'w word \<times> 'w word) expr
    \<Rightarrow> place \<Rightarrow> 'u statement" where
  "EXPECT_FLOAT_EQ lib show17 = EXPECT_PRED_FORMAT2 (CmpHelperFloatingPointEQ lib show17)"

definition ASSERT_FLOAT_EQ :: "library \<Rightarrow> ('w::len word \<Rightarrow> string) \<Rightarrow> string \<Rightarrow> string \<Rightarrow> ('u, 'w word \<times> 'w word) expr
    \<Rightarrow> place \<Rightarrow> 'u statement" where
  "ASSERT_FLOAT_EQ lib show17 = ASSERT_PRED_FORMAT2 (CmpHelperFloatingPointEQ lib show17)"

subsection \<open>Boolean assertions\<close>

text \<open>\<open>GetBoolAssertionFailureMessage\<close> is a function of the library.\<close>

type_synonym bool_message = "assertionResult \<Rightarrow> string \<Rightarrow> string \<Rightarrow> string \<Rightarrow> string"

definition GTEST_TEST_BOOLEAN :: "bool_message \<Rightarrow> ('u, assertionResult) expr \<Rightarrow> string \<Rightarrow> string \<Rightarrow> string
    \<Rightarrow> (string \<Rightarrow> 'u statement) \<Rightarrow> 'u statement" where
  "GTEST_TEST_BOOLEAN get_message expression txt actual expected fail' = (\<lambda>s. case expression s of
     (Inl e, s') \<Rightarrow> (Threw e, s')
   | (Inr gtest_ar, s') \<Rightarrow> if AssertionResult_bool gtest_ar then (Done, s')
                         else fail' (c_str (get_message gtest_ar txt actual expected)) s')"

definition EXPECT_TRUE :: "bool_message \<Rightarrow> ('u, bool) expr \<Rightarrow> string \<Rightarrow> place \<Rightarrow> 'u statement" where
  "EXPECT_TRUE gm condition txt site =
     GTEST_TEST_BOOLEAN gm (apply_to AssertionResult condition) txt ''false'' ''true'' (GTEST_NONFATAL_FAILURE site)"

definition EXPECT_FALSE :: "bool_message \<Rightarrow> ('u, bool) expr \<Rightarrow> string \<Rightarrow> place \<Rightarrow> 'u statement" where
  "EXPECT_FALSE gm condition txt site =
     GTEST_TEST_BOOLEAN gm (apply_to (\<lambda>b. AssertionResult (\<not> b)) condition) txt ''true'' ''false'' (GTEST_NONFATAL_FAILURE site)"

definition ASSERT_TRUE :: "bool_message \<Rightarrow> ('u, bool) expr \<Rightarrow> string \<Rightarrow> place \<Rightarrow> 'u statement" where
  "ASSERT_TRUE gm condition txt site =
     GTEST_TEST_BOOLEAN gm (apply_to AssertionResult condition) txt ''false'' ''true'' (GTEST_FATAL_FAILURE site)"

definition ASSERT_FALSE :: "bool_message \<Rightarrow> ('u, bool) expr \<Rightarrow> string \<Rightarrow> place \<Rightarrow> 'u statement" where
  "ASSERT_FALSE gm condition txt site =
     GTEST_TEST_BOOLEAN gm (apply_to (\<lambda>b. AssertionResult (\<not> b)) condition) txt ''true'' ''false'' (GTEST_FATAL_FAILURE site)"

subsection \<open>Exceptions\<close>

text \<open>The exception a \<open>catch\<close> clause names: which exceptions it catches, and whether it is \<open>std::exception\<close> itself.\<close>

record expected =
  expected_name :: string
  catches :: "thrown \<Rightarrow> bool"
  is_std_exception :: bool

definition GTEST_EXCEPTION_TYPE :: "(string \<Rightarrow> string option) \<Rightarrow> thrown \<Rightarrow> string" where
  "GTEST_EXCEPTION_TYPE demangle e = GetTypeName demangle (thrown_type e)"

definition described :: "(string \<Rightarrow> string option) \<Rightarrow> thrown \<Rightarrow> string" where
  "described demangle e = GTEST_EXCEPTION_TYPE demangle e @ '' with description \"'' @ what_text e @ ''\".''"

text \<open>
  The handler for \<open>std::exception\<close> behind that for the expected exception: when the expected
  one is \<open>std::exception\<close> it is for \<open>NeverThrown\<close> instead, which nothing throws.
\<close>

definition THROW_CATCH_STD_EXCEPTION :: "(string \<Rightarrow> string option) \<Rightarrow> string \<Rightarrow> expected \<Rightarrow> thrown \<Rightarrow> string option" where
  "THROW_CATCH_STD_EXCEPTION demangle txt ex e =
     (if \<not> is_std_exception ex \<and> derives_std e
      then Some (''Expected: '' @ txt @ '' throws an exception of type '' @ expected_name ex @ ''.'' @ [CHR 0x0A]
             @ ''  Actual: it throws '' @ described demangle e)
      else None)"

definition GTEST_TEST_THROW :: "(string \<Rightarrow> string option) \<Rightarrow> 'u statement \<Rightarrow> string \<Rightarrow> expected \<Rightarrow> (string \<Rightarrow> 'u statement) \<Rightarrow> 'u statement" where
  "GTEST_TEST_THROW demangle st txt ex fail' = (\<lambda>s.
     let head = ''Expected: '' @ txt @ '' throws an exception of type '' @ expected_name ex @ ''.'' @ [CHR 0x0A] in
     case st s of
       (Returned, s') \<Rightarrow> (Returned, s')
     | (Done, s') \<Rightarrow> fail' (c_str (head @ ''  Actual: it throws nothing.'')) s'
     | (Threw e, s') \<Rightarrow>
         if catches ex e then (Done, s')
         else (case THROW_CATCH_STD_EXCEPTION demangle txt ex e of
           Some gtest_msg \<Rightarrow> fail' (c_str gtest_msg) s'
         | None \<Rightarrow> fail' (c_str (head @ ''  Actual: it throws a different type.'')) s'))"

definition GTEST_TEST_NO_THROW :: "(string \<Rightarrow> string option) \<Rightarrow> 'u statement \<Rightarrow> string \<Rightarrow> (string \<Rightarrow> 'u statement) \<Rightarrow> 'u statement" where
  "GTEST_TEST_NO_THROW demangle st txt fail' = (\<lambda>s. case st s of
     (Threw e, s') \<Rightarrow>
       let gtest_msg = (if derives_std e then ''it throws '' @ described demangle e else ''it throws.'')
       in fail' (c_str (''Expected: '' @ txt @ '' doesn't throw an exception.'' @ [CHR 0x0A] @ ''  Actual: '' @ gtest_msg)) s'
   | r \<Rightarrow> r)"

definition GTEST_TEST_ANY_THROW :: "'u statement \<Rightarrow> string \<Rightarrow> (string \<Rightarrow> 'u statement) \<Rightarrow> 'u statement" where
  "GTEST_TEST_ANY_THROW st txt fail' = (\<lambda>s. case st s of
     (Returned, s') \<Rightarrow> (Returned, s')
   | (Threw e, s') \<Rightarrow> (Done, s')
   | (Done, s') \<Rightarrow> fail' (''Expected: '' @ txt @ '' throws an exception.'' @ [CHR 0x0A] @ ''  Actual: it doesn't.'') s')"

text \<open>
  \<open>HasNewFatalFailureHelper\<close>, whose code is not in the headers, answers from the reports
  made while it exists.
\<close>

definition GTEST_TEST_NO_FATAL_FAILURE :: "(report list \<Rightarrow> bool) \<Rightarrow> 'u statement \<Rightarrow> string \<Rightarrow> (string \<Rightarrow> 'u statement) \<Rightarrow> 'u statement" where
  "GTEST_TEST_NO_FATAL_FAILURE has_new_fatal_failure st txt fail' = (\<lambda>s. case st s of
     (Done, s') \<Rightarrow>
       if has_new_fatal_failure (drop (length (reports s)) (reports s'))
       then fail' (''Expected: '' @ txt @ '' doesn't generate new fatal failures in the current thread.'' @ [CHR 0x0A]
              @ ''  Actual: it does.'') s'
       else (Done, s')
   | r \<Rightarrow> r)"

text \<open>The macros for users.\<close>

definition EXPECT_THROW :: "(string \<Rightarrow> string option) \<Rightarrow> 'u statement \<Rightarrow> string \<Rightarrow> expected \<Rightarrow> place \<Rightarrow> 'u statement" where
  "EXPECT_THROW demangle st txt ex site = GTEST_TEST_THROW demangle st txt ex (GTEST_NONFATAL_FAILURE site)"

definition ASSERT_THROW :: "(string \<Rightarrow> string option) \<Rightarrow> 'u statement \<Rightarrow> string \<Rightarrow> expected \<Rightarrow> place \<Rightarrow> 'u statement" where
  "ASSERT_THROW demangle st txt ex site = GTEST_TEST_THROW demangle st txt ex (GTEST_FATAL_FAILURE site)"

definition EXPECT_NO_THROW :: "(string \<Rightarrow> string option) \<Rightarrow> 'u statement \<Rightarrow> string \<Rightarrow> place \<Rightarrow> 'u statement" where
  "EXPECT_NO_THROW demangle st txt site = GTEST_TEST_NO_THROW demangle st txt (GTEST_NONFATAL_FAILURE site)"

definition ASSERT_NO_THROW :: "(string \<Rightarrow> string option) \<Rightarrow> 'u statement \<Rightarrow> string \<Rightarrow> place \<Rightarrow> 'u statement" where
  "ASSERT_NO_THROW demangle st txt site = GTEST_TEST_NO_THROW demangle st txt (GTEST_FATAL_FAILURE site)"

definition EXPECT_ANY_THROW :: "'u statement \<Rightarrow> string \<Rightarrow> place \<Rightarrow> 'u statement" where
  "EXPECT_ANY_THROW st txt site = GTEST_TEST_ANY_THROW st txt (GTEST_NONFATAL_FAILURE site)"

definition ASSERT_ANY_THROW :: "'u statement \<Rightarrow> string \<Rightarrow> place \<Rightarrow> 'u statement" where
  "ASSERT_ANY_THROW st txt site = GTEST_TEST_ANY_THROW st txt (GTEST_FATAL_FAILURE site)"

definition EXPECT_NO_FATAL_FAILURE :: "(report list \<Rightarrow> bool) \<Rightarrow> 'u statement \<Rightarrow> string \<Rightarrow> place \<Rightarrow> 'u statement" where
  "EXPECT_NO_FATAL_FAILURE has_new_fatal_failure st txt site = GTEST_TEST_NO_FATAL_FAILURE has_new_fatal_failure st txt (GTEST_NONFATAL_FAILURE site)"

definition ASSERT_NO_FATAL_FAILURE :: "(report list \<Rightarrow> bool) \<Rightarrow> 'u statement \<Rightarrow> string \<Rightarrow> place \<Rightarrow> 'u statement" where
  "ASSERT_NO_FATAL_FAILURE has_new_fatal_failure st txt site = GTEST_TEST_NO_FATAL_FAILURE has_new_fatal_failure st txt (GTEST_FATAL_FAILURE site)"

subsection \<open>Tests\<close>

text \<open>
  What \<open>TEST\<close>, \<open>TEST_F\<close> and \<open>RegisterTest\<close> run at start-up; \<open>parent\<close> is the class of the test's
  fixture, and \<open>base\<close> is \<open>testing::Test\<close>.
\<close>

definition GTEST_TEST :: "fixture \<Rightarrow> string \<Rightarrow> string \<Rightarrow> fixture \<Rightarrow> nat \<Rightarrow> code_location \<Rightarrow> ('v reg_event list, unit) cpp" where
  "GTEST_TEST base suite name parent parent_id loc =
     bnd (lift (GetSetUpCaseOrSuite base parent (loc_file loc) (line_no loc))) (\<lambda>su.
     bnd (lift (GetTearDownCaseOrSuite base parent (loc_file loc) (line_no loc))) (\<lambda>td.
     record_event (Test \<lparr>suite_name = suite, test_name = name, type_param = None, value_param = None, location = loc,
       fixture_id = parent_id, set_up = su, tear_down = td, factory = None\<rparr>)))"

text \<open>\<open>GetTestTypeId\<close>, which is not in the headers, is the id of \<open>testing::Test\<close>.\<close>

definition TEST :: "fixture \<Rightarrow> string \<Rightarrow> string \<Rightarrow> code_location \<Rightarrow> ('v reg_event list, unit) cpp" where
  "TEST base suite name loc = GTEST_TEST base suite name base (type_id base) loc"

definition TEST_F :: "fixture \<Rightarrow> fixture \<Rightarrow> string \<Rightarrow> string \<Rightarrow> code_location \<Rightarrow> ('v reg_event list, unit) cpp" where
  "TEST_F base test_fixture fixture_name name loc = GTEST_TEST base fixture_name name test_fixture (type_id test_fixture) loc"

definition RegisterTest :: "fixture \<Rightarrow> string \<Rightarrow> string \<Rightarrow> string option \<Rightarrow> string option \<Rightarrow> string \<Rightarrow> int \<Rightarrow> fixture
    \<Rightarrow> ('v reg_event list, unit) cpp" where
  "RegisterTest base suite name type_p value_p file line TestT =
     bnd (lift (GetSetUpCaseOrSuite base TestT file line)) (\<lambda>su.
     bnd (lift (GetTearDownCaseOrSuite base TestT file line)) (\<lambda>td.
     record_event (Test \<lparr>suite_name = suite, test_name = name, type_param = type_p, value_param = value_p,
       location = CodeLocation file line, fixture_id = type_id TestT, set_up = su, tear_down = td, factory = None\<rparr>)))"

text \<open>The parameter of the class of the running test: null outside of a parameterised test.\<close>

definition SetParam :: "'v option \<Rightarrow> ('v option, unit) cpp" where
  "SetParam p = upd (\<lambda>_. p)"

definition GetParam :: "('v option, 'v) cpp" where
  "GetParam = bnd (get (\<lambda>p. p)) (\<lambda>p. case p of
     None \<Rightarrow> fail (Abort ''Condition parameter_ != nullptr failed. GetParam() can only be called inside a value-parameterized test -- did you intend to write TEST_P instead of TEST_F?'')
   | Some v \<Rightarrow> ret v)"

subsection \<open>What a failed predicate says\<close>

definition explanation :: "string \<Rightarrow> string list \<Rightarrow> string list \<Rightarrow> string" where
  "explanation p es vs = p @ ''('' @ comma_list es @ '') evaluates to false, where''
     @ concat (map2 (\<lambda>e v. [CHR 0x0A] @ e @ '' evaluates to '' @ v) es vs)"

definition explains :: "assertionResult \<Rightarrow> bool \<Rightarrow> string \<Rightarrow> string list \<Rightarrow> string list \<Rightarrow> bool" where
  "explains r holds p es vs \<longleftrightarrow> AssertionResult_bool r = holds
     \<and> (\<not> holds \<longrightarrow> failure_message r = explanation p es vs)"

text \<open>The documented behaviour of the functions of the library.\<close>

definition plain_library :: "library \<Rightarrow> bool" where
  "plain_library lib \<longleftrightarrow> GetString lib = (\<lambda>m. m) \<and> AssertionResult_bool (AssertionSuccess lib)
     \<and> AssertionFailure lib = AssertionResult False"

lemma helper_explains:
  assumes "plain_library lib" and "\<forall>t \<in> set texts. CHR 0x00 \<notin> set t" and "concat texts = explanation p es vs"
  shows "explains (if holds then AssertionSuccess lib else fold (result_put (GetString lib)) texts (AssertionFailure lib)) holds p es vs"
  using streamed_message [of texts "GetString lib" "AssertionResult False"] assms
  by (simp add: plain_library_def explains_def failure_message_def AssertionResult_def AssertionResult_message_def
      AssertionResult_bool_def)

text \<open>
  The five helpers behind \<open>EXPECT_PRED1\<close> to \<open>EXPECT_PRED5\<close> are one function of the lists of their
  arguments: the result is that of the predicate, and a failure names the predicate, the
  expressions and, on a line for each, the value of every expression.
\<close>

theorem helpers_explain:
  assumes "plain_library lib" and "\<forall>t \<in> {p, e1, e2, e3, e4, e5, w1, w2, w3, w4, w5}. CHR 0x00 \<notin> set t"
  shows "explains (AssertPred1Helper lib p e1 q1 (v1, w1)) (q1 v1) p [e1] [w1]
    \<and> explains (AssertPred2Helper lib p e1 e2 q2 (v1, w1) (v2, w2)) (q2 v1 v2) p [e1, e2] [w1, w2]
    \<and> explains (AssertPred3Helper lib p e1 e2 e3 q3 (v1, w1) (v2, w2) (v3, w3)) (q3 v1 v2 v3) p [e1, e2, e3] [w1, w2, w3]
    \<and> explains (AssertPred4Helper lib p e1 e2 e3 e4 q4 (v1, w1) (v2, w2) (v3, w3) (v4, w4)) (q4 v1 v2 v3 v4)
        p [e1, e2, e3, e4] [w1, w2, w3, w4]
    \<and> explains (AssertPred5Helper lib p e1 e2 e3 e4 e5 q5 (v1, w1) (v2, w2) (v3, w3) (v4, w4) (v5, w5)) (q5 v1 v2 v3 v4 v5)
        p [e1, e2, e3, e4, e5] [w1, w2, w3, w4, w5]"
proof -
  note explained = helper_explains [OF assms(1)]
  have "explains (AssertPred1Helper lib p e1 q1 (v1, w1)) (q1 v1) p [e1] [w1]"
    unfolding AssertPred1Helper_def fst_conv snd_conv by (rule explained) (use assms(2) in \<open>auto simp: explanation_def\<close>)
  moreover have "explains (AssertPred2Helper lib p e1 e2 q2 (v1, w1) (v2, w2)) (q2 v1 v2) p [e1, e2] [w1, w2]"
    unfolding AssertPred2Helper_def fst_conv snd_conv by (rule explained) (use assms(2) in \<open>auto simp: explanation_def\<close>)
  moreover have "explains (AssertPred3Helper lib p e1 e2 e3 q3 (v1, w1) (v2, w2) (v3, w3)) (q3 v1 v2 v3) p [e1, e2, e3] [w1, w2, w3]"
    unfolding AssertPred3Helper_def fst_conv snd_conv by (rule explained) (use assms(2) in \<open>auto simp: explanation_def\<close>)
  moreover have "explains (AssertPred4Helper lib p e1 e2 e3 e4 q4 (v1, w1) (v2, w2) (v3, w3) (v4, w4)) (q4 v1 v2 v3 v4)
        p [e1, e2, e3, e4] [w1, w2, w3, w4]"
    unfolding AssertPred4Helper_def fst_conv snd_conv by (rule explained) (use assms(2) in \<open>auto simp: explanation_def\<close>)
  moreover have "explains (AssertPred5Helper lib p e1 e2 e3 e4 e5 q5 (v1, w1) (v2, w2) (v3, w3) (v4, w4) (v5, w5)) (q5 v1 v2 v3 v4 v5)
        p [e1, e2, e3, e4, e5] [w1, w2, w3, w4, w5]"
    unfolding AssertPred5Helper_def fst_conv snd_conv by (rule explained) (use assms(2) in \<open>auto simp: explanation_def\<close>)
  ultimately show ?thesis by blast
qed

subsection \<open>How a test body runs\<close>

text \<open>An assertion with its result: whether it is an \<open>ASSERT\<close>, the result and the place.\<close>

type_synonym assertion = "bool \<times> assertionResult \<times> place"

definition check :: "assertion \<Rightarrow> 'u statement" where
  "check c = (case c of (fatal, r, site) \<Rightarrow>
     GTEST_ASSERT (pure r) (if fatal then GTEST_FATAL_FAILURE site else GTEST_NONFATAL_FAILURE site))"

definition fails :: "assertion \<Rightarrow> bool" where
  "fails c \<longleftrightarrow> \<not> AssertionResult_bool (fst (snd c))"

definition stops :: "assertion \<Rightarrow> bool" where
  "stops c \<longleftrightarrow> fst c \<and> fails c"

definition report_of :: "assertion \<Rightarrow> report" where
  "report_of c = (case c of (fatal, r, loc, msg) \<Rightarrow>
     \<lparr>helper_type = (if fatal then kFatalFailure else kNonFatalFailure), helper_file = loc_file loc,
      helper_line = line_no loc, helper_message = failure_message r, streamed = msg\<rparr>)"

text \<open>The assertions that are reached: up to the first that stops the function, this one included.\<close>

fun reached :: "assertion list \<Rightarrow> assertion list" where
  "reached [] = []"
| "reached (c # cs) = (if stops c then [c] else c # reached cs)"

definition failures :: "assertion list \<Rightarrow> report list" where
  "failures cs = map report_of (filter fails (reached cs))"

lemma check_app: "check c s = (if fails c then (if fst c then Returned else Done, s\<lparr>reports := reports s @ [report_of c]\<rparr>) else (Done, s))"
  by (cases c) (auto simp: check_def GTEST_ASSERT_def pure_def fails_def GTEST_FATAL_FAILURE_def GTEST_NONFATAL_FAILURE_def
      return_after_def followed_by_def GTEST_MESSAGE_def GTEST_MESSAGE_AT_def report_of_def)

lemma block_simps [simp]: "block [] = skip" "block (a # as) = followed_by a (block as)"
  by (simp_all add: block_def)

lemma stopped_by: "(\<exists>c \<in> set cs. stops c) \<longleftrightarrow> (\<exists>r \<in> set (failures cs). helper_type r = kFatalFailure)"
proof (induction cs)
  case (Cons c cs)
  have "helper_type (report_of c) = (if fst c then kFatalFailure else kNonFatalFailure)"
    by (cases c) (simp add: report_of_def)
  then show ?case using Cons by (cases "fst c"; cases "fails c") (simp_all add: failures_def stops_def)
qed (simp add: failures_def)

lemma checks_run:
  "block (map check cs @ rest) s = (if \<exists>c \<in> set cs. stops c then (Returned, s\<lparr>reports := reports s @ failures cs\<rparr>)
     else block rest (s\<lparr>reports := reports s @ failures cs\<rparr>))"
proof (induction cs arbitrary: s)
  case (Cons c cs)
  show ?case
  proof (cases "stops c")
    case True
    then show ?thesis by (simp add: followed_by_def check_app stops_def failures_def)
  next
    case False
    then have "block (map check (c # cs) @ rest) s =
        block (map check cs @ rest) (s\<lparr>reports := reports s @ (if fails c then [report_of c] else [])\<rparr>)"
      by (auto simp: followed_by_def check_app stops_def)
    then show ?thesis using Cons.IH False by (simp add: failures_def)
  qed
qed (simp add: failures_def)

text \<open>
  The assertions of a test body: each failing one that is reached is reported once, in order, as
  a fatal failure for \<open>ASSERT\<close> and a nonfatal one for \<open>EXPECT\<close>, with its place and messages; the first failing \<open>ASSERT\<close>
  ends the function, so what follows does not run, and otherwise it all runs; those that
  hold leave no report.
\<close>

theorem assertions_report:
  "block (map check cs @ rest) s = (if \<exists>c \<in> set cs. stops c then (Returned, s\<lparr>reports := reports s @ failures cs\<rparr>)
     else block rest (s\<lparr>reports := reports s @ failures cs\<rparr>))"
  by (rule checks_run)

text \<open>
  A failing \<open>ASSERT\<close> in a function called by a test ends only that function: the test goes on. Behind
  \<open>ASSERT_NO_FATAL_FAILURE\<close> the test goes on exactly if no \<open>ASSERT\<close> of the function failed, and otherwise ends with one more
  fatal failure, if the library's helper answers whether a fatal failure was reported while it
  existed.
\<close>

theorem fatal_failures_in_functions:
  assumes "\<forall>rs. has_new rs \<longleftrightarrow> (\<exists>r \<in> set rs. helper_type r = kFatalFailure)"
  shows "block (call (block (map check cs)) # rest) s = block rest (s\<lparr>reports := reports s @ failures cs\<rparr>)
    \<and> (\<exists>r. helper_type r = kFatalFailure \<and>
       block (GTEST_TEST_NO_FATAL_FAILURE has_new (call (block (map check cs))) txt (GTEST_FATAL_FAILURE site) # rest) s =
       (if \<exists>c \<in> set cs. stops c then (Returned, s\<lparr>reports := reports s @ failures cs @ [r]\<rparr>)
        else block rest (s\<lparr>reports := reports s @ failures cs\<rparr>)))"
proof -
  let ?s = "s\<lparr>reports := reports s @ failures cs\<rparr>"
  have body: "call (block (map check cs)) s = (Done, ?s)"
    using checks_run [of cs "[]" s] by (simp add: call_def skip_def split: if_splits)
  have new: "has_new (drop (length (reports s)) (reports ?s)) = (\<exists>c \<in> set cs. stops c)"
    using assms stopped_by [of cs] by simp
  obtain r where "GTEST_FATAL_FAILURE site (''Expected: '' @ txt @ '' doesn't generate new fatal failures in the current thread.''
      @ [CHR 0x0A] @ ''  Actual: it does.'') ?s = (Returned, ?s\<lparr>reports := reports ?s @ [r]\<rparr>)" "helper_type r = kFatalFailure"
    by (simp add: GTEST_FATAL_FAILURE_def return_after_def followed_by_def GTEST_MESSAGE_def GTEST_MESSAGE_AT_def)
  then show ?thesis using body new
    by (intro conjI exI [of _ r]) (auto simp: followed_by_def GTEST_TEST_NO_FATAL_FAILURE_def)
qed

text \<open>An assertion that passes leaves what its statement did; one that fails adds one failure at its place.\<close>

definition judged :: "((string \<Rightarrow> 'u statement) \<Rightarrow> 'u statement) \<Rightarrow> bool \<Rightarrow> place \<Rightarrow> 'u run \<Rightarrow> 'u run \<Rightarrow> bool \<Rightarrow> bool" where
  "judged a fatal site s s' ok \<longleftrightarrow>
     (let on_failure = (if fatal then GTEST_FATAL_FAILURE site else GTEST_NONFATAL_FAILURE site)
      in if ok then a on_failure s = (Done, s') else (\<exists>m. a on_failure s = on_failure m s'))"

text \<open>
  The assertions on exceptions, for a statement that runs through or throws: \<open>THROW\<close> passes exactly if
  an exception is thrown that the clause for the expected one catches, \<open>ANY_THROW\<close> if any is,
  \<open>NO_THROW\<close> if none is, each with one failure otherwise. A statement that returns, as a failing
  \<open>ASSERT\<close> inside of it does, ends the function with none of them judging it.
\<close>

theorem exception_assertions:
  assumes "st s = (r, s')"
  shows "if r = Returned
    then GTEST_TEST_THROW demangle st txt ex f s = (Returned, s') \<and> GTEST_TEST_ANY_THROW st txt f s = (Returned, s')
      \<and> GTEST_TEST_NO_THROW demangle st txt f s = (Returned, s')
    else judged (GTEST_TEST_THROW demangle st txt ex) fatal site s s' (\<exists>e. r = Threw e \<and> catches ex e)
      \<and> judged (GTEST_TEST_ANY_THROW st txt) fatal site s s' (\<exists>e. r = Threw e)
      \<and> judged (GTEST_TEST_NO_THROW demangle st txt) fatal site s s' (r = Done)"
proof (cases r)
  case (Threw e)
  show ?thesis
    using assms Threw
    by (auto simp: judged_def GTEST_TEST_THROW_def GTEST_TEST_ANY_THROW_def GTEST_TEST_NO_THROW_def Let_def split: option.split)
qed (use assms in \<open>auto simp: judged_def GTEST_TEST_THROW_def GTEST_TEST_ANY_THROW_def GTEST_TEST_NO_THROW_def Let_def\<close>)

lemma test_registers:
  assumes "class_ok base parent su td"
  shows "GTEST_TEST base suite name parent parent_id loc es = (Inr (), es @ [Test \<lparr>suite_name = suite, test_name = name,
     type_param = None, value_param = None, location = loc, fixture_id = parent_id, set_up = su, tear_down = td, factory = None\<rparr>])"
  using assms by (simp add: GTEST_TEST_def class_ok_def bnd_app)

lemma test_sees_its_parameter:
  "seq (CreateTest f) GetParam p = (Inr (parameter f), Some (parameter f))"
  by (simp add: CreateTest_def GetParam_def seq_def bnd_app)

subsection \<open>Instances\<close>

text \<open>A library as documented, and two failing assertions around one that holds.\<close>

definition a_library :: library where
  "a_library = \<lparr>GetString = (\<lambda>m. m), AssertionSuccess = AssertionResult True, AssertionFailure = AssertionResult False,
     EqFailure = (\<lambda>_ _ _ _ _. AssertionResult False)\<rparr>"

theorem helpers_explain_witness:
  "failure_message (AssertPred2Helper a_library ''Divides'' ''a'' ''b'' (dvd) (4 :: nat, ''4'') (6, ''6'')) =
    ''Divides(a, b) evaluates to false, where'' @ [CHR 0x0A] @ ''a evaluates to 4'' @ [CHR 0x0A] @ ''b evaluates to 6''"
proof -
  have lib: "plain_library a_library" by (simp add: plain_library_def a_library_def AssertionResult_def AssertionResult_bool_def)
  have texts: "\<forall>t \<in> {''Divides'', ''a'', ''b'', [], [], [], ''4'', ''6'', [], [], []}. CHR 0x00 \<notin> set t" by simp
  have "explains (AssertPred2Helper a_library ''Divides'' ''a'' ''b'' (dvd) (4 :: nat, ''4'') (6, ''6'')) (4 dvd (6 :: nat))
      ''Divides'' [''a'', ''b''] [''4'', ''6'']"
    by (rule helpers_explain [OF lib texts, THEN conjunct2, THEN conjunct1])
  then show ?thesis by (simp add: explains_def explanation_def)
qed

theorem fatal_failures_in_functions_witness:
  "fst (block (GTEST_TEST_NO_FATAL_FAILURE (\<lambda>rs. \<exists>r \<in> set rs. helper_type r = kFatalFailure)
      (call (block (map check [(True, AssertionResult False, CodeLocation ''t.cc'' 3, [])]))) ''Check()''
      (GTEST_FATAL_FAILURE (CodeLocation ''t.cc'' 9, [])) # []) \<lparr>reports = [], user = ()\<rparr>) = Returned"
  using fatal_failures_in_functions [of "\<lambda>rs. \<exists>r \<in> set rs. helper_type r = kFatalFailure"
      "[(True, AssertionResult False, CodeLocation ''t.cc'' 3, [])]" "[]" "\<lparr>reports = [], user = ()\<rparr>" "''Check()''"
      "(CodeLocation ''t.cc'' 9, [])"]
  by (auto simp: stops_def fails_def AssertionResult_def AssertionResult_bool_def)

theorem exception_assertions_witness:
  "GTEST_TEST_ANY_THROW (\<lambda>s. (Threw \<lparr>thrown_type = ''i'', derives_std = False, what_text = []\<rparr>, s)) ''f()''
     (GTEST_NONFATAL_FAILURE (CodeLocation ''t.cc'' 9, [])) \<lparr>reports = [], user = ()\<rparr> = (Done, \<lparr>reports = [], user = ()\<rparr>)"
  using exception_assertions [of "\<lambda>s. (Threw \<lparr>thrown_type = ''i'', derives_std = False, what_text = []\<rparr>, s)"
      "\<lparr>reports = [], user = ()\<rparr>" "Threw \<lparr>thrown_type = ''i'', derives_std = False, what_text = []\<rparr>" "\<lparr>reports = [], user = ()\<rparr>"
      "\<lambda>_. None" "''f()''" "\<lparr>expected_name = [], catches = \<lambda>_. False, is_std_exception = False\<rparr>" _ False "(CodeLocation ''t.cc'' 9, [])"]
  by (simp add: judged_def)

end
