(* ===== verification/Gtest_Death.thy ===== *)
theory Gtest_Death
  imports Gtest_Assertions
begin

section \<open>Death tests (gtest-death-test.h, gtest-death-test-internal.h)\<close>

text \<open>
  The macro of a death test runs in two processes: the one that oversees the test waits for
  the other, which executes the statement. The class \<open>DeathTest\<close> is declared only: its
  functions are parameters, and each call of \<open>Abort\<close> is recorded, with what is printed to
  the standard error. \<open>Abort\<close> of the library does not return, so the first call counts;
  the model goes on, as the macro is written to.
\<close>

datatype role = OVERSEE_TEST | EXECUTE_TEST

datatype abort_reason = TEST_ENCOUNTERED_RETURN_STATEMENT | TEST_THREW_EXCEPTION | TEST_DID_NOT_DIE

datatype death_event = Aborted abort_reason | Printed string

record 'w death_world =
  died :: "death_event list"
  outside :: 'w

type_synonym 'w child = "'w death_world run"

record 'w death_test =
  AssumeRole :: "'w child \<Rightarrow> role \<times> 'w child"
  Wait :: "'w child \<Rightarrow> int \<times> 'w child"
  Passed :: "bool \<Rightarrow> 'w child \<Rightarrow> bool \<times> 'w child"

text \<open>\<open>Create\<close> says whether it worked and which object it made, if the test is not to be skipped.\<close>

record ('m, 'w) death_library =
  Create :: "string \<Rightarrow> 'm \<Rightarrow> string \<Rightarrow> int \<Rightarrow> 'w child \<Rightarrow> (bool \<times> 'w death_test option) \<times> 'w child"
  LastMessage :: "'w child \<Rightarrow> string"
  FormatFileLocation :: "string \<Rightarrow> int \<Rightarrow> string"

definition happen :: "death_event \<Rightarrow> 'w death_world statement" where
  "happen e = (\<lambda>s. (Done, s\<lparr>user := (user s)\<lparr>died := died (user s) @ [e]\<rparr>\<rparr>))"

definition death_Abort :: "abort_reason \<Rightarrow> 'w death_world statement" where
  "death_Abort r = happen (Aborted r)"

text \<open>The destructor of a \<open>ReturnSentinel\<close> runs however the block it guards is left.\<close>

definition ReturnSentinel :: "'w death_world statement \<Rightarrow> 'w death_world statement" where
  "ReturnSentinel st = (\<lambda>s. case st s of (r, s') \<Rightarrow> (r, snd (death_Abort TEST_ENCOUNTERED_RETURN_STATEMENT s')))"

definition GTEST_EXECUTE_DEATH_TEST_STATEMENT :: "(string \<Rightarrow> int \<Rightarrow> string) \<Rightarrow> code_location \<Rightarrow> 'w death_world statement
    \<Rightarrow> 'w death_world statement" where
  "GTEST_EXECUTE_DEATH_TEST_STATEMENT format loc st = (\<lambda>s. case st s of
     (Threw e, s') \<Rightarrow>
       if derives_std e
       then followed_by (happen (Printed ([CHR 0x0A] @ c_str (format (loc_file loc) (line_no loc))
              @ '': Caught std::exception-derived exception escaping the death test statement. Exception message: ''
              @ what_text e @ [CHR 0x0A])))
            (death_Abort TEST_THREW_EXCEPTION) s'
       else death_Abort TEST_THREW_EXCEPTION s'
   | r \<Rightarrow> r)"

definition GTEST_DEATH_TEST :: "('m, 'w) death_library \<Rightarrow> 'w death_world statement \<Rightarrow> string \<Rightarrow> (int \<Rightarrow> bool) \<Rightarrow> 'm
    \<Rightarrow> code_location \<Rightarrow> (string \<Rightarrow> 'w death_world statement) \<Rightarrow> 'w death_world statement" where
  "GTEST_DEATH_TEST lib st txt predicate matcher loc fail' = (\<lambda>s.
     case Create lib txt matcher (loc_file loc) (line_no loc) s of ((ok, gtest_dt), s1) \<Rightarrow>
       if \<not> ok then fail' (LastMessage lib s1) s1
       else (case gtest_dt of
         None \<Rightarrow> (Done, s1)
       | Some t \<Rightarrow> (case AssumeRole t s1 of
           (OVERSEE_TEST, s2) \<Rightarrow>
             (case Wait t s2 of (status, s3) \<Rightarrow>
              (case Passed t (predicate status) s3 of (ok, s4) \<Rightarrow>
                 if ok then (Done, s4) else fail' (LastMessage lib s4) s4))
         | (EXECUTE_TEST, s2) \<Rightarrow>
             ReturnSentinel (followed_by (GTEST_EXECUTE_DEATH_TEST_STATEMENT (FormatFileLocation lib) loc st)
               (death_Abort TEST_DID_NOT_DIE)) s2)))"

definition EXPECT_EXIT :: "('m, 'w) death_library \<Rightarrow> 'w death_world statement \<Rightarrow> string \<Rightarrow> (int \<Rightarrow> bool) \<Rightarrow> 'm \<Rightarrow> place
    \<Rightarrow> 'w death_world statement" where
  "EXPECT_EXIT lib st txt predicate matcher site = GTEST_DEATH_TEST lib st txt predicate matcher (fst site) (GTEST_NONFATAL_FAILURE site)"

definition ASSERT_EXIT :: "('m, 'w) death_library \<Rightarrow> 'w death_world statement \<Rightarrow> string \<Rightarrow> (int \<Rightarrow> bool) \<Rightarrow> 'm \<Rightarrow> place
    \<Rightarrow> 'w death_world statement" where
  "ASSERT_EXIT lib st txt predicate matcher site = GTEST_DEATH_TEST lib st txt predicate matcher (fst site) (GTEST_FATAL_FAILURE site)"

text \<open>\<open>ExitedUnsuccessfully\<close> is a function of the library.\<close>

definition EXPECT_DEATH :: "(int \<Rightarrow> bool) \<Rightarrow> ('m, 'w) death_library \<Rightarrow> 'w death_world statement \<Rightarrow> string \<Rightarrow> 'm \<Rightarrow> place
    \<Rightarrow> 'w death_world statement" where
  "EXPECT_DEATH ExitedUnsuccessfully lib st txt matcher site = EXPECT_EXIT lib st txt ExitedUnsuccessfully matcher site"

definition ASSERT_DEATH :: "(int \<Rightarrow> bool) \<Rightarrow> ('m, 'w) death_library \<Rightarrow> 'w death_world statement \<Rightarrow> string \<Rightarrow> 'm \<Rightarrow> place
    \<Rightarrow> 'w death_world statement" where
  "ASSERT_DEATH ExitedUnsuccessfully lib st txt matcher site = ASSERT_EXIT lib st txt ExitedUnsuccessfully matcher site"

subsection \<open>How the executing process ends\<close>

fun reason :: "flow \<Rightarrow> abort_reason" where
  "reason Done = TEST_DID_NOT_DIE"
| "reason Returned = TEST_ENCOUNTERED_RETURN_STATEMENT"
| "reason (Threw e) = TEST_THREW_EXCEPTION"

definition aborts :: "death_event list \<Rightarrow> abort_reason list" where
  "aborts es = List.map_filter (\<lambda>e. case e of Aborted r \<Rightarrow> Some r | Printed _ \<Rightarrow> None) es"

text \<open>
  A statement that a death test executes and that does not end the process makes it
  abort: the first reason given is that it returned, threw or ran through, as it did, and no
  assertion reports anything in that process. The overseeing process never runs the
  statement; it passes exactly if the exit status and the output are accepted.
\<close>

theorem death_test_roles:
  assumes "Create lib txt matcher (loc_file loc) (line_no loc) s = ((True, Some t), s1)"
  shows "(\<forall>s2 r s3. AssumeRole t s1 = (EXECUTE_TEST, s2) \<longrightarrow> st s2 = (r, s3) \<longrightarrow>
      (\<exists>r' s4 es. GTEST_DEATH_TEST lib st txt predicate matcher loc f s = (r', s4)
         \<and> reports s4 = reports s3 \<and> died (user s4) = died (user s3) @ es \<and> hd (aborts es) = reason r \<and> aborts es \<noteq> []))
    \<and> (\<forall>s2 st'. AssumeRole t s1 = (OVERSEE_TEST, s2) \<longrightarrow>
      GTEST_DEATH_TEST lib st txt predicate matcher loc f s = GTEST_DEATH_TEST lib st' txt predicate matcher loc f s
      \<and> (\<forall>status s3 s4. Wait t s2 = (status, s3) \<longrightarrow> Passed t (predicate status) s3 = (True, s4) \<longrightarrow>
           GTEST_DEATH_TEST lib st txt predicate matcher loc f s = (Done, s4))
      \<and> (\<forall>status s3 s4. Wait t s2 = (status, s3) \<longrightarrow> Passed t (predicate status) s3 = (False, s4) \<longrightarrow>
           GTEST_DEATH_TEST lib st txt predicate matcher loc f s = f (LastMessage lib s4) s4))"
proof (intro conjI allI impI)
  fix s2 r s3
  assume run: "AssumeRole t s1 = (EXECUTE_TEST, s2)" "st s2 = (r, s3)"
  show "\<exists>r' s4 es. GTEST_DEATH_TEST lib st txt predicate matcher loc f s = (r', s4)
      \<and> reports s4 = reports s3 \<and> died (user s4) = died (user s3) @ es \<and> hd (aborts es) = reason r \<and> aborts es \<noteq> []"
    using assms run
    by (cases r) (auto simp: GTEST_DEATH_TEST_def ReturnSentinel_def followed_by_def GTEST_EXECUTE_DEATH_TEST_STATEMENT_def
        death_Abort_def happen_def aborts_def map_filter_simps)
qed (use assms in \<open>simp_all add: GTEST_DEATH_TEST_def\<close>)

text \<open>A library whose test is executed in this process.\<close>

definition executing :: "(unit, unit) death_library" where
  "executing = \<lparr>Create = (\<lambda>_ _ _ _ s. ((True, Some \<lparr>AssumeRole = Pair EXECUTE_TEST, Wait = Pair 0, Passed = Pair\<rparr>), s)),
     LastMessage = (\<lambda>_. []), FormatFileLocation = (\<lambda>f _. f)\<rparr>"

theorem death_test_roles_witness:
  "\<exists>r s. GTEST_DEATH_TEST executing skip ''f()'' (\<lambda>_. True) () (CodeLocation ''t.cc'' 1) (\<lambda>_. skip)
      \<lparr>reports = [], user = \<lparr>died = [], outside = ()\<rparr>\<rparr> = (r, s) \<and> hd (aborts (died (user s))) = TEST_DID_NOT_DIE"
proof -
  let ?s = "\<lparr>reports = [], user = \<lparr>died = [], outside = ()\<rparr>\<rparr>"
  have "Create executing ''f()'' () (loc_file (CodeLocation ''t.cc'' 1)) (line_no (CodeLocation ''t.cc'' 1)) ?s =
      ((True, Some \<lparr>AssumeRole = Pair EXECUTE_TEST, Wait = Pair 0, Passed = Pair\<rparr>), ?s)"
    by (simp add: executing_def)
  from death_test_roles [OF this, of skip "\<lambda>_. True" "\<lambda>_. skip"] show ?thesis by (auto simp: skip_def)
qed

end
