(* ===== verification/Gtest_Spi.thy ===== *)
theory Gtest_Spi
  imports Gtest_Assertions
begin

section \<open>Assertions about failures (gtest-spi.h)\<close>

text \<open>
  The macros that expect a statement to fail. The reporter that catches the failures and the
  checker that judges them are declared only, so they are parameters: which reports the reporter
  catches for a mode, and which reports the destructor of the checker makes.
\<close>

subsection \<open>The macros\<close>

datatype intercept_mode = INTERCEPT_ONLY_CURRENT_THREAD | INTERCEPT_ALL_THREADS

record spi_library =
  caught :: "intercept_mode \<Rightarrow> report \<Rightarrow> bool"
  SingleFailureChecker :: "report list \<Rightarrow> part_type \<Rightarrow> string \<Rightarrow> report list"

text \<open>
  A block with a \<open>ScopedFakeTestPartResultReporter\<close>: what it catches goes to \<open>gtest_failures\<close>, the rest is
  reported as usual, however the statement is left.
\<close>

definition intercepted :: "(report \<Rightarrow> bool) \<Rightarrow> 'u statement \<Rightarrow> 'u run \<Rightarrow> (flow \<times> 'u run) \<times> report list" where
  "intercepted hit st s = (case st s of (out, s') \<Rightarrow>
     let new = drop (length (reports s)) (reports s') in
     ((out, s'\<lparr>reports := reports s @ filter (\<lambda>r. \<not> hit r) new\<rparr>), filter hit new))"

text \<open>The checker is destroyed after the reporter, also when the statement returns or throws.\<close>

definition checked :: "spi_library \<Rightarrow> intercept_mode \<Rightarrow> part_type \<Rightarrow> 'u statement \<Rightarrow> string \<Rightarrow> 'u statement" where
  "checked lib mode expected st substr = (\<lambda>s. case intercepted (caught lib mode) st s of ((out, s'), gtest_failures) \<Rightarrow>
     (out, s'\<lparr>reports := reports s' @ SingleFailureChecker lib gtest_failures expected substr\<rparr>))"

text \<open>For fatal failures the statement is the body of a static function, for the others it stands in place.\<close>

definition EXPECT_FATAL_FAILURE :: "spi_library \<Rightarrow> 'u statement \<Rightarrow> string \<Rightarrow> 'u statement" where
  "EXPECT_FATAL_FAILURE lib st substr = checked lib INTERCEPT_ONLY_CURRENT_THREAD kFatalFailure (call st) substr"

definition EXPECT_FATAL_FAILURE_ON_ALL_THREADS :: "spi_library \<Rightarrow> 'u statement \<Rightarrow> string \<Rightarrow> 'u statement" where
  "EXPECT_FATAL_FAILURE_ON_ALL_THREADS lib st substr = checked lib INTERCEPT_ALL_THREADS kFatalFailure (call st) substr"

definition EXPECT_NONFATAL_FAILURE :: "spi_library \<Rightarrow> 'u statement \<Rightarrow> string \<Rightarrow> 'u statement" where
  "EXPECT_NONFATAL_FAILURE lib st substr = checked lib INTERCEPT_ONLY_CURRENT_THREAD kNonFatalFailure st substr"

definition EXPECT_NONFATAL_FAILURE_ON_ALL_THREADS :: "spi_library \<Rightarrow> 'u statement \<Rightarrow> string \<Rightarrow> 'u statement" where
  "EXPECT_NONFATAL_FAILURE_ON_ALL_THREADS lib st substr = checked lib INTERCEPT_ALL_THREADS kNonFatalFailure st substr"

lemmas spi_defs = EXPECT_FATAL_FAILURE_def EXPECT_FATAL_FAILURE_ON_ALL_THREADS_def EXPECT_NONFATAL_FAILURE_def
  EXPECT_NONFATAL_FAILURE_ON_ALL_THREADS_def checked_def intercepted_def

subsection \<open>The documented behaviour of the library\<close>

definition is_failure :: "report \<Rightarrow> bool" where
  "is_failure r \<longleftrightarrow> helper_type r \<in> {kFatalFailure, kNonFatalFailure}"

text \<open>
  All of the reports of one thread are caught in both modes, and the checker is silent exactly for a single report, of the expected type,
  that contains the text; otherwise it makes one nonfatal failure.
\<close>

definition checks_failures :: "(report \<Rightarrow> string \<Rightarrow> bool) \<Rightarrow> spi_library \<Rightarrow> bool" where
  "checks_failures contains lib \<longleftrightarrow> (\<forall>mode r. caught lib mode r)
     \<and> (\<forall>rs ty substr. if \<exists>r. rs = [r] \<and> helper_type r = ty \<and> contains r substr
          then SingleFailureChecker lib rs ty substr = []
          else \<exists>r. SingleFailureChecker lib rs ty substr = [r] \<and> helper_type r = kNonFatalFailure)"

subsection \<open>What the macros say\<close>

text \<open>The only assertion reached that fails is one of the given kind, and its report has the text.\<close>

definition fails_once :: "(report \<Rightarrow> string \<Rightarrow> bool) \<Rightarrow> bool \<Rightarrow> string \<Rightarrow> assertion list \<Rightarrow> bool" where
  "fails_once contains fatal substr cs \<longleftrightarrow> (\<exists>c. filter fails (reached cs) = [c] \<and> fst c = fatal \<and> contains (report_of c) substr)"

lemma report_type: "helper_type (report_of c) = (if fst c then kFatalFailure else kNonFatalFailure)"
  by (cases c) (simp add: report_of_def)

lemma fails_once_report:
  "fails_once contains fatal substr cs \<longleftrightarrow>
     (\<exists>r. failures cs = [r] \<and> helper_type r = (if fatal then kFatalFailure else kNonFatalFailure) \<and> contains r substr)"
proof -
  have "fst c = fatal \<longleftrightarrow> helper_type (report_of c) = (if fatal then kFatalFailure else kNonFatalFailure)" for c
    by (simp add: report_type)
  moreover have "map report_of xs = [r] \<longleftrightarrow> (\<exists>c. xs = [c] \<and> r = report_of c)" for xs r
    by (cases xs) auto
  ultimately show ?thesis unfolding fails_once_def failures_def by blast
qed

lemma checks_checked:
  assumes "checks_failures contains lib" and "st s = (out, s\<lparr>reports := reports s @ failures cs\<rparr>)"
  shows "\<exists>rs. checked lib mode (if fatal then kFatalFailure else kNonFatalFailure) st substr s = (out, s\<lparr>reports := reports s @ rs\<rparr>)
    \<and> (if fails_once contains fatal substr cs then rs = [] else \<exists>r. rs = [r] \<and> helper_type r = kNonFatalFailure)"
proof -
  have "checked lib mode (if fatal then kFatalFailure else kNonFatalFailure) st substr s
    = (out, s\<lparr>reports := reports s @ SingleFailureChecker lib (failures cs) (if fatal then kFatalFailure else kNonFatalFailure) substr\<rparr>)"
    using assms by (simp add: checked_def intercepted_def checks_failures_def)
  then show ?thesis
    using assms(1) by (simp only: fails_once_report checks_failures_def) blast
qed

text \<open>
  C39. A list of assertions under the macros that expect a failure. No failure of them reaches the
  result of the test: the macro adds nothing if exactly one assertion that is reached fails and is of the expected kind with the text in its
  report, and one nonfatal failure otherwise. Under \<open>EXPECT_FATAL_FAILURE\<close> the test goes on in every case;
  under \<open>EXPECT_NONFATAL_FAILURE\<close> a failing \<open>ASSERT\<close> still ends the function of the test, after the verdict. With one
  thread the versions for all threads do the same.
\<close>

theorem expected_failures:
  assumes "checks_failures contains lib"
  shows "(\<exists>rs. block (EXPECT_FATAL_FAILURE lib (block (map check cs)) substr # rest) s = block rest (s\<lparr>reports := reports s @ rs\<rparr>)
      \<and> (if fails_once contains True substr cs then rs = [] else \<exists>r. rs = [r] \<and> helper_type r = kNonFatalFailure))
    \<and> (\<exists>rs. block (EXPECT_NONFATAL_FAILURE lib (block (map check cs)) substr # rest) s
        = (if \<exists>c \<in> set cs. stops c then (Returned, s\<lparr>reports := reports s @ rs\<rparr>) else block rest (s\<lparr>reports := reports s @ rs\<rparr>))
      \<and> (if fails_once contains False substr cs then rs = [] else \<exists>r. rs = [r] \<and> helper_type r = kNonFatalFailure))
    \<and> EXPECT_FATAL_FAILURE_ON_ALL_THREADS lib (block (map check cs)) substr s = EXPECT_FATAL_FAILURE lib (block (map check cs)) substr s
    \<and> EXPECT_NONFATAL_FAILURE_ON_ALL_THREADS lib (block (map check cs)) substr s = EXPECT_NONFATAL_FAILURE lib (block (map check cs)) substr s"
proof -
  let ?s = "s\<lparr>reports := reports s @ failures cs\<rparr>" and ?body = "block (map check cs)"
  have run: "?body s = (if \<exists>c \<in> set cs. stops c then Returned else Done, ?s)"
    using checks_run [of cs "[]" s] by (simp add: skip_def)
  have called: "call ?body s = (Done, ?s)" using run by (simp add: call_def)
  obtain rs where "EXPECT_FATAL_FAILURE lib ?body substr s = (Done, s\<lparr>reports := reports s @ rs\<rparr>)"
    and "if fails_once contains True substr cs then rs = [] else \<exists>r. rs = [r] \<and> helper_type r = kNonFatalFailure"
    using checks_checked [where st = "call ?body" and cs = cs and fatal = True and substr = substr, OF assms called] by (auto simp: EXPECT_FATAL_FAILURE_def)
  moreover obtain qs where "EXPECT_NONFATAL_FAILURE lib ?body substr s
      = (if \<exists>c \<in> set cs. stops c then Returned else Done, s\<lparr>reports := reports s @ qs\<rparr>)"
    and "if fails_once contains False substr cs then qs = [] else \<exists>r. qs = [r] \<and> helper_type r = kNonFatalFailure"
    using checks_checked [where st = ?body and cs = cs and fatal = False and substr = substr, OF assms run] by (auto simp: EXPECT_NONFATAL_FAILURE_def)
  moreover have "caught lib m = (\<lambda>_. True)" for m using assms by (auto simp: checks_failures_def)
  ultimately show ?thesis
    by (intro conjI exI [of _ rs] exI [of _ qs]) (simp_all add: followed_by_def spi_defs split: if_splits)
qed

text \<open>A library that judges by the message the assertion reports.\<close>

definition sample_library :: spi_library where
  "sample_library = \<lparr>caught = (\<lambda>_ _. True), SingleFailureChecker = (\<lambda>rs ty substr. case rs of
       [r] \<Rightarrow> if helper_type r = ty \<and> helper_message r = substr then [] else [r\<lparr>helper_type := kNonFatalFailure\<rparr>]
     | _ \<Rightarrow> [\<lparr>helper_type = kNonFatalFailure, helper_file = [], helper_line = 0, helper_message = ''Expected: 1 failure'', streamed = []\<rparr>])\<rparr>"

theorem expected_failures_witness:
  "\<exists>site. block [EXPECT_FATAL_FAILURE sample_library (block (map check [(True, AssertionResult False, site)])) []] \<lparr>reports = [], user = ()\<rparr>
    = (Done, \<lparr>reports = [], user = ()\<rparr>)"
proof -
  let ?site = "(CodeLocation ''t.cc'' 1, []) :: place" and ?s = "\<lparr>reports = [], user = ()\<rparr>"
  have lib: "checks_failures (\<lambda>r substr. helper_message r = substr) sample_library"
    by (auto simp: checks_failures_def sample_library_def split: list.splits)
  have once: "fails_once (\<lambda>r substr. helper_message r = substr) True [] [(True, AssertionResult False, ?site)]"
    by (simp add: fails_once_def fails_def stops_def report_of_def AssertionResult_def AssertionResult_bool_def failure_message_def
        AssertionResult_message_def split: prod.split)
  show ?thesis
    using expected_failures [OF lib, of "[(True, AssertionResult False, ?site)]" "[]" "[]" ?s] once
    by (intro exI [of _ ?site]) (simp add: skip_def)
qed

end
