(* ===== verification/Gtest_Matchers.thy ===== *)
theory Gtest_Matchers
  imports Prelude
begin

section \<open>Matchers (gtest-matchers.h)\<close>

text \<open>
  A \<open>Matcher\<close> holds its implementation in a small buffer: in place when the type is
  trivial and fits, otherwise in a payload on the heap that copies share and count. Here
  matchers and payloads live in a store, so that the counting, the freeing and the
  aliasing of assignments are visible; the abstract view is a plain value in each matcher.
\<close>

subsection \<open>Listeners and implementations\<close>

text \<open>A listener is its stream, of which we see the text; \<open>None\<close> is the null pointer.\<close>

type_synonym listener = "string option"

definition MatchResultListener :: "string option \<Rightarrow> listener" where
  "MatchResultListener os = os"

definition listener_put :: "listener \<Rightarrow> string \<Rightarrow> listener" where
  "listener_put l x = (case l of None \<Rightarrow> None | Some s \<Rightarrow> Some (s @ x))"

definition IsInterested :: "listener \<Rightarrow> bool" where
  "IsInterested l \<longleftrightarrow> l \<noteq> None"

definition DummyMatchResultListener :: listener where
  "DummyMatchResultListener = MatchResultListener None"

definition StreamMatchResultListener :: "string \<Rightarrow> listener" where
  "StreamMatchResultListener os = MatchResultListener (Some os)"

text \<open>
  The object a matcher captures, an instance of \<open>MatcherInterface\<close> or of a class with the same
  members: its functions and what the policies ask of its type: whether it is a
  describer, whether it comes as a pointer to \<open>MatcherInterface\<close>, its size, alignment and
  triviality. A description is what it adds to the stream.
\<close>

record 'x impl =
  match_and_explain :: "'x \<Rightarrow> listener \<Rightarrow> bool \<times> listener"
  describe :: string
  describe_negation :: string
  is_describer :: bool
  by_pointer :: bool
  type_size :: nat
  type_align :: nat
  trivial_copy :: bool
  trivial_destructor :: bool

text \<open>The negation of a describer that does not override it.\<close>

definition default_negation :: "string \<Rightarrow> string" where
  "default_negation description = ''not ('' @ description @ '')''"

text \<open>
  A type goes into the buffer of 8 bytes aligned to 8 when it fits and is trivial; the
  specialisation for pointers to \<open>MatcherInterface\<close> never uses the buffer.
\<close>

definition IsInlined :: "'x impl \<Rightarrow> bool" where
  "IsInlined i \<longleftrightarrow> type_size i \<le> 8 \<and> type_align i \<le> 8 \<and> trivial_copy i \<and> trivial_destructor i"

definition inlined :: "'x impl \<Rightarrow> bool" where
  "inlined i \<longleftrightarrow> \<not> by_pointer i \<and> IsInlined i"

subsection \<open>Payloads and matchers in a store\<close>

record 'x payload =
  ref_count :: int
  captured :: "'x impl"

datatype 'x buffer = Garbage | In_place "'x impl" | Shared nat

text \<open>Of the table of functions only whether \<open>shared_destroy\<close> is set differs between the policies.\<close>

record vtable =
  shared_destroy :: bool

record 'x matcherBase =
  vtable_m :: "vtable option"
  buffer_m :: "'x buffer"

text \<open>Addresses are positions; what has been freed or destroyed is \<open>None\<close>.\<close>

record 'x store =
  payloads :: "'x payload option list"
  matchers :: "'x matcherBase option list"

definition payload_at :: "nat \<Rightarrow> ('x store, 'x payload) cpp" where
  "payload_at p = bnd (get payloads) (\<lambda>ps.
     if p < length ps then (case ps ! p of None \<Rightarrow> fail (Undefined Dangling) | Some pl \<Rightarrow> ret pl)
     else fail (Undefined Dangling))"

definition matcher_at :: "nat \<Rightarrow> ('x store, 'x matcherBase) cpp" where
  "matcher_at a = bnd (get matchers) (\<lambda>ms.
     if a < length ms then (case ms ! a of None \<Rightarrow> fail (Undefined Dangling) | Some m \<Rightarrow> ret m)
     else fail (Undefined Dangling))"

definition set_matcher :: "nat \<Rightarrow> 'x matcherBase option \<Rightarrow> ('x store, unit) cpp" where
  "set_matcher a m = upd (\<lambda>st. st\<lparr>matchers := (matchers st)[a := m]\<rparr>)"

definition set_payload :: "nat \<Rightarrow> 'x payload option \<Rightarrow> ('x store, unit) cpp" where
  "set_payload p pl = upd (\<lambda>st. st\<lparr>payloads := (payloads st)[p := pl]\<rparr>)"

definition Ref :: "nat \<Rightarrow> ('x store, unit) cpp" where
  "Ref p = bnd (payload_at p) (\<lambda>pl. set_payload p (Some (pl\<lparr>ref_count := ref_count pl + 1\<rparr>)))"

definition Unref :: "nat \<Rightarrow> ('x store, bool) cpp" where
  "Unref p = bnd (payload_at p) (\<lambda>pl.
     seq (set_payload p (Some (pl\<lparr>ref_count := ref_count pl - 1\<rparr>))) (ret (ref_count pl = 1)))"

definition SharedPayload :: "'x impl \<Rightarrow> ('x store, nat) cpp" where
  "SharedPayload v = bnd (get (\<lambda>st. length (payloads st))) (\<lambda>p.
     seq (upd (\<lambda>st. st\<lparr>payloads := payloads st @ [Some \<lparr>ref_count = 1, captured = v\<rparr>]\<rparr>)) (ret p))"

definition SharedPayload_Destroy :: "nat \<Rightarrow> ('x store, unit) cpp" where
  "SharedPayload_Destroy p = seq (payload_at p) (set_payload p None)"

definition IsShared :: "'x matcherBase \<Rightarrow> bool" where
  "IsShared m \<longleftrightarrow> (case vtable_m m of None \<Rightarrow> False | Some t \<Rightarrow> shared_destroy t)"

text \<open>\<open>buffer_.shared\<close>, where the union holds a payload.\<close>

definition buffer_shared :: "'x matcherBase \<Rightarrow> ('x store, nat) cpp" where
  "buffer_shared m = (case buffer_m m of Shared p \<Rightarrow> ret p | _ \<Rightarrow> fail (Undefined Dangling))"

definition ref_if_shared :: "'x matcherBase \<Rightarrow> ('x store, unit) cpp" where
  "ref_if_shared m = (if IsShared m then bnd (buffer_shared m) Ref else ret ())"

definition Destroy :: "'x matcherBase \<Rightarrow> ('x store, unit) cpp" where
  "Destroy m =
     (if IsShared m then
        bnd (buffer_shared m) (\<lambda>p.
        bnd (Unref p) (\<lambda>last. if last then SharedPayload_Destroy p else ret ()))
      else ret ())"

subsection \<open>Construction, copying, moving and destruction\<close>

definition new_matcher :: "'x matcherBase \<Rightarrow> ('x store, nat) cpp" where
  "new_matcher m = bnd (get (\<lambda>st. length (matchers st))) (\<lambda>a.
     seq (upd (\<lambda>st. st\<lparr>matchers := matchers st @ [Some m]\<rparr>)) (ret a))"

definition MatcherBase :: "'x matcherBase" where
  "MatcherBase = \<lparr>vtable_m = None, buffer_m = Garbage\<rparr>"

definition GetVTable :: "'x impl \<Rightarrow> vtable" where
  "GetVTable i = \<lparr>shared_destroy = \<not> inlined i\<rparr>"

definition ValuePolicy_Init :: "'x impl \<Rightarrow> ('x store, 'x buffer) cpp" where
  "ValuePolicy_Init i = (if inlined i then ret (In_place i) else bnd (SharedPayload i) (\<lambda>p. ret (Shared p)))"

definition Init :: "'x impl \<Rightarrow> 'x matcherBase \<Rightarrow> ('x store, 'x matcherBase) cpp" where
  "Init i m = bnd (ValuePolicy_Init i) (\<lambda>b. ret (m\<lparr>vtable_m := Some (GetVTable i), buffer_m := b\<rparr>))"

definition construct :: "'x impl \<Rightarrow> ('x store, nat) cpp" where
  "construct i = bnd (Init i MatcherBase) new_matcher"

definition copy_construct :: "nat \<Rightarrow> ('x store, nat) cpp" where
  "copy_construct other = bnd (matcher_at other) (\<lambda>m. seq (ref_if_shared m) (new_matcher m))"

definition copy_assign :: "nat \<Rightarrow> nat \<Rightarrow> ('x store, unit) cpp" where
  "copy_assign this other =
     (if this = other then ret ()
      else bnd (matcher_at this) (\<lambda>old.
           seq (Destroy old)
           (bnd (matcher_at other) (\<lambda>m.
            seq (set_matcher this (Some m)) (ref_if_shared m)))))"

definition move_construct :: "nat \<Rightarrow> ('x store, nat) cpp" where
  "move_construct other = bnd (matcher_at other) (\<lambda>m.
     seq (set_matcher other (Some (m\<lparr>vtable_m := None\<rparr>))) (new_matcher m))"

definition move_assign :: "nat \<Rightarrow> nat \<Rightarrow> ('x store, unit) cpp" where
  "move_assign this other =
     (if this = other then ret ()
      else bnd (matcher_at this) (\<lambda>old.
           seq (Destroy old)
           (bnd (matcher_at other) (\<lambda>m.
            seq (set_matcher this (Some m)) (set_matcher other (Some (m\<lparr>vtable_m := None\<rparr>)))))))"

definition destructor :: "nat \<Rightarrow> ('x store, unit) cpp" where
  "destructor a = bnd (matcher_at a) (\<lambda>m. seq (Destroy m) (set_matcher a None))"

subsection \<open>Use\<close>

definition null_vtable :: fault where
  "null_vtable = Abort ''Condition vtable_ != nullptr failed.''"

definition ValuePolicy_Get :: "'x matcherBase \<Rightarrow> ('x store, 'x impl) cpp" where
  "ValuePolicy_Get m =
     (if IsShared m then bnd (buffer_shared m) (\<lambda>p. bnd (payload_at p) (\<lambda>pl. ret (captured pl)))
      else (case buffer_m m of In_place i \<Rightarrow> ret i | _ \<Rightarrow> fail (Undefined Dangling)))"

definition held_impl :: "nat \<Rightarrow> ('x store, 'x impl) cpp" where
  "held_impl a = bnd (matcher_at a) (\<lambda>m. if vtable_m m = None then fail null_vtable else ValuePolicy_Get m)"

definition MatchAndExplain :: "nat \<Rightarrow> 'x \<Rightarrow> listener \<Rightarrow> ('x store, bool \<times> listener) cpp" where
  "MatchAndExplain a x l = bnd (held_impl a) (\<lambda>i. ret (match_and_explain i x l))"

definition Matches :: "nat \<Rightarrow> 'x \<Rightarrow> ('x store, bool) cpp" where
  "Matches a x = bnd (MatchAndExplain a x DummyMatchResultListener) (\<lambda>r. ret (fst r))"

definition ExplainMatchResultTo :: "nat \<Rightarrow> 'x \<Rightarrow> string \<Rightarrow> ('x store, listener) cpp" where
  "ExplainMatchResultTo a x os = bnd (MatchAndExplain a x (StreamMatchResultListener os)) (\<lambda>r. ret (snd r))"

definition DescribeImpl :: "'x impl \<Rightarrow> string \<Rightarrow> bool \<Rightarrow> string" where
  "DescribeImpl i os negation = os @ (if negation then describe_negation i else describe i)"

definition DescribeTo :: "nat \<Rightarrow> string \<Rightarrow> ('x store, string) cpp" where
  "DescribeTo a os = bnd (held_impl a) (\<lambda>i. ret (DescribeImpl i os False))"

definition DescribeNegationTo :: "nat \<Rightarrow> string \<Rightarrow> ('x store, string) cpp" where
  "DescribeNegationTo a os = bnd (held_impl a) (\<lambda>i. ret (DescribeImpl i os True))"

text \<open>The describer of a matcher: none, the captured object, or the matcher itself.\<close>

datatype 'x describer = No_describer | Captured "'x impl" | Itself nat

definition GetDescriber :: "nat \<Rightarrow> ('x store, 'x describer) cpp" where
  "GetDescriber a = bnd (matcher_at a) (\<lambda>m.
     if vtable_m m = None then ret No_describer
     else bnd (ValuePolicy_Get m) (\<lambda>i. ret (if is_describer i then Captured i else Itself a)))"

text \<open>\<open>operator<<\<close> of a matcher.\<close>

definition matcher_print :: "string \<Rightarrow> nat \<Rightarrow> ('x store, string) cpp" where
  "matcher_print os a = DescribeTo a os"

subsection \<open>Comparison matchers\<close>

text \<open>
  The operators between the matched type and the type of the given value, and what the
  given value's type brings along: its printer and its layout.
\<close>

record ('l, 'r) operators =
  op_eq :: "'l \<Rightarrow> 'r \<Rightarrow> bool"
  op_ne :: "'l \<Rightarrow> 'r \<Rightarrow> bool"
  op_lt :: "'l \<Rightarrow> 'r \<Rightarrow> bool"
  op_gt :: "'l \<Rightarrow> 'r \<Rightarrow> bool"
  op_le :: "'l \<Rightarrow> 'r \<Rightarrow> bool"
  op_ge :: "'l \<Rightarrow> 'r \<Rightarrow> bool"

record 'r layout =
  UniversalPrint :: "'r \<Rightarrow> string"
  rhs_size :: nat
  rhs_align :: nat
  rhs_trivial_copy :: bool
  rhs_trivial_destructor :: bool

definition ComparisonBase :: "'r layout \<Rightarrow> ('l \<Rightarrow> 'r \<Rightarrow> bool) \<Rightarrow> string \<Rightarrow> string \<Rightarrow> 'r \<Rightarrow> 'l impl" where
  "ComparisonBase ty op desc negated_desc rhs =
     \<lparr>match_and_explain = (\<lambda>lhs l. (op lhs rhs, l)), describe = desc @ '' '' @ UniversalPrint ty rhs,
      describe_negation = negated_desc @ '' '' @ UniversalPrint ty rhs, is_describer = False, by_pointer = False,
      type_size = rhs_size ty, type_align = rhs_align ty, trivial_copy = rhs_trivial_copy ty,
      trivial_destructor = rhs_trivial_destructor ty\<rparr>"

definition EqMatcher :: "'r layout \<Rightarrow> ('l, 'r) operators \<Rightarrow> 'r \<Rightarrow> 'l impl" where
  "EqMatcher ty ops = ComparisonBase ty (op_eq ops) ''is equal to'' ''isn't equal to''"

definition NeMatcher :: "'r layout \<Rightarrow> ('l, 'r) operators \<Rightarrow> 'r \<Rightarrow> 'l impl" where
  "NeMatcher ty ops = ComparisonBase ty (op_ne ops) ''isn't equal to'' ''is equal to''"

definition LtMatcher :: "'r layout \<Rightarrow> ('l, 'r) operators \<Rightarrow> 'r \<Rightarrow> 'l impl" where
  "LtMatcher ty ops = ComparisonBase ty (op_lt ops) ''is <'' ''isn't <''"

definition GtMatcher :: "'r layout \<Rightarrow> ('l, 'r) operators \<Rightarrow> 'r \<Rightarrow> 'l impl" where
  "GtMatcher ty ops = ComparisonBase ty (op_gt ops) ''is >'' ''isn't >''"

definition LeMatcher :: "'r layout \<Rightarrow> ('l, 'r) operators \<Rightarrow> 'r \<Rightarrow> 'l impl" where
  "LeMatcher ty ops = ComparisonBase ty (op_le ops) ''is <='' ''isn't <=''"

definition GeMatcher :: "'r layout \<Rightarrow> ('l, 'r) operators \<Rightarrow> 'r \<Rightarrow> 'l impl" where
  "GeMatcher ty ops = ComparisonBase ty (op_ge ops) ''is >='' ''isn't >=''"

definition Eq :: "'r layout \<Rightarrow> ('l, 'r) operators \<Rightarrow> 'r \<Rightarrow> 'l impl" where
  "Eq ty ops x = EqMatcher ty ops x"

definition Ge :: "'r layout \<Rightarrow> ('l, 'r) operators \<Rightarrow> 'r \<Rightarrow> 'l impl" where
  "Ge ty ops x = GeMatcher ty ops x"

definition Gt :: "'r layout \<Rightarrow> ('l, 'r) operators \<Rightarrow> 'r \<Rightarrow> 'l impl" where
  "Gt ty ops x = GtMatcher ty ops x"

definition Le :: "'r layout \<Rightarrow> ('l, 'r) operators \<Rightarrow> 'r \<Rightarrow> 'l impl" where
  "Le ty ops x = LeMatcher ty ops x"

definition Lt :: "'r layout \<Rightarrow> ('l, 'r) operators \<Rightarrow> 'r \<Rightarrow> 'l impl" where
  "Lt ty ops x = LtMatcher ty ops x"

definition Ne :: "'r layout \<Rightarrow> ('l, 'r) operators \<Rightarrow> 'r \<Rightarrow> 'l impl" where
  "Ne ty ops x = NeMatcher ty ops x"

text \<open>
  A matcher made from a value starts empty and is then assigned a temporary matcher, which
  is moved from and destroyed.
\<close>

definition Matcher_of_value :: "'r layout \<Rightarrow> ('l, 'r) operators \<Rightarrow> 'r \<Rightarrow> ('l store, nat) cpp" where
  "Matcher_of_value ty ops v =
     bnd (new_matcher MatcherBase) (\<lambda>this.
     bnd (construct (Eq ty ops v)) (\<lambda>tmp.
     seq (move_assign this tmp) (seq (destructor tmp) (ret this))))"

definition TypedEq :: "'r layout \<Rightarrow> ('l, 'r) operators \<Rightarrow> 'r \<Rightarrow> ('l store, nat) cpp" where
  "TypedEq ty ops rhs = construct (Eq ty ops rhs)"

subsection \<open>Polymorphic matchers and regular expressions\<close>

text \<open>
  A polymorphic matcher is the captured object; converting it allocates an adapter that
  passes every call on and hands its pointer to the matcher.
\<close>

definition MonomorphicImpl :: "'x impl \<Rightarrow> 'x impl" where
  "MonomorphicImpl i = i\<lparr>is_describer := True, by_pointer := True\<rparr>"

definition PolymorphicMatcher_convert :: "'x impl \<Rightarrow> ('x store, nat) cpp" where
  "PolymorphicMatcher_convert i = construct (MonomorphicImpl i)"

definition MakeMatcher :: "'x impl \<Rightarrow> ('x store, nat) cpp" where
  "MakeMatcher i = construct i"

text \<open>Regular expressions belong to the C library: an expression is its pattern and its two ways to match.\<close>

record regex =
  re_pattern :: string
  FullMatch :: "string \<Rightarrow> bool"
  PartialMatch :: "string \<Rightarrow> bool"

record matchesRegexMatcher =
  regex_m :: regex
  full_match :: bool

definition regex_match :: "matchesRegexMatcher \<Rightarrow> string \<Rightarrow> bool" where
  "regex_match m s = (if full_match m then FullMatch (regex_m m) s else PartialMatch (regex_m m) s)"

definition regex_match_pointer :: "matchesRegexMatcher \<Rightarrow> string option \<Rightarrow> bool" where
  "regex_match_pointer m s = (case s of None \<Rightarrow> False | Some t \<Rightarrow> regex_match m t)"

definition regex_describe :: "(string \<Rightarrow> string) \<Rightarrow> matchesRegexMatcher \<Rightarrow> string" where
  "regex_describe print m =
     (if full_match m then ''matches'' else ''contains'') @ '' regular expression '' @ print (re_pattern (regex_m m))"

definition regex_describe_negation :: "(string \<Rightarrow> string) \<Rightarrow> matchesRegexMatcher \<Rightarrow> string" where
  "regex_describe_negation print m =
     ''doesn't '' @ (if full_match m then ''match'' else ''contain'') @ '' regular expression '' @ print (re_pattern (regex_m m))"

definition MatchesRegex :: "regex \<Rightarrow> matchesRegexMatcher" where
  "MatchesRegex re = \<lparr>regex_m = re, full_match = True\<rparr>"

definition ContainsRegex :: "regex \<Rightarrow> matchesRegexMatcher" where
  "ContainsRegex re = \<lparr>regex_m = re, full_match = False\<rparr>"

subsection \<open>Programs over matchers\<close>

text \<open>Every way in which a program creates, copies, assigns, moves and destroys matchers.\<close>

datatype 'x matcher_op =
    Default
  | Construct "'x impl"
  | Copy nat
  | Move nat
  | Assign nat nat
  | Move_assign nat nat
  | Destruct nat

fun perform :: "'x matcher_op \<Rightarrow> ('x store, unit) cpp" where
  "perform Default = seq (new_matcher MatcherBase) (ret ())"
| "perform (Construct i) = seq (construct i) (ret ())"
| "perform (Copy a) = seq (copy_construct a) (ret ())"
| "perform (Move a) = seq (move_construct a) (ret ())"
| "perform (Assign a b) = copy_assign a b"
| "perform (Move_assign a b) = move_assign a b"
| "perform (Destruct a) = destructor a"

text \<open>
  The abstract view: each matcher is destroyed (\<open>None\<close>), empty (\<open>Some None\<close>) or holds a
  value of its own, and the operations are those of a variable with a value.
\<close>

type_synonym 'x view = "'x impl option option list"

definition live :: "'a option list \<Rightarrow> nat \<Rightarrow> bool" where
  "live v a \<longleftrightarrow> a < length v \<and> v ! a \<noteq> None"

fun op_live :: "'a option list \<Rightarrow> 'x matcher_op \<Rightarrow> bool" where
  "op_live v (Copy a) = live v a"
| "op_live v (Move a) = live v a"
| "op_live v (Assign a b) = (live v a \<and> live v b)"
| "op_live v (Move_assign a b) = (live v a \<and> live v b)"
| "op_live v (Destruct a) = live v a"
| "op_live v _ = True"

fun view_op :: "'x matcher_op \<Rightarrow> 'x view \<Rightarrow> 'x view" where
  "view_op Default v = v @ [Some None]"
| "view_op (Construct i) v = v @ [Some (Some i)]"
| "view_op (Copy a) v = v @ [v ! a]"
| "view_op (Move a) v = v[a := Some None] @ [v ! a]"
| "view_op (Assign a b) v = v[a := v ! b]"
| "view_op (Move_assign a b) v = (if a = b then v else (v[a := v ! b])[b := Some None])"
| "view_op (Destruct a) v = v[a := None]"

definition pay :: "'x payload option list \<Rightarrow> nat \<Rightarrow> 'x payload option" where
  "pay ps p = (if p < length ps then ps ! p else None)"

definition content :: "'x payload option list \<Rightarrow> 'x matcherBase \<Rightarrow> 'x impl option" where
  "content ps m = (if vtable_m m = None then None
     else case buffer_m m of In_place i \<Rightarrow> Some i | Shared p \<Rightarrow> map_option captured (pay ps p) | Garbage \<Rightarrow> None)"

definition view :: "'x store \<Rightarrow> 'x view" where
  "view st = map (map_option (content (payloads st))) (matchers st)"

subsection \<open>References are counted\<close>

definition points :: "'x matcherBase option \<Rightarrow> nat \<Rightarrow> int" where
  "points m p = (case m of None \<Rightarrow> 0 | Some m \<Rightarrow> of_bool (IsShared m \<and> buffer_m m = Shared p))"

definition refs :: "'x matcherBase option list \<Rightarrow> nat \<Rightarrow> int" where
  "refs ms p = sum_list (map (\<lambda>m. points m p) ms)"

definition shaped :: "'x matcherBase option \<Rightarrow> bool" where
  "shaped m \<longleftrightarrow> (case m of None \<Rightarrow> True | Some m \<Rightarrow> (case vtable_m m of None \<Rightarrow> True
     | Some t \<Rightarrow> if shared_destroy t then \<exists>p. buffer_m m = Shared p else \<exists>i. buffer_m m = In_place i))"

text \<open>Every payload that exists counts its references, and one with none does not exist.\<close>

definition counts :: "'x payload option list \<Rightarrow> (nat \<Rightarrow> int) \<Rightarrow> bool" where
  "counts ps n \<longleftrightarrow> (\<forall>p. case pay ps p of None \<Rightarrow> n p = 0 | Some pl \<Rightarrow> ref_count pl = n p \<and> 0 < n p)"

definition store_ok :: "'x store \<Rightarrow> bool" where
  "store_ok st \<longleftrightarrow> (\<forall>m \<in> set (matchers st). shaped m) \<and> counts (payloads st) (refs (matchers st))"

definition same_captured :: "(nat \<Rightarrow> int) \<Rightarrow> 'x payload option list \<Rightarrow> 'x payload option list \<Rightarrow> bool" where
  "same_captured n ps ps' \<longleftrightarrow> (\<forall>p. 0 < n p \<longrightarrow> map_option captured (pay ps' p) = map_option captured (pay ps p))"

lemma pay_update [simp]: "p < length ps \<Longrightarrow> pay (ps[p := x]) q = (if q = p then x else pay ps q)"
  by (simp add: pay_def)

lemma pay_snoc [simp]: "pay (ps @ [x]) q = (if q = length ps then x else pay ps q)"
  by (simp add: pay_def nth_append)

lemma pay_past [simp]: "pay ps (length ps) = None"
  by (simp add: pay_def)

lemma points_nonneg: "0 \<le> points m p"
  by (simp add: points_def split: option.split)

lemma refs_member: "m \<in> set ms \<Longrightarrow> points m p \<le> refs ms p"
  unfolding refs_def by (intro member_le_sum_list) (auto simp: points_nonneg)

lemma refs_snoc: "refs (ms @ [m]) = (\<lambda>p. refs ms p + points m p)"
  by (simp add: refs_def fun_eq_iff)

lemma refs_update: "a < length ms \<Longrightarrow> refs (ms[a := m]) = (\<lambda>p. refs ms p - points (ms ! a) p + points m p)"
proof (induction ms arbitrary: a)
  case (Cons x ms)
  then show ?case by (cases a) (auto simp: refs_def fun_eq_iff)
qed simp

lemma payload_at_run: "payload_at p st =
    (case pay (payloads st) p of None \<Rightarrow> (Inl (Undefined Dangling), st) | Some pl \<Rightarrow> (Inr pl, st))"
  by (simp add: payload_at_def bnd_app pay_def split: option.split)

lemma matcher_at_live: "live (matchers st) a \<Longrightarrow> matcher_at a st = (Inr (the (matchers st ! a)), st)"
  by (auto simp: matcher_at_def bnd_app live_def)

lemma same_captured_refl [simp]: "same_captured n ps ps"
  by (simp add: same_captured_def)

lemma same_captured_trans:
  "same_captured n ps ps' \<Longrightarrow> same_captured n' ps' ps'' \<Longrightarrow> (\<And>p. 0 < n' p \<Longrightarrow> 0 < n p) \<Longrightarrow> same_captured n' ps ps''"
  by (simp add: same_captured_def)

lemma shaped_shared:
  assumes "shaped (Some m)" and "IsShared m" obtains p where "buffer_m m = Shared p"
  using assms by (auto simp: shaped_def IsShared_def split: option.splits)

lemma content_kept:
  assumes "same_captured (refs ms) ps ps'" and "\<forall>m \<in> set ms. shaped m"
  shows "map (map_option (content ps')) ms = map (map_option (content ps)) ms"
proof (intro map_cong refl option.map_cong0)
  fix om m assume om: "om \<in> set ms" "m \<in> set_option om"
  then have m: "om = Some m" by simp
  show "content ps' m = content ps m"
  proof (cases "IsShared m")
    case True
    then obtain p where p: "buffer_m m = Shared p"
      using assms(2) om m shaped_shared by metis
    then have "points om p = 1" using True m by (simp add: points_def)
    then have "0 < refs ms p" using refs_member [OF om(1), of p] by simp
    then show ?thesis using assms(1) by (simp add: content_def p same_captured_def)
  next
    case False
    moreover have "shaped (Some m)" using assms(2) om m by blast
    ultimately show ?thesis by (auto simp: content_def IsShared_def shaped_def split: option.splits if_splits)
  qed
qed

subsection \<open>What each operation does to the counts\<close>

lemma ref_if_shared_run:
  assumes "counts (payloads st) n" and "shaped (Some m)" and "\<And>p. points (Some m) p = 1 \<Longrightarrow> 0 < n p"
  shows "\<exists>ps'. ref_if_shared m st = (Inr (), st\<lparr>payloads := ps'\<rparr>)
    \<and> counts ps' (\<lambda>p. n p + points (Some m) p) \<and> same_captured (\<lambda>p. n p + points (Some m) p) (payloads st) ps'"
proof (cases "IsShared m")
  case False
  then show ?thesis using assms(1)
    by (intro exI [of _ "payloads st"]) (simp add: ref_if_shared_def points_def)
next
  case True
  then obtain p where p: "buffer_m m = Shared p" using assms(2) shaped_shared by metis
  have pts: "points (Some m) q = of_bool (q = p)" for q using True p by (auto simp: points_def)
  then have "0 < n p" using assms(3) by simp
  then obtain pl where pl: "pay (payloads st) p = Some pl"
    using assms(1) by (fastforce simp: counts_def split: option.splits)
  then have lt: "p < length (payloads st)" by (simp add: pay_def split: if_splits)
  let ?ps = "(payloads st)[p := Some (pl\<lparr>ref_count := ref_count pl + 1\<rparr>)]"
  have "ref_if_shared m st = (Inr (), st\<lparr>payloads := ?ps\<rparr>)"
    using True p pl by (simp add: ref_if_shared_def bnd_app buffer_shared_def Ref_def payload_at_run set_payload_def)
  moreover have "counts ?ps (\<lambda>q. n q + points (Some m) q)"
    unfolding counts_def
  proof
    fix q
    show "case pay ?ps q of None \<Rightarrow> n q + points (Some m) q = 0
        | Some pl' \<Rightarrow> ref_count pl' = n q + points (Some m) q \<and> 0 < n q + points (Some m) q"
      using assms(1) [unfolded counts_def, rule_format, of q] pl lt pts by (auto split: option.splits)
  qed
  moreover have "same_captured (\<lambda>q. n q + points (Some m) q) (payloads st) ?ps"
    using pl lt by (simp add: same_captured_def)
  ultimately show ?thesis by blast
qed

lemma Destroy_run:
  assumes "counts (payloads st) n" and "shaped (Some m)" and "\<And>p. points (Some m) p = 1 \<Longrightarrow> 0 < n p"
  shows "\<exists>ps'. Destroy m st = (Inr (), st\<lparr>payloads := ps'\<rparr>)
    \<and> counts ps' (\<lambda>p. n p - points (Some m) p) \<and> same_captured (\<lambda>p. n p - points (Some m) p) (payloads st) ps'"
proof (cases "IsShared m")
  case False
  then show ?thesis using assms(1)
    by (intro exI [of _ "payloads st"]) (simp add: Destroy_def points_def)
next
  case True
  then obtain p where p: "buffer_m m = Shared p" using assms(2) shaped_shared by metis
  have pts: "points (Some m) q = of_bool (q = p)" for q using True p by (auto simp: points_def)
  then have n: "0 < n p" using assms(3) by simp
  then obtain pl where pl: "pay (payloads st) p = Some pl"
    using assms(1) by (fastforce simp: counts_def split: option.splits)
  then have lt: "p < length (payloads st)" by (simp add: pay_def split: if_splits)
  have cnt: "ref_count pl = n p" using assms(1) pl by (fastforce simp: counts_def split: option.splits)
  let ?new = "if ref_count pl = 1 then None else Some (pl\<lparr>ref_count := ref_count pl - 1\<rparr>)"
  let ?ps = "(payloads st)[p := ?new]"
  have "Destroy m st = (Inr (), st\<lparr>payloads := ?ps\<rparr>)"
    using True p pl lt
    by (simp add: Destroy_def bnd_app seq_def buffer_shared_def Unref_def SharedPayload_Destroy_def payload_at_run set_payload_def)
  moreover have "counts ?ps (\<lambda>q. n q - points (Some m) q)"
    unfolding counts_def
  proof
    fix q
    show "case pay ?ps q of None \<Rightarrow> n q - points (Some m) q = 0
        | Some pl' \<Rightarrow> ref_count pl' = n q - points (Some m) q \<and> 0 < n q - points (Some m) q"
      using assms(1) [unfolded counts_def, rule_format, of q] pl lt pts cnt n by (auto split: option.splits)
  qed
  moreover have "same_captured (\<lambda>q. n q - points (Some m) q) (payloads st) ?ps"
    using pl lt pts cnt by (simp add: same_captured_def)
  ultimately show ?thesis by blast
qed

subsection \<open>Each operation does what it does on the view\<close>

text \<open>\<open>implements op st\<close>: the operation returns, keeps the counts and acts on the view as specified.\<close>

definition implements :: "'x matcher_op \<Rightarrow> 'x store \<Rightarrow> bool" where
  "implements op st \<longleftrightarrow> (\<exists>st'. perform op st = (Inr (), st') \<and> store_ok st' \<and> view st' = view_op op (view st))"

lemma live_view [simp]: "live (view st) a = live (matchers st) a"
  by (auto simp: view_def live_def)

lemma op_live_view [simp]: "op_live (view st) op = op_live (matchers st) op"
  by (cases op) simp_all

lemma member_ok:
  assumes "store_ok st" and "live (matchers st) a"
  obtains m where "matchers st ! a = Some m" and "a < length (matchers st)" and "shaped (Some m)"
    and "\<And>p. points (Some m) p \<le> refs (matchers st) p"
proof -
  obtain m where m: "matchers st ! a = Some m" and a: "a < length (matchers st)"
    using assms(2) by (auto simp: live_def)
  then have "Some m \<in> set (matchers st)" by (metis nth_mem)
  then show thesis using that m a assms(1) refs_member by (metis store_ok_def)
qed

lemma implementsI:
  assumes "perform op st = (Inr (), st')" and "\<forall>m \<in> set (matchers st'). shaped m"
    and "counts (payloads st') (refs (matchers st'))" and "same_captured (refs (matchers st')) (payloads st) (payloads st')"
    and "map (map_option (content (payloads st))) (matchers st') = view_op op (view st)"
  shows "implements op st"
  unfolding implements_def using assms content_kept [OF assms(4,2)] by (auto simp: store_ok_def view_def)

lemma empty_shaped [simp]: "shaped (Some (m\<lparr>vtable_m := None\<rparr>))" "points (Some (m\<lparr>vtable_m := None\<rparr>)) p = 0"
  "content ps (m\<lparr>vtable_m := None\<rparr>) = None" "shaped None" "points None p = 0"
  by (simp_all add: shaped_def points_def content_def IsShared_def)

lemma points_fresh [simp]: "points (Some MatcherBase) p = 0" "shaped (Some MatcherBase)" "content ps MatcherBase = None"
  by (simp_all add: MatcherBase_def points_def shaped_def content_def IsShared_def)

lemma implements_default:
  assumes "store_ok st" shows "implements Default st"
proof (rule implementsI)
  show "perform Default st = (Inr (), st\<lparr>matchers := matchers st @ [Some MatcherBase]\<rparr>)"
    by (simp add: new_matcher_def bnd_app seq_def)
qed (use assms in \<open>simp_all add: store_ok_def refs_snoc view_def ball_Un\<close>)

lemma no_refs_past_end: "counts ps n \<Longrightarrow> n (length ps) = 0"
  unfolding counts_def by (drule spec [of _ "length ps"]) simp

lemma implements_construct:
  assumes "store_ok st" shows "implements (Construct i) st"
proof (cases "inlined i")
  case True
  let ?m = "\<lparr>vtable_m = Some (GetVTable i), buffer_m = In_place i\<rparr>"
  have "points (Some ?m) p = 0" "shaped (Some ?m)" "content ps ?m = Some i" for p ps
    using True by (simp_all add: points_def IsShared_def GetVTable_def shaped_def content_def)
  then show ?thesis using assms True
    by (intro implementsI [where st' = "st\<lparr>matchers := matchers st @ [Some ?m]\<rparr>"])
      (auto simp: construct_def Init_def ValuePolicy_Init_def new_matcher_def bnd_app seq_def store_ok_def refs_snoc view_def
        MatcherBase_def)
next
  case False
  let ?p = "length (payloads st)"
  let ?m = "\<lparr>vtable_m = Some (GetVTable i), buffer_m = Shared ?p\<rparr>"
  let ?ps = "payloads st @ [Some \<lparr>ref_count = 1, captured = i\<rparr>]"
  have m: "points (Some ?m) q = of_bool (q = ?p)" "shaped (Some ?m)" "content ?ps ?m = Some i" for q
    using False by (auto simp: points_def IsShared_def GetVTable_def shaped_def content_def)
  have c: "counts (payloads st) (refs (matchers st))" using assms by (simp add: store_ok_def)
  have "counts ?ps (refs (matchers st @ [Some ?m]))"
    unfolding counts_def refs_snoc m
  proof
    fix q show "case pay ?ps q of None \<Rightarrow> refs (matchers st) q + of_bool (q = ?p) = 0
      | Some pl \<Rightarrow> ref_count pl = refs (matchers st) q + of_bool (q = ?p) \<and> 0 < refs (matchers st) q + of_bool (q = ?p)"
      using c [unfolded counts_def, rule_format, of q] no_refs_past_end [OF c] by (auto split: option.splits)
  qed
  moreover have "map (map_option (content ?ps)) (matchers st) = view st"
    using assms no_refs_past_end [OF c] unfolding view_def
    by (intro content_kept) (auto simp: same_captured_def store_ok_def)
  ultimately show ?thesis using assms False m
    unfolding implements_def
    by (intro exI [of _ "\<lparr>payloads = ?ps, matchers = matchers st @ [Some ?m]\<rparr>"])
      (auto simp: construct_def Init_def ValuePolicy_Init_def SharedPayload_def new_matcher_def bnd_app seq_def
        store_ok_def view_def MatcherBase_def)
qed

lemma implements_copy:
  assumes "store_ok st" and "live (matchers st) a" shows "implements (Copy a) st"
proof -
  obtain m where m: "matchers st ! a = Some m" "a < length (matchers st)" "shaped (Some m)"
    "\<And>p. points (Some m) p \<le> refs (matchers st) p" by (rule member_ok [OF assms]) blast
  have c: "counts (payloads st) (refs (matchers st))" using assms by (simp add: store_ok_def)
  have "\<And>p. points (Some m) p = 1 \<Longrightarrow> 0 < refs (matchers st) p" using m(4) by (metis zero_less_one order_less_le_trans)
  from ref_if_shared_run [OF c m(3) this] obtain ps where ps: "ref_if_shared m st = (Inr (), st\<lparr>payloads := ps\<rparr>)"
    "counts ps (\<lambda>p. refs (matchers st) p + points (Some m) p)"
    "same_captured (\<lambda>p. refs (matchers st) p + points (Some m) p) (payloads st) ps" by blast
  show ?thesis
    by (rule implementsI [where st' = "\<lparr>payloads = ps, matchers = matchers st @ [Some m]\<rparr>"])
      (use assms m ps in \<open>auto simp: copy_construct_def new_matcher_def bnd_app seq_def matcher_at_live refs_snoc
        store_ok_def view_def\<close>)
qed

lemma implements_move:
  assumes "store_ok st" and "live (matchers st) a" shows "implements (Move a) st"
proof -
  obtain m where m: "matchers st ! a = Some m" "a < length (matchers st)" "shaped (Some m)"
    "\<And>p. points (Some m) p \<le> refs (matchers st) p" by (rule member_ok [OF assms]) blast
  have "refs ((matchers st)[a := Some (m\<lparr>vtable_m := None\<rparr>)] @ [Some m]) = refs (matchers st)"
    using m by (simp add: refs_snoc refs_update fun_eq_iff)
  then show ?thesis using assms m
    by (intro implementsI [where st' = "st\<lparr>matchers := (matchers st)[a := Some (m\<lparr>vtable_m := None\<rparr>)] @ [Some m]\<rparr>"])
      (auto simp: move_construct_def new_matcher_def set_matcher_def bnd_app seq_def matcher_at_live store_ok_def view_def
        map_update dest!: in_set_butlastD [OF in_set_dropD] set_update_subset_insert [THEN subsetD])
qed

lemma implements_destruct:
  assumes "store_ok st" and "live (matchers st) a" shows "implements (Destruct a) st"
proof -
  obtain m where m: "matchers st ! a = Some m" "a < length (matchers st)" "shaped (Some m)"
    "\<And>p. points (Some m) p \<le> refs (matchers st) p" by (rule member_ok [OF assms]) blast
  have c: "counts (payloads st) (refs (matchers st))" using assms by (simp add: store_ok_def)
  have "\<And>p. points (Some m) p = 1 \<Longrightarrow> 0 < refs (matchers st) p" using m(4) by (metis zero_less_one order_less_le_trans)
  from Destroy_run [OF c m(3) this] obtain ps where ps: "Destroy m st = (Inr (), st\<lparr>payloads := ps\<rparr>)"
    "counts ps (\<lambda>p. refs (matchers st) p - points (Some m) p)"
    "same_captured (\<lambda>p. refs (matchers st) p - points (Some m) p) (payloads st) ps" by blast
  show ?thesis
    by (rule implementsI [where st' = "\<lparr>payloads = ps, matchers = (matchers st)[a := None]\<rparr>"])
      (use assms m ps in \<open>auto simp: destructor_def set_matcher_def bnd_app seq_def matcher_at_live refs_update
        store_ok_def view_def map_update dest!: set_update_subset_insert [THEN subsetD]\<close>)
qed

text \<open>The common part of both assignments: the old content goes, the other matcher is still live.\<close>

lemma assign_start:
  assumes "store_ok st" and "live (matchers st) a" and "live (matchers st) b" and "a \<noteq> b"
  obtains old m ps where "matchers st ! a = Some old" "matchers st ! b = Some m" "a < length (matchers st)" "b < length (matchers st)"
    "shaped (Some m)" "Destroy old st = (Inr (), st\<lparr>payloads := ps\<rparr>)"
    "counts ps (\<lambda>p. refs (matchers st) p - points (Some old) p)"
    "same_captured (\<lambda>p. refs (matchers st) p - points (Some old) p) (payloads st) ps"
    "\<And>p. points (Some m) p = 1 \<Longrightarrow> 0 < refs (matchers st) p - points (Some old) p"
proof -
  obtain old where old: "matchers st ! a = Some old" "a < length (matchers st)" "shaped (Some old)"
    "\<And>p. points (Some old) p \<le> refs (matchers st) p" by (rule member_ok [OF assms(1,2)]) blast
  obtain m where m: "matchers st ! b = Some m" "b < length (matchers st)" "shaped (Some m)"
    by (rule member_ok [OF assms(1,3)]) blast
  have c: "counts (payloads st) (refs (matchers st))" using assms by (simp add: store_ok_def)
  have "\<And>p. points (Some old) p = 1 \<Longrightarrow> 0 < refs (matchers st) p" using old(4) by (metis zero_less_one order_less_le_trans)
  from Destroy_run [OF c old(3) this] obtain ps where ps: "Destroy old st = (Inr (), st\<lparr>payloads := ps\<rparr>)"
    "counts ps (\<lambda>p. refs (matchers st) p - points (Some old) p)"
    "same_captured (\<lambda>p. refs (matchers st) p - points (Some old) p) (payloads st) ps" by blast
  have "Some m \<in> set ((matchers st)[a := None])" using m old assms(4) by (metis length_list_update nth_list_update_neq nth_mem)
  then have "points (Some m) p \<le> refs ((matchers st)[a := None]) p" for p by (rule refs_member)
  then have "points (Some m) p \<le> refs (matchers st) p - points (Some old) p" for p
    using old by (simp add: refs_update)
  then have "points (Some m) p = 1 \<Longrightarrow> 0 < refs (matchers st) p - points (Some old) p" for p
    by (metis zero_less_one order_less_le_trans)
  then show thesis using that [OF old(1) m(1) old(2) m(2,3) ps] by blast
qed

lemma implements_assign:
  assumes "store_ok st" and "live (matchers st) a" and "live (matchers st) b" shows "implements (Assign a b) st"
proof (cases "a = b")
  case True
  then show ?thesis using assms
    by (intro implementsI [where st' = st]) (auto simp: copy_assign_def store_ok_def view_def)
next
  case False
  obtain old m ps where m: "matchers st ! a = Some old" "matchers st ! b = Some m" "a < length (matchers st)" "b < length (matchers st)"
    "shaped (Some m)" and d: "Destroy old st = (Inr (), st\<lparr>payloads := ps\<rparr>)"
    "counts ps (\<lambda>p. refs (matchers st) p - points (Some old) p)"
    "same_captured (\<lambda>p. refs (matchers st) p - points (Some old) p) (payloads st) ps"
    and p: "\<And>p. points (Some m) p = 1 \<Longrightarrow> 0 < refs (matchers st) p - points (Some old) p"
    by (rule assign_start [OF assms False]) blast
  let ?ms = "(matchers st)[a := Some m]"
  have "counts (payloads (st\<lparr>payloads := ps, matchers := ?ms\<rparr>)) (\<lambda>p. refs (matchers st) p - points (Some old) p)"
    using d by simp
  from ref_if_shared_run [OF this m(5) p] obtain ps' where
    r: "ref_if_shared m (st\<lparr>payloads := ps, matchers := ?ms\<rparr>) = (Inr (), st\<lparr>matchers := ?ms, payloads := ps'\<rparr>)"
    "counts ps' (refs ?ms)" "same_captured (refs ?ms) ps ps'"
    using m by (auto simp: refs_update)
  have "same_captured (refs ?ms) (payloads st) ps'"
  proof (rule same_captured_trans [OF d(3) r(3)])
    fix q assume "0 < refs ?ms q"
    then show "0 < refs (matchers st) q - points (Some old) q"
      using p [of q] m by (cases "points (Some m) q = 1") (auto simp: refs_update points_def)
  qed
  moreover have "matcher_at b (st\<lparr>payloads := ps\<rparr>) = (Inr m, st\<lparr>payloads := ps\<rparr>)"
    using matcher_at_live [of "st\<lparr>payloads := ps\<rparr>" b] assms(3) m by simp
  ultimately show ?thesis using False assms m d r
    by (intro implementsI [where st' = "st\<lparr>matchers := ?ms, payloads := ps'\<rparr>"])
      (auto simp: copy_assign_def set_matcher_def bnd_app seq_def matcher_at_live store_ok_def view_def map_update
        dest!: set_update_subset_insert [THEN subsetD])
qed

lemma implements_move_assign:
  assumes "store_ok st" and "live (matchers st) a" and "live (matchers st) b" shows "implements (Move_assign a b) st"
proof (cases "a = b")
  case True
  then show ?thesis using assms
    by (intro implementsI [where st' = st]) (auto simp: move_assign_def store_ok_def view_def)
next
  case False
  obtain old m ps where m: "matchers st ! a = Some old" "matchers st ! b = Some m" "a < length (matchers st)" "b < length (matchers st)"
    "shaped (Some m)" and d: "Destroy old st = (Inr (), st\<lparr>payloads := ps\<rparr>)"
    "counts ps (\<lambda>p. refs (matchers st) p - points (Some old) p)"
    "same_captured (\<lambda>p. refs (matchers st) p - points (Some old) p) (payloads st) ps"
    by (rule assign_start [OF assms False]) blast
  let ?ms = "(matchers st)[a := Some m, b := Some (m\<lparr>vtable_m := None\<rparr>)]"
  have refs: "refs ?ms = (\<lambda>p. refs (matchers st) p - points (Some old) p)"
    using m False by (simp add: refs_update fun_eq_iff)
  moreover have "matcher_at b (st\<lparr>payloads := ps\<rparr>) = (Inr m, st\<lparr>payloads := ps\<rparr>)"
    using matcher_at_live [of "st\<lparr>payloads := ps\<rparr>" b] assms(3) m by simp
  ultimately show ?thesis using False assms m d
    by (intro implementsI [where st' = "\<lparr>payloads = ps, matchers = ?ms\<rparr>"])
      (auto simp: move_assign_def set_matcher_def bnd_app seq_def matcher_at_live store_ok_def view_def map_update
        dest!: set_update_subset_insert [THEN subsetD])
qed

lemma implements_op:
  assumes "store_ok st" and "op_live (view st) op" shows "implements op st"
  using assms
  by (cases op) (simp_all add: implements_default implements_construct implements_copy implements_move implements_assign
      implements_move_assign implements_destruct)

definition empty_store :: "'x store" where
  "empty_store = \<lparr>payloads = [], matchers = []\<rparr>"

lemma empty_store_ok: "store_ok empty_store"
  by (simp add: store_ok_def empty_store_def counts_def pay_def refs_def)

text \<open>A program that uses only matchers that are there.\<close>

fun ops_live :: "'x matcher_op list \<Rightarrow> 'x view \<Rightarrow> bool" where
  "ops_live [] v = True"
| "ops_live (op # ops) v = (op_live v op \<and> ops_live ops (view_op op v))"

lemma perform_all:
  assumes "store_ok st" and "ops_live ops (view st)"
  shows "\<exists>st'. for_each ops perform st = (Inr (), st') \<and> store_ok st' \<and> view st' = fold view_op ops (view st)"
  using assms
proof (induction ops arbitrary: st)
  case (Cons op ops)
  obtain st1 where st1: "perform op st = (Inr (), st1)" "store_ok st1" "view st1 = view_op op (view st)"
    using implements_op [of st op] Cons.prems by (auto simp: implements_def)
  then show ?case using Cons.IH [of st1] Cons.prems by (simp add: seq_def bnd_app)
qed simp


text \<open>
  When all its matchers have been destroyed, a program leaves no payload behind.
\<close>

theorem no_payload_leaks:
  assumes "ops_live ops ([] :: 'x view)" and "\<forall>v \<in> set (fold view_op ops ([] :: 'x view)). v = None"
  shows "\<exists>st. for_each ops perform (empty_store :: 'x store) = (Inr (), st) \<and> (\<forall>pl \<in> set (payloads st). pl = None)"
proof -
  have "view (empty_store :: 'x store) = []" by (simp add: view_def empty_store_def)
  then obtain st where st: "for_each ops perform (empty_store :: 'x store) = (Inr (), st)" "store_ok st" "view st = fold view_op ops []"
    using perform_all [OF empty_store_ok, of ops] assms by auto
  have "\<forall>m \<in> set (matchers st). m = None"
    using assms(2) unfolding st(3) [symmetric] by (simp add: view_def)
  then have none: "refs (matchers st) p = 0" for p
  proof -
    have "\<forall>m \<in> set ms. m = None \<Longrightarrow> refs ms p = 0" for ms :: "'x matcherBase option list"
      by (induction ms) (auto simp: refs_def)
    then show ?thesis using \<open>\<forall>m \<in> set (matchers st). m = None\<close> by blast
  qed
  have "pl = None" if pl: "pl \<in> set (payloads st)" for pl
  proof -
    obtain p where p: "p < length (payloads st)" "payloads st ! p = pl" using pl by (auto simp: in_set_conv_nth)
    then have "pay (payloads st) p = pl" by (simp add: pay_def)
    then show ?thesis
      using st(2) [unfolded store_ok_def counts_def, THEN conjunct2, rule_format, of p] none by (cases pl) auto
  qed
  then show ?thesis using st(1) by blast
qed

lemma held_impl_view:
  assumes "store_ok st" and "live (view st) a"
  shows "held_impl a st = (case the (view st ! a) of None \<Rightarrow> (Inl null_vtable, st) | Some i \<Rightarrow> (Inr i, st))"
proof -
  have l: "live (matchers st) a" using assms(2) by simp
  obtain m where m: "matchers st ! a = Some m" "a < length (matchers st)" "shaped (Some m)"
    "\<And>p. points (Some m) p \<le> refs (matchers st) p" by (rule member_ok [OF assms(1) l]) blast
  have v: "the (view st ! a) = content (payloads st) m" using m by (simp add: view_def)
  show ?thesis
  proof (cases "IsShared m")
    case True
    then obtain p where p: "buffer_m m = Shared p" using m(3) shaped_shared by metis
    then have "0 < refs (matchers st) p" using True m(4) [of p] by (simp add: points_def)
    then obtain pl where "pay (payloads st) p = Some pl"
      using assms(1) by (fastforce simp: store_ok_def counts_def split: option.splits)
    then show ?thesis using True m p v matcher_at_live [OF l]
      by (auto simp: held_impl_def bnd_app ValuePolicy_Get_def buffer_shared_def payload_at_run content_def IsShared_def)
  next
    case False
    then show ?thesis using m v matcher_at_live [OF l]
      by (auto simp: held_impl_def bnd_app ValuePolicy_Get_def content_def IsShared_def shaped_def split: option.splits if_splits)
  qed
qed

lemma answers_view:
  assumes "store_ok st" and "live (view st) a" and "view st ! a = Some held"
  shows "Matches a x st = ((case held of None \<Rightarrow> Inl null_vtable | Some i \<Rightarrow> Inr (fst (match_and_explain i x None))), st)"
    and "DescribeTo a os st = ((case held of None \<Rightarrow> Inl null_vtable | Some i \<Rightarrow> Inr (os @ describe i)), st)"
    and "DescribeNegationTo a os st = ((case held of None \<Rightarrow> Inl null_vtable | Some i \<Rightarrow> Inr (os @ describe_negation i)), st)"
proof -
  have "held_impl a st = (case held of None \<Rightarrow> (Inl null_vtable, st) | Some i \<Rightarrow> (Inr i, st))"
    using held_impl_view [OF assms(1,2)] assms(3) by simp
  then show "Matches a x st = ((case held of None \<Rightarrow> Inl null_vtable | Some i \<Rightarrow> Inr (fst (match_and_explain i x None))), st)"
    and "DescribeTo a os st = ((case held of None \<Rightarrow> Inl null_vtable | Some i \<Rightarrow> Inr (os @ describe i)), st)"
    and "DescribeNegationTo a os st = ((case held of None \<Rightarrow> Inl null_vtable | Some i \<Rightarrow> Inr (os @ describe_negation i)), st)"
    by (auto simp: Matches_def MatchAndExplain_def DescribeTo_def DescribeNegationTo_def bnd_app
        DummyMatchResultListener_def MatchResultListener_def DescribeImpl_def split: option.splits)
qed

text \<open>
  What a matcher answers depends only on the value it holds: matching and describing run
  the functions of that value, wherever it is kept, and an empty matcher ends the
  program.
\<close>

theorem matcher_answers:
  assumes "ops_live ops ([] :: 'x view)" and "a < length (fold view_op ops ([] :: 'x view))"
    and "fold view_op ops ([] :: 'x view) ! a = Some held"
  shows "\<exists>st. for_each ops perform (empty_store :: 'x store) = (Inr (), st)
    \<and> Matches a x st = ((case held of None \<Rightarrow> Inl null_vtable | Some i \<Rightarrow> Inr (fst (match_and_explain i x None))), st)
    \<and> DescribeTo a os st = ((case held of None \<Rightarrow> Inl null_vtable | Some i \<Rightarrow> Inr (os @ describe i)), st)
    \<and> DescribeNegationTo a os st = ((case held of None \<Rightarrow> Inl null_vtable | Some i \<Rightarrow> Inr (os @ describe_negation i)), st)"
proof -
  have "view (empty_store :: 'x store) = []" by (simp add: view_def empty_store_def)
  then obtain st where st: "for_each ops perform (empty_store :: 'x store) = (Inr (), st)" "store_ok st" "view st = fold view_op ops []"
    using perform_all [OF empty_store_ok, of ops] assms by auto
  have "live (view st) a" using assms(2,3) st(3) by (simp add: live_def)
  moreover have "view st ! a = Some held" using assms(3) st(3) by simp
  ultimately show ?thesis using st(1) answers_view [OF st(2)] by (intro exI [of _ st]) simp
qed

subsection \<open>Comparisons\<close>

text \<open>
  A matcher built directly from a value holds an equality comparison with it: it matches
  exactly what the operator calls equal, describes itself so, and the temporary it came
  from is gone.
\<close>

theorem value_matcher:
  shows "\<exists>st. Matcher_of_value ty ops v empty_store = (Inr 0, st)
    \<and> view st = [Some (Some (EqMatcher ty ops v)), None]
    \<and> Matches 0 x st = (Inr (op_eq ops x v), st)
    \<and> DescribeTo 0 os st = (Inr (os @ ''is equal to '' @ UniversalPrint ty v), st)
    \<and> DescribeNegationTo 0 os st = (Inr (os @ ''isn't equal to '' @ UniversalPrint ty v), st)"
proof -
  let ?i = "EqMatcher ty ops v"
  let ?ops = "[Default, Construct ?i, Move_assign 0 1, Destruct 1]"
  have "ops_live ?ops (view empty_store)" by (simp add: live_def view_def empty_store_def)
  from perform_all [OF empty_store_ok this] obtain st where st: "for_each ?ops perform empty_store = (Inr (), st)"
    "store_ok st" "view st = [Some (Some ?i), None]"
    by (auto simp: view_def empty_store_def)
  have "Matcher_of_value ty ops v empty_store = (Inr 0, snd (for_each ?ops perform empty_store))"
    by (cases "inlined ?i")
      (simp_all add: Matcher_of_value_def Eq_def construct_def Init_def ValuePolicy_Init_def SharedPayload_def new_matcher_def
        bnd_app seq_def move_assign_def matcher_at_def MatcherBase_def empty_store_def Destroy_def IsShared_def set_matcher_def
        destructor_def)
  then show ?thesis using st answers_view [OF st(2), of 0 "Some ?i"]
    by (intro exI [of _ st]) (simp add: live_def EqMatcher_def ComparisonBase_def)
qed

subsection \<open>Instances\<close>

text \<open>A matcher of texts, too large for the buffer.\<close>

definition text_matcher :: "string \<Rightarrow> string impl" where
  "text_matcher = EqMatcher
     \<lparr>UniversalPrint = (\<lambda>s. s), rhs_size = 32, rhs_align = 8, rhs_trivial_copy = False, rhs_trivial_destructor = False\<rparr>
     \<lparr>op_eq = (=), op_ne = (\<noteq>), op_lt = (<), op_gt = (>), op_le = (\<le>), op_ge = (\<ge>)\<rparr>"


theorem no_payload_leaks_witness:
  "\<exists>st. for_each [Construct (text_matcher ''a''), Copy 0, Destruct 0, Destruct 1] perform (empty_store :: string store) = (Inr (), st)
    \<and> set (payloads st) \<subseteq> {None}"
  using no_payload_leaks [of "[Construct (text_matcher ''a''), Copy 0, Destruct 0, Destruct 1]"]
  by (auto simp: live_def)

theorem matcher_answers_witness:
  "\<exists>st. for_each [Construct (text_matcher ''a''), Copy 0, Destruct 0] perform (empty_store :: string store) = (Inr (), st)
    \<and> Matches 1 ''a'' st = (Inr True, st) \<and> DescribeTo 1 [] st = (Inr ''is equal to a'', st)"
  using matcher_answers [of "[Construct (text_matcher ''a''), Copy 0, Destruct 0]" 1 "Some (text_matcher ''a'')" "''a''" "[]"]
  by (auto simp: live_def text_matcher_def EqMatcher_def ComparisonBase_def)

end
