(* ===== verification/Gtest_Arrays.thy ===== *)
theory Gtest_Arrays
  imports Prelude
begin

section \<open>Native arrays and printing (gtest-internal.h, gtest-printers.h)\<close>

text \<open>
  Arrays of any dimension, as the overloads of \<open>ArrayEq\<close>, \<open>CopyArray\<close> and
  \<open>UniversalPrinter\<close> take them apart, the adapter \<open>NativeArray\<close> with the memory it owns, and
  the printers of arrays, containers, tuples and pointers. The printer of an element is
  a parameter.
\<close>

subsection \<open>Arrays of any dimension\<close>

datatype 'a elem = Val 'a | Arr "'a elem list"

text \<open>The type of an array fixes its dimensions, so all calls are on arrays of one shape.\<close>

fun same_shape :: "'a elem \<Rightarrow> 'b elem \<Rightarrow> bool" where
  "same_shape (Val x) (Val y) = True"
| "same_shape (Arr xs) (Arr ys) = list_all2 same_shape xs ys"
| "same_shape _ _ = False"

fun ArrayEq :: "('a \<Rightarrow> 'b \<Rightarrow> bool) \<Rightarrow> 'a elem \<Rightarrow> 'b elem \<Rightarrow> bool"
  and ArrayEq_loop :: "('a \<Rightarrow> 'b \<Rightarrow> bool) \<Rightarrow> 'a elem list \<Rightarrow> 'b elem list \<Rightarrow> bool" where
  "ArrayEq eq (Val x) (Val y) = eq x y"
| "ArrayEq eq (Arr xs) (Arr ys) = ArrayEq_loop eq xs ys"
| "ArrayEq eq _ _ = False"
| "ArrayEq_loop eq (x # xs) (y # ys) = (if \<not> ArrayEq eq x y then False else ArrayEq_loop eq xs ys)"
| "ArrayEq_loop eq _ _ = True"

text \<open>The position of the first equal element, the length (\<open>end\<close>) when there is none.\<close>

fun ArrayAwareFind :: "('a \<Rightarrow> 'b \<Rightarrow> bool) \<Rightarrow> 'a elem list \<Rightarrow> 'b elem \<Rightarrow> nat" where
  "ArrayAwareFind eq [] e = 0"
| "ArrayAwareFind eq (x # xs) e = (if ArrayEq eq x e then 0 else Suc (ArrayAwareFind eq xs e))"

text \<open>Copying yields the new content of the target.\<close>

fun CopyArray :: "'a elem \<Rightarrow> 'a elem \<Rightarrow> 'a elem"
  and CopyArray_loop :: "'a elem list \<Rightarrow> 'a elem list \<Rightarrow> 'a elem list" where
  "CopyArray (Val x) _ = Val x"
| "CopyArray (Arr xs) (Arr ys) = Arr (CopyArray_loop xs ys)"
| "CopyArray (Arr xs) (Val y) = Val y"
| "CopyArray_loop (x # xs) (y # ys) = CopyArray x y # CopyArray_loop xs ys"
| "CopyArray_loop _ ys = ys"

lemma array_eq_iff:
  fixes a b :: "'a elem" and xs ys :: "'a elem list"
  shows "same_shape a b \<Longrightarrow> ArrayEq (=) a b \<longleftrightarrow> a = b"
    and "list_all2 same_shape xs ys \<Longrightarrow> ArrayEq_loop (=) xs ys \<longleftrightarrow> xs = ys"
  by (induction "(=) :: 'a \<Rightarrow> 'a \<Rightarrow> bool" a b and "(=) :: 'a \<Rightarrow> 'a \<Rightarrow> bool" xs ys rule: ArrayEq_ArrayEq_loop.induct) auto

lemma copy_array:
  fixes a b :: "'a elem" and xs ys zs :: "'a elem list"
  shows "same_shape a b \<Longrightarrow> CopyArray a b = a"
    and "list_all2 same_shape xs ys \<Longrightarrow> CopyArray_loop xs (ys @ zs) = xs @ zs"
proof (induction a b and xs ys arbitrary: and zs rule: CopyArray_CopyArray_loop.induct)
  case (2 xs ys)
  then show ?case using "2.IH" [of "[]"] by simp
qed auto

lemma find_first:
  "\<forall>x \<in> set xs. same_shape x e \<Longrightarrow> ArrayAwareFind (=) xs e = length (takeWhile (\<lambda>x. x \<noteq> e) xs)"
  by (induction xs) (auto simp: array_eq_iff)

lemma same_shape_refl: "same_shape a a"
  by (induction a) (auto intro: list.rel_refl_strong)

subsection \<open>The adapter for native arrays\<close>

text \<open>Arrays by address; a deleted one is \<open>None\<close>.\<close>

type_synonym 'a memory = "'a elem list option list"

datatype clone = InitRef_clone | InitCopy_clone

record nativeArray =
  array_m :: nat
  size_m :: nat
  clone_m :: clone

definition array_at :: "nat \<Rightarrow> nat \<Rightarrow> ('a memory, 'a elem list) cpp" where
  "array_at a n = bnd (get (\<lambda>m. if a < length m then m ! a else None)) (\<lambda>r. case r of
     None \<Rightarrow> fail (Undefined Dangling)
   | Some xs \<Rightarrow> if length xs < n then fail (Undefined Index_past_end) else ret (take n xs))"

text \<open>\<open>new Element[n]\<close> leaves elements with any value, here \<open>junk\<close>.\<close>

definition InitCopy :: "'a elem \<Rightarrow> nat \<Rightarrow> nat \<Rightarrow> ('a memory, nativeArray) cpp" where
  "InitCopy junk a n =
     bnd (array_at a n) (\<lambda>xs.
     bnd (get length) (\<lambda>new.
     seq (upd (\<lambda>m. m @ [Some (CopyArray_loop xs (replicate n junk))]))
         (ret \<lparr>array_m = new, size_m = n, clone_m = InitCopy_clone\<rparr>)))"

definition InitRef :: "nat \<Rightarrow> nat \<Rightarrow> ('a memory, nativeArray) cpp" where
  "InitRef a n = ret \<lparr>array_m = a, size_m = n, clone_m = InitRef_clone\<rparr>"

definition NativeArray :: "'a elem \<Rightarrow> nat \<Rightarrow> nat \<Rightarrow> bool \<Rightarrow> ('a memory, nativeArray) cpp" where
  "NativeArray junk a n copy = (if copy then InitCopy junk a n else InitRef a n)"

definition NativeArray_copy :: "'a elem \<Rightarrow> nativeArray \<Rightarrow> ('a memory, nativeArray) cpp" where
  "NativeArray_copy junk rhs = (case clone_m rhs of
     InitCopy_clone \<Rightarrow> InitCopy junk (array_m rhs) (size_m rhs)
   | InitRef_clone \<Rightarrow> InitRef (array_m rhs) (size_m rhs))"

definition NativeArray_destroy :: "nativeArray \<Rightarrow> ('a memory, unit) cpp" where
  "NativeArray_destroy arr = (if clone_m arr \<noteq> InitRef_clone
     then seq (array_at (array_m arr) 0) (upd (\<lambda>m. m[array_m arr := None])) else ret ())"

definition NativeArray_equal :: "('a \<Rightarrow> 'a \<Rightarrow> bool) \<Rightarrow> nativeArray \<Rightarrow> nativeArray \<Rightarrow> ('a memory, bool) cpp" where
  "NativeArray_equal eq arr rhs =
     (if size_m arr \<noteq> size_m rhs then ret False
      else bnd (array_at (array_m arr) (size_m arr)) (\<lambda>xs.
           bnd (array_at (array_m rhs) (size_m arr)) (\<lambda>ys. ret (ArrayEq_loop eq xs ys))))"

lemma init_copy_run:
  assumes "a < length m" and "m ! a = Some xs" and "n \<le> length xs" and "\<forall>x \<in> set xs. same_shape x junk"
  shows "InitCopy junk a n m = (Inr \<lparr>array_m = length m, size_m = n, clone_m = InitCopy_clone\<rparr>, m @ [Some (take n xs)])"
proof -
  have "list_all2 same_shape (take n xs) (replicate n junk)"
    using assms(3,4) by (auto simp: list_all2_conv_all_nth)
  then have "CopyArray_loop (take n xs) (replicate n junk) = take n xs"
    using copy_array(2) [of "take n xs" "replicate n junk" "[]"] by simp
  then show ?thesis using assms(1-3) by (simp add: InitCopy_def array_at_def bnd_app seq_def)
qed

text \<open>
  An array adapter that copies its source owns the copy: copying the adapter again yields
  another array of its own, both keep the elements of the time of the copy whatever
  happens to the source, they compare equal, and destroying them frees both copies and
  nothing else.
\<close>

theorem copies_are_owned:
  assumes "a < length m" and "m ! a = Some xs" and "n \<le> length xs" and "\<forall>x \<in> set xs. same_shape x junk"
  shows "\<exists>arr m1 arr2 m2 m3. NativeArray junk a n True m = (Inr arr, m1)
    \<and> NativeArray_copy junk arr (m1[a := changed]) = (Inr arr2, m2)
    \<and> array_at (array_m arr2) n m2 = (Inr (take n xs), m2)
    \<and> NativeArray_equal (=) arr arr2 m2 = (Inr True, m2)
    \<and> seq (NativeArray_destroy arr) (NativeArray_destroy arr2) m2 = (Inr (), m3)
    \<and> m3 = m[a := changed] @ [None, None]"
proof -
  let ?arr = "\<lparr>array_m = length m, size_m = n, clone_m = InitCopy_clone\<rparr>"
  let ?arr2 = "\<lparr>array_m = Suc (length m), size_m = n, clone_m = InitCopy_clone\<rparr>"
  let ?m1 = "m[a := changed] @ [Some (take n xs)]"
  have one: "NativeArray junk a n True m = (Inr ?arr, m @ [Some (take n xs)])"
    using init_copy_run [OF assms] by (simp add: NativeArray_def)
  have m1: "(m @ [Some (take n xs)])[a := changed] = ?m1" using assms(1) by (simp add: list_update_append)
  have "\<forall>x \<in> set (take n xs). same_shape x junk" using assms(4) in_set_takeD by metis
  then have "InitCopy junk (length m) n ?m1 = (Inr ?arr2, ?m1 @ [Some (take n xs)])"
    using init_copy_run [of "length m" ?m1 "take n xs" n junk] assms(3) by (simp add: nth_append)
  then have two: "NativeArray_copy junk ?arr ?m1 = (Inr ?arr2, ?m1 @ [Some (take n xs)])"
    by (simp add: NativeArray_copy_def)
  have eq: "ArrayEq_loop (=) (take n xs) (take n xs)"
    by (subst array_eq_iff) (auto intro: list.rel_refl_strong same_shape_refl)
  show ?thesis
    by (intro exI [of _ ?arr] exI [of _ "m @ [Some (take n xs)]"] exI [of _ ?arr2] exI [of _ "?m1 @ [Some (take n xs)]"]
        exI [of _ "m[a := changed] @ [None, None]"])
      (use assms(3) one two eq m1 in \<open>simp add: array_at_def bnd_app seq_def nth_append NativeArray_equal_def
        NativeArray_destroy_def list_update_append\<close>)
qed

theorem copies_are_owned_witness:
  "\<exists>arr m1. NativeArray (Val 0) 0 2 True [Some [Val 1, Val 2, Val (3 :: nat)]] = (Inr arr, m1)
    \<and> (\<exists>arr2 m2. NativeArray_copy (Val 0) arr (m1[0 := None]) = (Inr arr2, m2)
        \<and> array_at (array_m arr2) 2 m2 = (Inr [Val 1, Val 2], m2))"
  using copies_are_owned [of 0 "[Some [Val 1, Val 2, Val (3 :: nat)]]" "[Val 1, Val 2, Val 3]" 2 "Val 0" None]
  by (simp add: numeral_2_eq_2) blast

subsection \<open>Printing\<close>

text \<open>Printing appends to the stream; each printer is what it appends.\<close>

fun container_from :: "('e \<Rightarrow> string) \<Rightarrow> nat \<Rightarrow> 'e list \<Rightarrow> string \<times> nat" where
  "container_from print count [] = ([], count)"
| "container_from print count (e # es) =
     (if 0 < count \<and> count = 32 then ('', ...'', count)
      else case container_from print (count + 1) es of
        (rest, n) \<Rightarrow> ((if 0 < count then '','' else []) @ '' '' @ print e @ rest, n))"

definition ContainerPrinter :: "('e \<Rightarrow> string) \<Rightarrow> 'e list \<Rightarrow> string" where
  "ContainerPrinter print container = (case container_from print 0 container of
     (elems, count) \<Rightarrow> ''{'' @ elems @ (if 0 < count then '' '' else []) @ ''}'')"

text \<open>An address, or \<open>None\<close> for the null pointer, with the printer of the stream for addresses.\<close>

definition PointerPrinter :: "(nat \<Rightarrow> string) \<Rightarrow> nat option \<Rightarrow> string" where
  "PointerPrinter put p = (case p of None \<Rightarrow> ''NULL'' | Some a \<Rightarrow> put a)"

definition PrintSmartPointer_void :: "(nat \<Rightarrow> string) \<Rightarrow> nat option \<Rightarrow> string" where
  "PrintSmartPointer_void put ptr = (case ptr of None \<Rightarrow> ''(nullptr)'' | Some a \<Rightarrow> ''('' @ put a @ '')'')"

definition PrintSmartPointer :: "(nat \<Rightarrow> string) \<Rightarrow> ('e \<Rightarrow> string) \<Rightarrow> (nat \<times> 'e) option \<Rightarrow> string" where
  "PrintSmartPointer put print ptr = (case ptr of
     None \<Rightarrow> ''(nullptr)'' | Some (a, x) \<Rightarrow> ''(ptr = '' @ put a @ '', value = '' @ print x @ '')'')"

text \<open>The elements of a tuple differ in type, so a tuple is here the list of its printed elements.\<close>

fun PrintTupleTo :: "string list \<Rightarrow> nat \<Rightarrow> string" where
  "PrintTupleTo t 0 = []"
| "PrintTupleTo t (Suc i) = PrintTupleTo t i @ (if 1 < Suc i then '', '' else []) @ t ! i"

definition PrintTo_tuple :: "string list \<Rightarrow> string" where
  "PrintTo_tuple t = ''('' @ PrintTupleTo t (length t) @ '')''"

definition PrintTo_pair :: "('a \<Rightarrow> string) \<Rightarrow> ('b \<Rightarrow> string) \<Rightarrow> 'a \<times> 'b \<Rightarrow> string" where
  "PrintTo_pair print1 print2 v = ''('' @ print1 (fst v) @ '', '' @ print2 (snd v) @ '')''"

definition Print_optional :: "('e \<Rightarrow> string) \<Rightarrow> 'e option \<Rightarrow> string" where
  "Print_optional print v = ''('' @ (case v of None \<Rightarrow> ''nullopt'' | Some x \<Rightarrow> print x) @ '')''"

text \<open>The loop runs until the index equals the count, which is at least one in every call.\<close>

definition PrintRawArrayTo :: "('e \<Rightarrow> string) \<Rightarrow> 'e list \<Rightarrow> nat \<Rightarrow> string" where
  "PrintRawArrayTo print a count = print (a ! 0) @ concat (map (\<lambda>i. '', '' @ print (a ! i)) [1..<count])"

definition UniversalPrintArray :: "('e \<Rightarrow> string) \<Rightarrow> 'e list \<Rightarrow> string" where
  "UniversalPrintArray print a =
     (if length a = 0 then ''{}''
      else ''{ '' @
        (if length a \<le> 18 then PrintRawArrayTo print a (length a)
         else PrintRawArrayTo print a 8 @ '', ..., '' @ PrintRawArrayTo print (drop (length a - 8) a) 8) @ '' }'')"

text \<open>An array of any dimension prints its rows by the same rule.\<close>

primrec Print_elem :: "('a \<Rightarrow> string) \<Rightarrow> 'a elem \<Rightarrow> string" where
  "Print_elem print (Val x) = print x"
| "Print_elem print (Arr xs) = UniversalPrintArray (\<lambda>s. s) (map (Print_elem print) xs)"

fun commas :: "string list \<Rightarrow> string" where
  "commas [] = []"
| "commas [t] = t"
| "commas (t # ts) = t @ '', '' @ commas ts"

lemma commas_Cons: "commas (t # ts) = t @ concat (map (\<lambda>u. '', '' @ u) ts)"
  by (induction ts arbitrary: t) auto

lemma commas_snoc: "commas (ts @ [t]) = commas ts @ (if ts = [] then [] else '', '') @ t"
  by (cases ts) (auto simp: commas_Cons)

lemma raw_array_commas:
  assumes "0 < n" and "n \<le> length a"
  shows "PrintRawArrayTo print a n = commas (map print (take n a))"
proof -
  obtain x xs where a: "a = x # xs" using assms by (cases a) auto
  obtain k where n: "n = Suc k" using assms(1) by (cases n) auto
  have "map (\<lambda>i. '', '' @ print (a ! i)) [1..<n] = map (\<lambda>u. '', '' @ u) (map print (take k xs))"
    by (rule nth_equalityI) (use assms(2) in \<open>auto simp: a n simp del: upt_Suc\<close>)
  then show ?thesis by (simp add: PrintRawArrayTo_def a n commas_Cons)
qed

text \<open>A short array is printed in full, a long one by its first and last eight elements.\<close>

lemma print_array:
  "UniversalPrintArray print a = (if a = [] then ''{}'' else ''{ '' @
     (if length a \<le> 18 then commas (map print a)
      else commas (map print (take 8 a)) @ '', ..., '' @ commas (map print (drop (length a - 8) a))) @ '' }'')"
  by (simp add: UniversalPrintArray_def raw_array_commas)

lemma container_tail:
  "0 < count \<Longrightarrow> count \<le> 32 \<Longrightarrow> container_from print count es =
     (concat (map (\<lambda>e. '', '' @ print e) (take (32 - count) es)) @ (if 32 - count < length es then '', ...'' else []),
      min 32 (count + length es))"
proof (induction es arbitrary: count)
  case (Cons e es)
  show ?case
  proof (cases "count = 32")
    case False
    then have "32 - count = Suc (32 - (count + 1))" using Cons.prems by simp
    then show ?thesis using Cons.IH [of "count + 1"] Cons.prems False by simp
  qed simp
qed simp

text \<open>A container is printed as its first 32 elements, and a mark when there are more.\<close>

lemma print_container:
  "ContainerPrinter print es = (if es = [] then ''{}''
     else ''{ '' @ commas (map print (take 32 es)) @ (if 32 < length es then '', ...'' else []) @ '' }'')"
proof (cases es)
  case (Cons e rest)
  have "take 32 es = e # take 31 rest" by (simp add: Cons take_Cons')
  then show ?thesis using container_tail [of 1 print rest]
    by (simp add: ContainerPrinter_def Cons commas_Cons comp_def)
qed (simp add: ContainerPrinter_def)

lemma print_tuple: "PrintTo_tuple t = ''('' @ commas t @ '')''"
proof -
  have "i \<le> length t \<Longrightarrow> PrintTupleTo t i = commas (take i t)" for i
  proof (induction i)
    case (Suc i)
    have "PrintTupleTo t (Suc i) = PrintTupleTo t i @ (if i = 0 then [] else '', '') @ t ! i" by simp
    also have "\<dots> = commas (take i t @ [t ! i])" using Suc by (auto simp: commas_snoc)
    also have "\<dots> = commas (take (Suc i) t)" using Suc.prems by (simp add: take_Suc_conv_app_nth)
    finally show ?case .
  qed simp
  then show ?thesis by (simp add: PrintTo_tuple_def)
qed

end
