(* ===== verification/Gtest_Resolution.thy ===== *)
theory Gtest_Resolution
  imports Double Gtest_Params
begin

section \<open>The number of digits of a floating-point number (gtest-printers.h)\<close>

text \<open>
  \<open>AppropriateResolution\<close> decides whether six digits are enough to print a \<open>double\<close>. A conversion
  to \<open>int32_t\<close> of a value that does not fit is undefined.
\<close>

subsection \<open>The arithmetic it uses\<close>

fun negated :: "double \<Rightarrow> double" where
  "negated (Fin s m) = Fin (\<not> s) m"
| "negated (Inf s) = Inf (\<not> s)"
| "negated (NaN s) = NaN (\<not> s)"

fun double_plus :: "double \<Rightarrow> double \<Rightarrow> double" where
  "double_plus (NaN s) _ = NaN s"
| "double_plus _ (NaN t) = NaN t"
| "double_plus (Inf s) (Inf t) = (if s = t then Inf s else NaN True)"
| "double_plus (Inf s) (Fin _ _) = Inf s"
| "double_plus (Fin _ _) (Inf t) = Inf t"
| "double_plus (Fin s a) (Fin t b) =
     (let x = signed s a + signed t b in if x = 0 then Fin (s \<and> t) 0 else round_to (x < 0) \<bar>x\<bar>)"

fun double_divide :: "double \<Rightarrow> double \<Rightarrow> double" where
  "double_divide (NaN s) _ = NaN s"
| "double_divide _ (NaN t) = NaN t"
| "double_divide (Inf s) (Inf t) = NaN True"
| "double_divide (Inf s) (Fin t _) = Inf (s \<noteq> t)"
| "double_divide (Fin s _) (Inf t) = Fin (s \<noteq> t) 0"
| "double_divide (Fin s a) (Fin t b) =
     (if b = 0 then if a = 0 then NaN True else Inf (s \<noteq> t) else round_to (s \<noteq> t) (a / b))"

fun double_eq :: "double \<Rightarrow> double \<Rightarrow> bool" where
  "double_eq (Fin s a) (Fin t b) = (signed s a = signed t b)"
| "double_eq (Inf s) (Inf t) = (s = t)"
| "double_eq _ _ = False"

definition to_int32 :: "double \<Rightarrow> fault + int" where
  "to_int32 x = (case x of
     Fin s m \<Rightarrow> let n = (if s then - \<lfloor>m\<rfloor> else \<lfloor>m\<rfloor>)
                in if - (2 ^ 31) \<le> n \<and> n < 2 ^ 31 then Inr n else Inl (Undefined Signed_overflow)
   | _ \<Rightarrow> Inl (Undefined Signed_overflow))"

definition of_int32 :: "int \<Rightarrow> double" where
  "of_int32 n = round_to (n < 0) (of_int \<bar>n\<bar>)"

subsection \<open>AppropriateResolution\<close>

definition mulfor6 :: "double \<Rightarrow> double" where
  "mulfor6 val =
     (if literal 100000 \<le> val then literal 1
      else if literal 10000 \<le> val then literal (10 ^ 1)
      else if literal 1000 \<le> val then literal (10 ^ 2)
      else if literal 100 \<le> val then literal (10 ^ 3)
      else if literal 10 \<le> val then literal (10 ^ 4)
      else if literal 1 \<le> val then literal (10 ^ 5)
      else if literal (1 / 10) \<le> val then literal (10 ^ 6)
      else if literal (1 / 100) \<le> val then literal (10 ^ 7)
      else if literal (1 / 1000) \<le> val then literal (10 ^ 8)
      else if literal (1 / 10000) \<le> val then literal (10 ^ 9)
      else literal (10 ^ 10))"

definition divfor6 :: "double \<Rightarrow> double" where
  "divfor6 val =
     (if literal (10 ^ 9) \<le> val then literal 10000
      else if literal (10 ^ 8) \<le> val then literal 1000
      else if literal (10 ^ 7) \<le> val then literal 100
      else if literal (10 ^ 6) \<le> val then literal 10
      else literal 1)"

definition AppropriateResolution :: "int \<Rightarrow> double \<Rightarrow> fault + int" where
  "AppropriateResolution full v =
     (let val = (if v < literal 0 then negated v else v) in
      if val < literal 1000000 then
        bind_sum (to_int32 (double_plus (val * mulfor6 val) (literal (1 / 2)))) (\<lambda>n.
          Inr (if double_eq (double_divide (of_int32 n) (mulfor6 val)) val then 6 else full))
      else if val < literal (10 ^ 10) then
        bind_sum (to_int32 (double_plus (double_divide val (divfor6 val)) (literal (1 / 2)))) (\<lambda>n.
          Inr (if double_eq (of_int32 n * divfor6 val) val then 6 else full))
      else Inr full)"

subsection \<open>Facts\<close>

lemma fl_small: "x \<le> of_nat n \<Longrightarrow> n < 2 ^ 53 \<Longrightarrow> fl x \<le> of_nat n"
  using fl_mono [of x "of_nat n"] fl_of_nat [of n] by simp

lemma small_finite: "x \<le> of_nat n \<Longrightarrow> n < 2 ^ 53 \<Longrightarrow> fl x \<le> max_finite"
proof -
  assume "x \<le> of_nat n" "n < 2 ^ 53"
  then have "fl x \<le> of_nat n" by (rule fl_small)
  also have "\<dots> \<le> (of_nat (2 ^ 53 - 1) :: rat)" using \<open>n < 2 ^ 53\<close> by (simp only: of_nat_le_iff)
  also have "\<dots> \<le> max_finite" by (simp add: max_finite_def)
  finally show ?thesis .
qed

lemma round_small: "x \<le> of_nat n \<Longrightarrow> n < 2 ^ 53 \<Longrightarrow> round_to s x = Fin s (fl x)"
  using small_finite [of x n] by (simp add: round_to_def)

lemma literal_small: "x \<le> 10 ^ 10 \<Longrightarrow> literal x = Fin False (fl x)"
  using round_small [of x "10 ^ 10" False] by (simp add: literal_def)

lemma literal_nat: "n \<le> 10 ^ 10 \<Longrightarrow> literal (of_nat n) = Fin False (of_nat n)"
proof -
  assume n: "n \<le> 10 ^ 10"
  then have "(of_nat n :: rat) \<le> of_nat (10 ^ 10)" by (simp only: of_nat_le_iff)
  then show ?thesis using literal_small [of "of_nat n"] fl_of_nat [of n] n by simp
qed

text \<open>A number below a literal is at most the decimal number that the literal stands for.\<close>

lemma below_literal:
  assumes "is_double (Fin s m)" and "s \<longrightarrow> m = 0" and "Fin s m < literal t" and "0 \<le> t" and "t \<le> 10 ^ 10"
  shows "m \<le> t"
proof (rule ccontr)
  assume "\<not> m \<le> t"
  then have "fl t \<le> m" using fl_mono [of t m] assms(1) by simp
  then show False using assms(2,3) literal_small [OF assms(5)] fl_nonneg [of t] by (cases s) auto
qed

lemma plus_half:
  assumes "0 \<le> m" and "m \<le> 10 ^ 6" and "fl m = m" and "s \<longrightarrow> m = 0"
  shows "\<exists>n. to_int32 (double_plus (Fin s m) (literal (1 / 2))) = Inr (int n) \<and> n \<le> 10 ^ 6"
proof -
  have half: "literal (1 / 2) = Fin False (1 / 2)"
    using fl_exact [of 1 "-1"] by (simp add: literal_small power_int_minus)
  have x: "signed s m + 1 / 2 = m + 1 / 2" using assms(4) by auto
  have pos: "0 < m + 1 / 2" using assms(1) by linarith
  have le: "m + 1 / 2 \<le> of_nat (10 ^ 6 + 1)" using assms(2) by simp
  have top: "fl (m + 1 / 2) \<le> 10 ^ 6 + 1 / 2"
    using fl_mono [of "m + 1 / 2" "10 ^ 6 + 1 / 2"] fl_exact [of 2000001 "-1"] assms(2) by (simp add: power_int_minus)
  have "double_plus (Fin s m) (literal (1 / 2)) = round_to False (m + 1 / 2)"
    using pos x by (simp add: half Let_def)
  also have "\<dots> = Fin False (fl (m + 1 / 2))" by (rule round_small [OF le]) simp
  finally have sum: "double_plus (Fin s m) (literal (1 / 2)) = Fin False (fl (m + 1 / 2))" .
  have n: "0 \<le> \<lfloor>fl (m + 1 / 2)\<rfloor>" "\<lfloor>fl (m + 1 / 2)\<rfloor> \<le> 10 ^ 6"
    using fl_nonneg [of "m + 1 / 2"] top by (simp_all add: floor_le_iff)
  then have "nat \<lfloor>fl (m + 1 / 2)\<rfloor> \<le> 10 ^ 6" by (simp only: nat_le_iff) simp
  then show ?thesis using n
    by (intro exI [of _ "nat \<lfloor>fl (m + 1 / 2)\<rfloor>"]) (simp add: sum to_int32_def Let_def)
qed

lemma literal_ten: "j \<le> 10 \<Longrightarrow> literal (10 ^ j) = Fin False (10 ^ j)"
  using literal_nat [of "10 ^ j"] power_increasing [of j 10 "10 :: nat"] by simp

lemma of_int32_small: "n \<le> 10 ^ 6 \<Longrightarrow> of_int32 (int n) = Fin False (of_nat n)"
  using round_small [of "of_nat n" "10 ^ 6" False] fl_of_nat [of n] by (simp add: of_int32_def)

lemma scaled_up:
  assumes "is_double (Fin s m)" and "s \<longrightarrow> m = 0" and "j \<le> 10" and "m * 10 ^ j \<le> 10 ^ 6"
  shows "\<exists>n. to_int32 (double_plus (Fin s m * literal (10 ^ j)) (literal (1 / 2))) = Inr (int n) \<and> n \<le> 10 ^ 6
    \<and> (double_eq (double_divide (of_int32 (int n)) (literal (10 ^ j))) (Fin s m) \<longrightarrow> m = fl (of_nat n * power_int 10 (- int j)))"
proof -
  have le: "m * 10 ^ j \<le> of_nat (10 ^ 6)" using assms(4) by simp
  have scaled: "Fin s m * literal (10 ^ j) = Fin s (fl (m * 10 ^ j))"
    using round_small [OF le] by (simp add: literal_ten [OF assms(3)])
  have "0 \<le> m * 10 ^ j" using assms(1) by simp
  have "fl (m * 10 ^ j) \<le> 10 ^ 6" using fl_small [OF le] by simp
  then obtain n where n: "to_int32 (double_plus (Fin s m * literal (10 ^ j)) (literal (1 / 2))) = Inr (int n)" "n \<le> 10 ^ 6"
    using plus_half [of "fl (m * 10 ^ j)" s] assms(2) by (auto simp: scaled fl_nonneg)
  have "(of_nat n :: rat) \<le> of_nat (10 ^ 6)" using n(2) by (simp only: of_nat_le_iff)
  then have "of_nat n / 10 ^ j \<le> (of_nat (10 ^ 6) :: rat)"
    using one_le_power [of "10 :: rat" j] by (intro order_trans [OF divide_left_mono [of 1 "10 ^ j" "of_nat n"]]) simp_all
  from round_small [OF this, of False] have reread: "double_divide (of_int32 (int n)) (literal (10 ^ j)) = Fin False (fl (of_nat n / 10 ^ j))"
    by (simp add: of_int32_small [OF n(2)] literal_ten [OF assms(3)])
  have "(of_nat n :: rat) / 10 ^ j = of_nat n * power_int 10 (- int j)"
    by (simp add: power_int_minus divide_inverse)
  then show ?thesis using n assms(2) by (intro exI [of _ n]) (auto simp: reread)
qed

lemma scaled_down:
  assumes "is_double (Fin s m)" and "s \<longrightarrow> m = 0" and "j \<le> 4" and "m / 10 ^ j \<le> 10 ^ 6"
  shows "\<exists>n. to_int32 (double_plus (double_divide (Fin s m) (literal (10 ^ j))) (literal (1 / 2))) = Inr (int n) \<and> n \<le> 10 ^ 6
    \<and> (double_eq (of_int32 (int n) * literal (10 ^ j)) (Fin s m) \<longrightarrow> m = fl (of_nat n * power_int 10 (int j)))"
proof -
  have j: "j \<le> 10" using assms(3) by simp
  have le: "m / 10 ^ j \<le> of_nat (10 ^ 6)" using assms(4) by simp
  have scaled: "double_divide (Fin s m) (literal (10 ^ j)) = Fin s (fl (m / 10 ^ j))"
    using round_small [OF le] by (simp add: literal_ten [OF j])
  have "fl (m / 10 ^ j) \<le> 10 ^ 6" using fl_small [OF le] by simp
  then obtain n where n: "to_int32 (double_plus (double_divide (Fin s m) (literal (10 ^ j))) (literal (1 / 2))) = Inr (int n)" "n \<le> 10 ^ 6"
    using plus_half [of "fl (m / 10 ^ j)" s] assms(2) by (auto simp: scaled fl_nonneg)
  have "n * 10 ^ j \<le> 10 ^ 6 * 10 ^ 4"
    using n(2) power_increasing [of j 4 "10 :: nat"] assms(3) by (intro mult_mono) simp_all
  then have "(of_nat (n * 10 ^ j) :: rat) \<le> of_nat (10 ^ 10)" by (simp only: of_nat_le_iff) simp
  then have "of_nat n * 10 ^ j \<le> (of_nat (10 ^ 10) :: rat)" by simp
  from round_small [OF this, of False] have reread: "of_int32 (int n) * literal (10 ^ j) = Fin False (fl (of_nat n * 10 ^ j))"
    by (simp add: of_int32_small [OF n(2)] literal_ten [OF j])
  show ?thesis using n assms(2) by (intro exI [of _ n]) (auto simp: reread)
qed

text \<open>
  The tables: an entry is chosen by the first threshold the number reaches, so each entry is
  only met by numbers of at most the threshold before it.
\<close>

lemma not_below: "\<not> literal t \<le> Fin s m \<Longrightarrow> t \<le> 10 ^ 10 \<Longrightarrow> Fin s m < literal t"
  by (simp add: literal_small)

lemma table_step:
  assumes "is_double (Fin s m)" and "s \<longrightarrow> m = 0" and "0 \<le> t \<and> t \<le> 10 ^ 10" and "Q x" and "m \<le> t \<Longrightarrow> Q y"
  shows "Q (if literal t \<le> Fin s m then x else y)"
  using assms below_literal [OF assms(1,2) not_below, of t] by simp

definition scales_up :: "rat \<Rightarrow> double \<Rightarrow> bool" where
  "scales_up m x \<longleftrightarrow> (\<exists>j \<le> 10. x = literal (10 ^ j) \<and> m * 10 ^ j \<le> 10 ^ 6)"

definition scales_down :: "rat \<Rightarrow> double \<Rightarrow> bool" where
  "scales_down m x \<longleftrightarrow> (\<exists>j \<le> 4. x = literal (10 ^ j) \<and> m / 10 ^ j \<le> 10 ^ 6)"

lemma scales_upI: "j \<le> 10 \<Longrightarrow> m * 10 ^ j \<le> 10 ^ 6 \<Longrightarrow> scales_up m (literal (10 ^ j))"
  and scales_downI: "j \<le> 4 \<Longrightarrow> m / 10 ^ j \<le> 10 ^ 6 \<Longrightarrow> scales_down m (literal (10 ^ j))"
  by (auto simp: scales_up_def scales_down_def)

lemma mul_table:
  assumes ok: "is_double (Fin s m)" "s \<longrightarrow> m = 0" and below: "Fin s m < literal 1000000"
  shows "scales_up m (mulfor6 (Fin s m))"
proof -
  note step = table_step [OF ok, where Q = "scales_up m"]
  have "m \<le> 1000000" using below_literal [OF ok below] by simp
  then have one: "scales_up m (literal 1)" using scales_upI [of 0 m] by simp
  show ?thesis
    unfolding mulfor6_def by (intro step scales_upI) (use one in simp_all)
qed

lemma div_table:
  assumes ok: "is_double (Fin s m)" "s \<longrightarrow> m = 0" and below: "Fin s m < literal (10 ^ 10)" and at_least: "literal (10 ^ 6) \<le> Fin s m"
  shows "scales_down m (divfor6 (Fin s m))"
proof -
  note step = table_step [OF ok, where Q = "scales_down m"]
  have top: "m \<le> 10 ^ 10" using below_literal [OF ok below] by simp
  have entry: "scales_down m (literal 10000)" "m \<le> 10 ^ 9 \<Longrightarrow> scales_down m (literal 1000)"
    "m \<le> 10 ^ 8 \<Longrightarrow> scales_down m (literal 100)" "m \<le> 10 ^ 7 \<Longrightarrow> scales_down m (literal 10)"
    "m \<le> 10 ^ 6 \<Longrightarrow> scales_down m (literal 1)"
    using top scales_downI [of 4 m] scales_downI [of 3 m] scales_downI [of 2 m] scales_downI [of 1 m] scales_downI [of 0 m]
    by simp_all
  show ?thesis
    unfolding divfor6_def by (intro step entry) simp_all
qed

lemma resolution_decided:
  assumes "is_double v"
  shows "\<exists>r. AppropriateResolution full v = Inr r
    \<and> (r = full \<or> r = 6 \<and> (\<exists>s n k. n \<le> 10 ^ 6 \<and> -10 \<le> k \<and> k \<le> 4 \<and> v = Fin s (fl (of_nat n * power_int 10 k))))"
proof -
  let ?val = "if v < literal 0 then negated v else v"
  have zero: "literal 0 = Fin False 0" by (simp add: literal_small)
  show ?thesis
  proof (cases ?val)
    case (Fin s m)
    have val: "is_double (Fin s m)" "s \<longrightarrow> m = 0" "\<exists>s'. v = Fin s' m"
      using assms Fin by (cases v; auto simp: zero split: if_splits)+
    show ?thesis
    proof (cases "Fin s m < literal 1000000")
      case True
      from mul_table [OF val(1,2) True] obtain j where j: "j \<le> 10" "mulfor6 (Fin s m) = literal (10 ^ j)" "m * 10 ^ j \<le> 10 ^ 6"
        unfolding scales_up_def by blast
      from scaled_up [OF val(1,2) j(1,3)] obtain n where n:
        "to_int32 (double_plus (Fin s m * mulfor6 (Fin s m)) (literal (1 / 2))) = Inr (int n)" "n \<le> 10 ^ 6"
        "double_eq (double_divide (of_int32 (int n)) (mulfor6 (Fin s m))) (Fin s m) \<longrightarrow> m = fl (of_nat n * power_int 10 (- int j))"
        unfolding j(2) by blast
      then show ?thesis using True val(3) j(1) unfolding AppropriateResolution_def Fin Let_def
        by (auto intro!: exI [of _ n] exI [of _ "- int j"])
    next
      case False
      show ?thesis
      proof (cases "Fin s m < literal (10 ^ 10)")
        case True
        have "literal (10 ^ 6) \<le> Fin s m" using False by (simp add: literal_small)
        from div_table [OF val(1,2) True this] obtain j where j: "j \<le> 4" "divfor6 (Fin s m) = literal (10 ^ j)" "m / 10 ^ j \<le> 10 ^ 6"
          unfolding scales_down_def by blast
        from scaled_down [OF val(1,2) j(1,3)] obtain n where n:
          "to_int32 (double_plus (double_divide (Fin s m) (divfor6 (Fin s m))) (literal (1 / 2))) = Inr (int n)" "n \<le> 10 ^ 6"
          "double_eq (of_int32 (int n) * divfor6 (Fin s m)) (Fin s m) \<longrightarrow> m = fl (of_nat n * power_int 10 (int j))"
          unfolding j(2) by blast
        then show ?thesis using False True val(3) j(1) unfolding AppropriateResolution_def Fin Let_def
          by (auto intro!: exI [of _ n] exI [of _ "int j"])
      next
        case False': False
        then show ?thesis using False unfolding AppropriateResolution_def Fin Let_def by simp
      qed
    qed
  next
    case (Inf s)
    then have "\<not> ?val < literal 1000000" "\<not> ?val < literal (10 ^ 10)"
      by (cases v; auto simp: literal_small zero split: if_splits)+
    then show ?thesis unfolding AppropriateResolution_def Let_def by simp
  next
    case (NaN s)
    then show ?thesis unfolding AppropriateResolution_def Let_def by simp
  qed
qed

text \<open>Whole numbers below a million are scaled exactly.\<close>

lemma whole_plus_half:
  assumes "k \<le> 10 ^ 6"
  shows "to_int32 (double_plus (Fin False (of_nat k)) (literal (1 / 2))) = Inr (int k)"
proof -
  have half: "literal (1 / 2) = Fin False (1 / 2)"
    using fl_exact [of 1 "-1"] by (simp add: literal_small power_int_minus)
  have exact: "fl (of_nat k + 1 / 2) = of_nat k + 1 / 2"
    using fl_exact [of "2 * int k + 1" "-1"] assms by (simp add: power_int_minus field_simps)
  have "(of_nat k :: rat) \<le> of_nat (10 ^ 6)" using assms by (simp only: of_nat_le_iff)
  then have le: "of_nat k + 1 / 2 \<le> (of_nat (10 ^ 6 + 1) :: rat)" by simp
  have pos: "0 < (of_nat k + 1 / 2 :: rat)" by (simp add: add_nonneg_pos)
  then have "double_plus (Fin False (of_nat k)) (literal (1 / 2)) = round_to False (of_nat k + 1 / 2)"
    by (simp add: half Let_def)
  then have sum: "double_plus (Fin False (of_nat k)) (literal (1 / 2)) = Fin False (of_nat k + 1 / 2)"
    using round_small [OF le, of False] by (simp add: exact)
  have "\<lfloor>of_nat k + 1 / 2 :: rat\<rfloor> = int k" by (rule floor_unique) simp_all
  then show ?thesis using assms by (simp add: sum to_int32_def Let_def)
qed

lemma whole_number_six:
  assumes "n < 10 ^ 6"
  shows "AppropriateResolution full (literal (of_nat n)) = Inr 6"
proof -
  let ?m = "of_nat n :: rat"
  have m: "literal ?m = Fin False ?m" using literal_nat [of n] assms by simp
  have ok: "is_double (Fin False ?m)" using literal_nat [of n] is_double_round_to [of False ?m] assms by (simp add: literal_def)
  have "?m < of_nat (10 ^ 6)" using assms by (simp only: of_nat_less_iff)
  then have below: "Fin False ?m < literal 1000000" using literal_nat [of "10 ^ 6"] by simp
  obtain j where j: "j \<le> 10" "mulfor6 (Fin False ?m) = literal (10 ^ j)" "?m * 10 ^ j \<le> 10 ^ 6"
    using mul_table [OF ok _ below] unfolding scales_up_def by blast
  have "of_nat (n * 10 ^ j) \<le> (of_nat (10 ^ 6) :: rat)" using j(3) by simp
  then have k: "n * 10 ^ j \<le> 10 ^ 6" by (simp only: of_nat_le_iff)
  have "fl (of_nat (n * 10 ^ j)) = of_nat (n * 10 ^ j)" using k by (intro fl_of_nat) simp
  then have up: "Fin False ?m * mulfor6 (Fin False ?m) = Fin False (of_nat (n * 10 ^ j))"
    using round_small [of "?m * 10 ^ j" "10 ^ 6" False] j(3) by (simp add: j(2) literal_ten [OF j(1)])
  have "of_int32 (int (n * 10 ^ j)) = Fin False (of_nat (n * 10 ^ j))" by (rule of_int32_small [OF k])
  moreover have "round_to False ?m = Fin False ?m" using m by (simp add: literal_def)
  ultimately have "double_eq (double_divide (of_int32 (int (n * 10 ^ j))) (mulfor6 (Fin False ?m))) (Fin False ?m)"
    by (simp add: j(2) literal_ten [OF j(1)])
  moreover have "\<not> Fin False ?m < literal 0" using literal_nat [of 0] by simp
  ultimately show ?thesis
    using below whole_plus_half [OF k] unfolding m AppropriateResolution_def Let_def by (simp add: up)
qed

text \<open>
  C40. Deciding how many digits a number is printed with never overflows the \<open>int32_t\<close> it converts to, for any
  value. Six digits are chosen only for the \<open>double\<close> nearest to a decimal number of at most six digits,
  so nothing is lost when they are read back, and they are chosen for every whole number below a million.
\<close>

theorem six_digits_suffice:
  assumes "is_double v"
  shows "(\<exists>r. AppropriateResolution full v = Inr r
    \<and> (r = full \<or> r = 6 \<and> (\<exists>s n k. n \<le> 10 ^ 6 \<and> -10 \<le> k \<and> k \<le> 4 \<and> v = Fin s (fl (of_nat n * power_int 10 k)))))
    \<and> (n < 10 ^ 6 \<longrightarrow> AppropriateResolution full (literal (of_nat n)) = Inr 6)"
  by (intro conjI impI resolution_decided [OF assms] whole_number_six)

theorem six_digits_suffice_witness:
  "(\<exists>r. AppropriateResolution 17 (Fin False (1 / 2)) = Inr r \<and> (r = 17 \<or> r = 6)) \<and> AppropriateResolution 17 (literal 60) = Inr 6"
proof -
  have "is_double (Fin False (1 / 2))"
    using fl_exact [of 1 "-1"] by (simp add: power_int_minus max_finite_def)
  from six_digits_suffice [OF this, of 17 60] show ?thesis by auto
qed

end
