(* ===== verification/Gtest_Printing.thy ===== *)
theory Gtest_Printing
  imports Gtest_Arrays Gtest_Types Gtest_Resolution
begin

section \<open>Printing values of any type (gtest-printers.h)\<close>

text \<open>
  The printer of a value is found by its type. A value of the model carries what of its type
  decides, so \<open>UniversalPrint\<close> and the terse printer are functions of values. What the
  headers only declare, and what \<open><<\<close> writes for a number or an address, are parameters.
\<close>

subsection \<open>Choosing the printer of a type without one of its own\<close>

datatype printer = Container | FunctionPointer | PointerP | Protobuf | AbslStringify | Stream
  | ConvertibleToInteger | ConvertibleToStringView | RawBytes | Fallback

text \<open>What the conditions of the printers ask of a type.\<close>

record traits =
  container_test :: bool
  recursive_container :: bool
  function_pointer :: bool
  object_pointer :: bool
  debug_strings :: bool
  absl_stringify :: bool
  member_pointer :: bool
  streamable :: bool
  to_BiggestInt :: bool
  to_string_view :: bool
  complete_type :: bool

text \<open>Whether \<open>PrintValue\<close> of a printer can be called for the type; the view is missing without library support.\<close>

fun accepts :: "bool \<Rightarrow> traits \<Rightarrow> printer \<Rightarrow> bool" where
  "accepts has_view t Container \<longleftrightarrow> container_test t \<and> \<not> recursive_container t"
| "accepts has_view t FunctionPointer \<longleftrightarrow> function_pointer t"
| "accepts has_view t PointerP \<longleftrightarrow> function_pointer t \<or> object_pointer t"
| "accepts has_view t Protobuf \<longleftrightarrow> debug_strings t"
| "accepts has_view t AbslStringify \<longleftrightarrow> absl_stringify t"
| "accepts has_view t Stream \<longleftrightarrow> \<not> member_pointer t \<and> streamable t"
| "accepts has_view t ConvertibleToInteger \<longleftrightarrow> to_BiggestInt t"
| "accepts has_view t ConvertibleToStringView \<longleftrightarrow> has_view \<and> to_string_view t"
| "accepts has_view t RawBytes \<longleftrightarrow> complete_type t"
| "accepts has_view t Fallback \<longleftrightarrow> True"

fun FindFirstPrinter :: "bool \<Rightarrow> traits \<Rightarrow> printer list \<Rightarrow> printer option" where
  "FindFirstPrinter has_view t [] = None"
| "FindFirstPrinter has_view t (p # ps) = (if accepts has_view t p then Some p else FindFirstPrinter has_view t ps)"

definition PrintWithFallback :: "bool \<Rightarrow> bool \<Rightarrow> traits \<Rightarrow> printer option" where
  "PrintWithFallback has_absl has_view t = FindFirstPrinter has_view t
     ([Container, FunctionPointer, PointerP, Protobuf] @ (if has_absl then [AbslStringify] else []) @
      [Stream, ConvertibleToInteger, ConvertibleToStringView, RawBytes, Fallback])"

subsection \<open>Values\<close>

text \<open>
  A value of a type without a printer of its own: its elements if it is a container, and for
  each other printer what that one writes from.
\<close>

record object =
  obj_address :: "nat option"
  short_debug :: string
  debug :: string
  absl_text :: string
  streams_as :: string
  as_integer :: int
  as_view :: string
  bytes :: "nat list"

text \<open>The characters wider than \<open>char\<close>, and the strings made of them.\<close>

datatype width = Char8 | Char16 | Char32 | Wchar

datatype cpp_value =
    V_bool bool
  | V_char int
  | V_unsigned_char nat
  | V_signed_char nat
  | V_char16 nat
  | V_char32 nat
  | V_wchar nat
  | V_double double
  | V_c_string "(nat \<times> string) option"
  | V_wide_c_string width "(nat \<times> nat list) option"
  | V_byte_pointer "nat option"
  | V_string string
  | V_wide_string width "nat list"
  | V_view string
  | V_nullptr
  | V_type_info string
  | V_reference_wrapper nat cpp_value
  | V_smart_pointer "(nat \<times> cpp_value option) option"
  | V_tuple "cpp_value list"
  | V_pair cpp_value cpp_value
  | V_any "string option"
  | V_optional "cpp_value option"
  | V_nullopt
  | V_variant string nat cpp_value
  | V_array nat "cpp_value list"
  | V_char_array nat string
  | V_wide_array width nat "nat list"
  | V_reference nat cpp_value
  | V_other traits "cpp_value list" object

record printing =
  put_unsigned_char :: "nat \<Rightarrow> string"
  put_signed_char :: "nat \<Rightarrow> string"
  put_char32 :: "nat \<Rightarrow> string"
  put_wchar :: "nat \<Rightarrow> string"
  put_double :: "int \<Rightarrow> double \<Rightarrow> string"
  put_c_string :: "(nat \<times> string) option \<Rightarrow> string"
  put_wide_c_string :: "width \<Rightarrow> (nat \<times> nat list) option \<Rightarrow> string"
  put_string :: "string \<Rightarrow> string"
  put_wide_string :: "width \<Rightarrow> nat list \<Rightarrow> string"
  put_char_array :: "string \<Rightarrow> string"
  put_wide_array :: "width \<Rightarrow> nat list \<Rightarrow> string"
  put_address :: "nat \<Rightarrow> string"
  put_integer :: "int \<Rightarrow> string"
  put_bytes :: "nat list \<Rightarrow> string"
  demangling :: "string \<Rightarrow> string option"
  with_absl :: bool
  with_view :: bool

text \<open>The printers of the types without one of their own; the elements of a container come printed.\<close>

definition FunctionPointerPrinter :: "(nat \<Rightarrow> string) \<Rightarrow> nat option \<Rightarrow> string" where
  "FunctionPointerPrinter put p = (case p of None \<Rightarrow> ''NULL'' | Some a \<Rightarrow> put a)"

definition ProtobufPrinter :: "string \<Rightarrow> string \<Rightarrow> string" where
  "ProtobufPrinter ShortDebugString DebugString =
     (let pretty_str = (if length ShortDebugString > 50 then [CHR 0x0A] @ DebugString else ShortDebugString)
      in ''<'' @ pretty_str @ ''>'')"

definition PrintValue :: "printing \<Rightarrow> traits \<Rightarrow> string list \<Rightarrow> object \<Rightarrow> string" where
  "PrintValue lib t elems obj = (case PrintWithFallback (with_absl lib) (with_view lib) t of
     Some Container \<Rightarrow> ContainerPrinter (\<lambda>e. e) elems
   | Some FunctionPointer \<Rightarrow> FunctionPointerPrinter (put_address lib) (obj_address obj)
   | Some PointerP \<Rightarrow> PointerPrinter (\<lambda>_. streams_as obj) (obj_address obj)
   | Some Protobuf \<Rightarrow> ProtobufPrinter (short_debug obj) (debug obj)
   | Some AbslStringify \<Rightarrow> absl_text obj
   | Some Stream \<Rightarrow> streams_as obj
   | Some ConvertibleToInteger \<Rightarrow> put_integer lib (as_integer obj)
   | Some ConvertibleToStringView \<Rightarrow> put_string lib (as_view obj)
   | Some RawBytes \<Rightarrow> put_bytes lib (bytes obj)
   | Some Fallback \<Rightarrow> ''(incomplete type)''
   | None \<Rightarrow> [])"

subsection \<open>Overloads of PrintTo\<close>

text \<open>A plain \<open>char\<close> is printed as an unsigned one, whichever the compiler takes it for.\<close>

definition PrintTo_char :: "printing \<Rightarrow> int \<Rightarrow> string" where
  "PrintTo_char lib c = put_unsigned_char lib (nat (c mod 256))"

definition PrintTo_bool :: "bool \<Rightarrow> string" where
  "PrintTo_bool x = (if x then ''true'' else ''false'')"

definition PrintTo_char16 :: "printing \<Rightarrow> nat \<Rightarrow> string" where
  "PrintTo_char16 lib c = put_char32 lib c"

text \<open>
  The stream, its precision and its text. A number is printed with the digits \<open>AppropriateResolution\<close> says, and
  the precision the stream had is put back.
\<close>

record ostream =
  precision :: int
  written :: string

definition PrintTo_double :: "(int \<Rightarrow> double \<Rightarrow> string) \<Rightarrow> double \<Rightarrow> (ostream, unit) cpp" where
  "PrintTo_double put d =
     bnd (get precision) (\<lambda>old_precision.
     bnd (get (\<lambda>_. AppropriateResolution 17 d)) (\<lambda>r. case r of
       Inl f \<Rightarrow> fail f
     | Inr n \<Rightarrow>
         seq (upd (\<lambda>os. os\<lparr>precision := n\<rparr>))
        (seq (upd (\<lambda>os. os\<lparr>written := written os @ put (precision os) d\<rparr>))
             (upd (\<lambda>os. os\<lparr>precision := old_precision\<rparr>)))))"

text \<open>What a call of a printer appends to a stream.\<close>

definition appended :: "(ostream, unit) cpp \<Rightarrow> string" where
  "appended print = written (snd (print \<lparr>precision = 6, written = []\<rparr>))"

definition PrintTo_byte_pointer :: "printing \<Rightarrow> nat option \<Rightarrow> string" where
  "PrintTo_byte_pointer lib s = PointerPrinter (put_address lib) s"

definition PrintTo_string :: "printing \<Rightarrow> string \<Rightarrow> string" where
  "PrintTo_string lib s = put_string lib s"

definition PrintTo_wide_string :: "printing \<Rightarrow> width \<Rightarrow> nat list \<Rightarrow> string" where
  "PrintTo_wide_string lib w s = put_wide_string lib w s"

definition PrintTo_view :: "printing \<Rightarrow> string \<Rightarrow> string" where
  "PrintTo_view lib sp = PrintTo_string lib sp"

definition PrintTo_nullptr :: string where
  "PrintTo_nullptr = ''(nullptr)''"

definition PrintTo_type_info :: "printing \<Rightarrow> string \<Rightarrow> string" where
  "PrintTo_type_info lib name = GetTypeName (demangling lib) name"

text \<open>The object behind a smart pointer comes printed; it is missing when its type is \<open>void\<close> or an array.\<close>

definition PrintTo_smart :: "printing \<Rightarrow> (nat \<times> string option) option \<Rightarrow> string" where
  "PrintTo_smart lib p = (case p of
     Some (a, Some t) \<Rightarrow> PrintSmartPointer (put_address lib) (\<lambda>t. t) (Some (a, t))
   | _ \<Rightarrow> PrintSmartPointer_void (put_address lib) (map_option fst p))"

subsection \<open>Universal printers\<close>

definition Print_reference :: "printing \<Rightarrow> nat \<Rightarrow> string \<Rightarrow> string" where
  "Print_reference lib a printed = ''@'' @ put_address lib a @ '' '' @ printed"

definition PrintTo_reference_wrapper :: "printing \<Rightarrow> nat \<Rightarrow> string \<Rightarrow> string" where
  "PrintTo_reference_wrapper lib ref printed = Print_reference lib ref printed"

definition Print_any :: "printing \<Rightarrow> string option \<Rightarrow> string" where
  "Print_any lib held = (case held of
     Some type \<Rightarrow> ''value of type '' @ GetTypeName (demangling lib) type
   | None \<Rightarrow> ''no value'')"

definition Print_nullopt :: string where
  "Print_nullopt = ''(nullopt)''"

definition Print_variant :: "printing \<Rightarrow> string \<Rightarrow> nat \<Rightarrow> string \<Rightarrow> string" where
  "Print_variant lib type index printed =
     ''('' @ [CHR 0x27] @ GetTypeName (demangling lib) type @ ''(index = '' @ to_string (int index) @ '')''
       @ [CHR 0x27] @ '' with value '' @ printed @ '')''"

fun UniversalPrint :: "printing \<Rightarrow> cpp_value \<Rightarrow> string" where
  "UniversalPrint lib (V_bool x) = PrintTo_bool x"
| "UniversalPrint lib (V_char c) = PrintTo_char lib c"
| "UniversalPrint lib (V_unsigned_char c) = put_unsigned_char lib c"
| "UniversalPrint lib (V_signed_char c) = put_signed_char lib c"
| "UniversalPrint lib (V_char16 c) = PrintTo_char16 lib c"
| "UniversalPrint lib (V_char32 c) = put_char32 lib c"
| "UniversalPrint lib (V_wchar c) = put_wchar lib c"
| "UniversalPrint lib (V_double d) = appended (PrintTo_double (put_double lib) d)"
| "UniversalPrint lib (V_c_string s) = put_c_string lib s"
| "UniversalPrint lib (V_wide_c_string w s) = put_wide_c_string lib w s"
| "UniversalPrint lib (V_byte_pointer p) = PrintTo_byte_pointer lib p"
| "UniversalPrint lib (V_string s) = PrintTo_string lib s"
| "UniversalPrint lib (V_wide_string w s) = PrintTo_wide_string lib w s"
| "UniversalPrint lib (V_view s) = PrintTo_view lib s"
| "UniversalPrint lib V_nullptr = PrintTo_nullptr"
| "UniversalPrint lib (V_type_info name) = PrintTo_type_info lib name"
| "UniversalPrint lib (V_reference_wrapper a v) = PrintTo_reference_wrapper lib a (UniversalPrint lib v)"
| "UniversalPrint lib (V_smart_pointer p) =
     PrintTo_smart lib (map_option (\<lambda>(a, held). (a, map_option (UniversalPrint lib) held)) p)"
| "UniversalPrint lib (V_tuple vs) = PrintTo_tuple (map (UniversalPrint lib) vs)"
| "UniversalPrint lib (V_pair v w) = PrintTo_pair (\<lambda>t. t) (\<lambda>t. t) (UniversalPrint lib v, UniversalPrint lib w)"
| "UniversalPrint lib (V_any held) = Print_any lib held"
| "UniversalPrint lib (V_optional held) = Print_optional (\<lambda>t. t) (map_option (UniversalPrint lib) held)"
| "UniversalPrint lib V_nullopt = Print_nullopt"
| "UniversalPrint lib (V_variant type index v) = Print_variant lib type index (UniversalPrint lib v)"
| "UniversalPrint lib (V_array a vs) = UniversalPrintArray (\<lambda>t. t) (map (UniversalPrint lib) vs)"
| "UniversalPrint lib (V_char_array a s) = put_char_array lib s"
| "UniversalPrint lib (V_wide_array w a s) = put_wide_array lib w s"
| "UniversalPrint lib (V_reference a v) = Print_reference lib a (UniversalPrint lib v)"
| "UniversalPrint lib (V_other t elems obj) = PrintValue lib t (map (UniversalPrint lib) elems) obj"

subsection \<open>Terse printers\<close>

definition TersePrint_c_string :: "printing \<Rightarrow> (nat \<times> string) option \<Rightarrow> string" where
  "TersePrint_c_string lib str = (case str of None \<Rightarrow> ''NULL'' | Some (a, t) \<Rightarrow> UniversalPrint lib (V_string t))"

definition TersePrint_wide_c_string :: "printing \<Rightarrow> width \<Rightarrow> (nat \<times> nat list) option \<Rightarrow> string" where
  "TersePrint_wide_c_string lib w str = (case str of None \<Rightarrow> ''NULL'' | Some (a, t) \<Rightarrow> UniversalPrint lib (V_wide_string w t))"

fun UniversalTersePrint :: "printing \<Rightarrow> cpp_value \<Rightarrow> string" where
  "UniversalTersePrint lib (V_reference a v) = UniversalPrint lib v"
| "UniversalTersePrint lib (V_reference_wrapper a v) = UniversalTersePrint lib v"
| "UniversalTersePrint lib (V_c_string s) = TersePrint_c_string lib s"
| "UniversalTersePrint lib (V_wide_c_string w s) = TersePrint_wide_c_string lib w s"
| "UniversalTersePrint lib v = UniversalPrint lib v"

definition PrintToString :: "printing \<Rightarrow> cpp_value \<Rightarrow> string" where
  "PrintToString lib v = UniversalTersePrint lib v"

fun TersePrintPrefixToStrings :: "printing \<Rightarrow> cpp_value list \<Rightarrow> nat \<Rightarrow> string list \<Rightarrow> string list" where
  "TersePrintPrefixToStrings lib t 0 strings = strings"
| "TersePrintPrefixToStrings lib t (Suc i) strings =
     TersePrintPrefixToStrings lib t i strings @ [UniversalTersePrint lib (t ! i)]"

definition UniversalTersePrintTupleFieldsToStrings :: "printing \<Rightarrow> cpp_value list \<Rightarrow> string list" where
  "UniversalTersePrintTupleFieldsToStrings lib t = TersePrintPrefixToStrings lib t (length t) []"

subsection \<open>What a failed comparison shows of an operand\<close>

text \<open>
  A pointer to characters is a text beside a string of the same characters and an address beside
  anything else. An array is shown as the pointer to its first element.
\<close>

definition format_c_string :: "printing \<Rightarrow> (nat \<times> string) option \<Rightarrow> cpp_value \<Rightarrow> string" where
  "format_c_string lib v other = (case other of
     V_string _ \<Rightarrow> PrintToString lib (V_c_string v)
   | _ \<Rightarrow> PrintToString lib (V_byte_pointer (map_option fst v)))"

definition format_wide_c_string :: "printing \<Rightarrow> width \<Rightarrow> (nat \<times> nat list) option \<Rightarrow> cpp_value \<Rightarrow> string" where
  "format_wide_c_string lib w v other =
     (if (case other of V_wide_string w' _ \<Rightarrow> w' = w | _ \<Rightarrow> False) then PrintToString lib (V_wide_c_string w v)
      else PrintToString lib (V_byte_pointer (map_option fst v)))"

definition FormatForComparison :: "printing \<Rightarrow> cpp_value \<Rightarrow> cpp_value \<Rightarrow> string" where
  "FormatForComparison lib v other = (case v of
     V_c_string s \<Rightarrow> format_c_string lib s other
   | V_wide_c_string w s \<Rightarrow> format_wide_c_string lib w s other
   | V_char_array a t \<Rightarrow> format_c_string lib (Some (a, t)) other
   | V_wide_array w a t \<Rightarrow> format_wide_c_string lib w (Some (a, t)) other
   | V_array a vs \<Rightarrow> PrintToString lib (V_byte_pointer (Some a))
   | _ \<Rightarrow> PrintToString lib v)"

definition FormatForComparisonFailureMessage :: "printing \<Rightarrow> cpp_value \<Rightarrow> cpp_value \<Rightarrow> string" where
  "FormatForComparisonFailureMessage lib v other_operand = FormatForComparison lib v other_operand"

subsection \<open>Facts\<close>

lemma first_accepting: "FindFirstPrinter has_view t ps = List.find (accepts has_view t) ps"
  by (induction ps) simp_all

text \<open>Some printer is always found, and only an incomplete type that nothing else can print is not shown.\<close>

lemma always_a_printer: "PrintWithFallback has_absl has_view t \<noteq> None"
  by (simp add: PrintWithFallback_def)

lemma incomplete_only:
  "PrintWithFallback has_absl has_view t = Some Fallback \<Longrightarrow> \<not> complete_type t \<and> \<not> (streamable t \<and> \<not> member_pointer t)"
  by (auto simp: PrintWithFallback_def split: if_splits)

text \<open>A container with a streaming operator of its own is printed by its elements, an enumeration by its number.\<close>

lemma container_first:
  "container_test t \<Longrightarrow> \<not> recursive_container t \<Longrightarrow> PrintWithFallback has_absl has_view t = Some Container"
  by (simp add: PrintWithFallback_def)

lemma enumeration_by_number:
  "to_BiggestInt t \<Longrightarrow> \<not> streamable t \<Longrightarrow> \<not> container_test t \<Longrightarrow> \<not> function_pointer t \<Longrightarrow> \<not> object_pointer t
    \<Longrightarrow> \<not> debug_strings t \<Longrightarrow> \<not> absl_stringify t \<Longrightarrow> PrintWithFallback has_absl has_view t = Some ConvertibleToInteger"
  by (simp add: PrintWithFallback_def)

lemma terse_fields: "UniversalTersePrintTupleFieldsToStrings lib t = map (UniversalTersePrint lib) t"
proof -
  have "i \<le> length t \<Longrightarrow> TersePrintPrefixToStrings lib t i strings = strings @ map (UniversalTersePrint lib) (take i t)"
    for i strings
    by (induction i) (simp_all add: take_Suc_conv_app_nth)
  then show ?thesis by (simp add: UniversalTersePrintTupleFieldsToStrings_def)
qed

text \<open>Printing a number is defined for every value, and leaves the precision of the stream as it was.\<close>

lemma double_on_stream:
  assumes "is_double d"
  shows "\<exists>n. PrintTo_double put d os = (Inr (), os\<lparr>written := written os @ put n d\<rparr>) \<and> (n = 6 \<or> n = 17)"
  using resolution_decided [OF assms, of 17] by (auto simp: PrintTo_double_def bnd_app seq_def)

lemma double_printed:
  assumes "is_double d"
  shows "\<exists>n. UniversalPrint lib (V_double d) = put_double lib n d \<and> (n = 6 \<or> n = 17)"
proof -
  let ?os = "\<lparr>precision = 6, written = []\<rparr>"
  obtain n where "PrintTo_double (put_double lib) d ?os = (Inr (), ?os\<lparr>written := written ?os @ put_double lib n d\<rparr>)"
    and "n = 6 \<or> n = 17"
    using double_on_stream [OF assms] by blast
  then show ?thesis by (intro exI [of _ n]) (simp add: appended_def)
qed

text \<open>
  The values a failed comparison shows: a C string and an array of characters are shown as a text
  beside a \<open>std::string\<close> and as an address beside anything else, so that of two C strings with equal texts
  the addresses are shown; a null pointer is never read. Containers show at most 32 elements and arrays at most 16 of more
  than 18.
\<close>

theorem shown_operands:
  shows "FormatForComparison lib (V_c_string (Some (a, t))) (V_string u) = put_string lib t
    \<and> FormatForComparison lib (V_char_array a t) (V_string u) = put_string lib t
    \<and> FormatForComparison lib (V_c_string (Some (a, t))) (V_c_string s) = put_address lib a
    \<and> FormatForComparison lib (V_c_string None) v = ''NULL''
    \<and> FormatForComparison lib (V_wide_c_string w (Some (a, ws))) (V_wide_string w' us)
        = (if w' = w then put_wide_string lib w ws else put_address lib a)
    \<and> PrintToString lib (V_other \<lparr>container_test = True, recursive_container = False, function_pointer = False,
          object_pointer = False, debug_strings = False, absl_stringify = False, member_pointer = False,
          streamable = b, to_BiggestInt = False, to_string_view = False, complete_type = True\<rparr> vs obj) =
        (if vs = [] then ''{}'' else ''{ '' @ commas (map (UniversalPrint lib) (take 32 vs))
           @ (if 32 < length vs then '', ...'' else []) @ '' }'')
    \<and> PrintToString lib (V_array a vs) = (if vs = [] then ''{}'' else ''{ '' @
        (if length vs \<le> 18 then commas (map (UniversalPrint lib) vs)
         else commas (map (UniversalPrint lib) (take 8 vs)) @ '', ..., ''
           @ commas (map (UniversalPrint lib) (drop (length vs - 8) vs))) @ '' }'')"
  by (simp add: FormatForComparison_def format_c_string_def format_wide_c_string_def TersePrint_wide_c_string_def PrintTo_wide_string_def PrintToString_def TersePrint_c_string_def PrintTo_string_def
      PrintTo_byte_pointer_def PointerPrinter_def PrintValue_def container_first print_container print_array take_map drop_map
      split: cpp_value.split)

end
