(* ===== verification/Teardown.thy ===== *)
theory Teardown
  imports Prelude
begin

section \<open>Destructors (Database/mariaDBHandler.cpp, Database/tradingDataHandler.cpp, InertiaTrader/server.cpp)\<close>

text \<open>
  What the destructors would do if they ran: the program never deletes the objects, so
  no turn of the process contains them. The objects of the client library are numbered;
  \<open>True\<close> stands for one that is allocated.
\<close>

record session =
  conn :: "nat option"
  res :: "nat option"
  handles :: "bool list"
  results :: "bool list"
  closed :: "int list"   \<comment> \<open>the file descriptors given to \<open>close\<close>\<close>

text \<open>A handle or a result may be released once; nothing happens for a null pointer.\<close>

definition mysql_close :: "nat option \<Rightarrow> (session, unit) cpp" where
  "mysql_close p = (case p of None \<Rightarrow> ret () | Some a \<Rightarrow>
     bnd (get (\<lambda>s. a < length (handles s) \<and> handles s ! a)) (\<lambda>alive.
       if alive then upd (\<lambda>s. s\<lparr>handles := (handles s)[a := False]\<rparr>) else fail (Undefined Dangling)))"

definition mysql_free_result :: "nat option \<Rightarrow> (session, unit) cpp" where
  "mysql_free_result p = (case p of None \<Rightarrow> ret () | Some a \<Rightarrow>
     bnd (get (\<lambda>s. a < length (results s) \<and> results s ! a)) (\<lambda>alive.
       if alive then upd (\<lambda>s. s\<lparr>results := (results s)[a := False]\<rparr>) else fail (Undefined Dangling)))"

definition MariaDBHandler_destructor :: "(session, unit) cpp" where
  "MariaDBHandler_destructor = bnd (get conn) mysql_close"

text \<open>The destructor of the base class runs after the body.\<close>

definition TradingDataHandler_destructor :: "(session, unit) cpp" where
  "TradingDataHandler_destructor =
     seq (bnd (get res) mysql_free_result)
    (seq (bnd (get conn) mysql_close)
         MariaDBHandler_destructor)"

definition Server_destructor :: "int \<Rightarrow> (session, unit) cpp" where
  "Server_destructor connfd =
     seq (upd (\<lambda>s. s\<lparr>closed := closed s @ [connfd]\<rparr>))
         TradingDataHandler_destructor"

lemmas teardown_defs = mysql_close_def mysql_free_result_def MariaDBHandler_destructor_def
  TradingDataHandler_destructor_def Server_destructor_def

text \<open>
  A handler that has connected cannot be destroyed: both classes close the connection. The functions that read
  rows have freed the result already, so after one of them not even the first statement is defined.
\<close>

lemma closed_twice:
  "conn s = Some c \<Longrightarrow> fst (TradingDataHandler_destructor s) = Inl (Undefined Dangling)"
  by (simp add: teardown_defs bnd_app seq_def run_simps ret_def fail_def upd_def get_def split: option.splits)

lemma freed_twice:
  "res s = Some r \<Longrightarrow> results s ! r = False \<Longrightarrow> TradingDataHandler_destructor s = (Inl (Undefined Dangling), s)"
  by (simp add: teardown_defs bnd_app seq_def run_simps)

lemma server_cannot_be_destroyed:
  "conn s = Some c \<Longrightarrow> fst (Server_destructor fd s) = Inl (Undefined Dangling)"
  using closed_twice [of "s\<lparr>closed := closed s @ [fd]\<rparr>" c] by (simp add: Server_destructor_def bnd_app seq_def run_simps)

end
