(* ===== verification/Schedules.thy ===== *)
theory Schedules
  imports Main
begin

section \<open>Runs of interleaved threads\<close>

text \<open>
  Several threads that take turns in any order: the states reached by a step relation labelled
  with the thread that moves, and runs of a given schedule, with the step as a function. The
  locale is what a model of threads provides: the function computes steps, and its invariant is kept.
\<close>

inductive reach :: "('s \<Rightarrow> 't \<Rightarrow> 's \<Rightarrow> bool) \<Rightarrow> 's \<Rightarrow> 's \<Rightarrow> bool" for step where
  refl: "reach step s s"
| more: "reach step s s' \<Longrightarrow> step s' t s'' \<Longrightarrow> reach step s s''"

fun schedule :: "('s \<Rightarrow> 't \<Rightarrow> 's option) \<Rightarrow> 's \<Rightarrow> 't list \<Rightarrow> 's option" where
  "schedule step_of s [] = Some s"
| "schedule step_of s (t # ts) = (case step_of s t of None \<Rightarrow> None | Some s' \<Rightarrow> schedule step_of s' ts)"

lemma reach_step: "reach step s' s'' \<Longrightarrow> step s t s' \<Longrightarrow> reach step s s''"
  by (induction rule: reach.induct) (auto intro: reach.intros)

locale machine =
  fixes step :: "'s \<Rightarrow> 't \<Rightarrow> 's \<Rightarrow> bool"
    and step_of :: "'s \<Rightarrow> 't \<Rightarrow> 's option"
    and inv :: "'s \<Rightarrow> bool"
  assumes computes: "step_of s t = Some s' \<Longrightarrow> step s t s'"
    and keeps: "inv s \<Longrightarrow> step s t s' \<Longrightarrow> inv s'"
begin

lemma always: "reach step s s' \<Longrightarrow> inv s \<Longrightarrow> inv s'"
  by (induction rule: reach.induct) (auto intro: keeps)

lemma scheduled: "schedule step_of s ts = Some s' \<Longrightarrow> reach step s s'"
  by (induction ts arbitrary: s)
    (auto split: option.splits intro: reach.refl reach_step computes)

end

end
