(* ===== verification/Gtest_Mutex.thy ===== *)
theory Gtest_Mutex
  imports Prelude Schedules
begin

section \<open>The mutex of the test library (gtest-port.h)\<close>

text \<open>
  \<open>MutexBase\<close> on a system with POSIX threads: a mutex of the system with a note of the thread that
  holds it. The functions of the class are lists of accesses to shared memory, and the accesses
  of several threads interleave in any order. Threads are numbers. Every access is atomic: that
  \<open>AssertHeld\<close> reads fields another thread may be writing is a data race of the language, and the
  comments of the code rely on its being harmless.
\<close>

subsection \<open>Accesses\<close>

record mutexBase =
  mutex :: "nat option"  \<comment> \<open>the mutex of the system: the thread that holds it\<close>
  has_owner :: bool
  owner :: nat

datatype access =
    Pthread_lock
  | Write_owner         \<comment> \<open>\<open>owner_ = pthread_self()\<close>\<close>
  | Write_has_owner bool
  | Pthread_unlock
  | Check_has_owner     \<comment> \<open>the condition of \<open>AssertHeld\<close>, one operand after the other\<close>
  | Check_owner

datatype effect = Blocks | Faults fault | Goes mutexBase

text \<open>
  Locking a mutex of the default kind twice, and unlocking one that another thread holds, is
  undefined. A failed check aborts after its message, which ends with the address of the mutex.
\<close>

definition not_holding :: fault where
  "not_holding = Abort ''Condition has_owner_ && pthread_equal(owner_, pthread_self()) failed. The current thread is not holding the mutex @''"

fun perform :: "nat \<Rightarrow> access \<Rightarrow> mutexBase \<Rightarrow> effect" where
  "perform self Pthread_lock m = (case mutex m of
       None \<Rightarrow> Goes (m\<lparr>mutex := Some self\<rparr>)
     | Some t \<Rightarrow> if t = self then Faults (Undefined Mutex_relock) else Blocks)"
| "perform self Write_owner m = Goes (m\<lparr>owner := self\<rparr>)"
| "perform self (Write_has_owner b) m = Goes (m\<lparr>has_owner := b\<rparr>)"
| "perform self Pthread_unlock m =
     (if mutex m = Some self then Goes (m\<lparr>mutex := None\<rparr>) else Faults (Undefined Foreign_unlock))"
| "perform self Check_has_owner m = (if has_owner m then Goes m else Faults not_holding)"
| "perform self Check_owner m = (if owner m = self then Goes m else Faults not_holding)"

subsection \<open>The class\<close>

definition Lock :: "access list" where
  "Lock = [Pthread_lock, Write_owner, Write_has_owner True]"

definition Unlock :: "access list" where
  "Unlock = [Write_has_owner False, Pthread_unlock]"

definition AssertHeld :: "access list" where
  "AssertHeld = [Check_has_owner, Check_owner]"

lemmas access_lists = Lock_def Unlock_def AssertHeld_def

text \<open>A mutex made at run time; a static one starts with the same fields.\<close>

definition Mutex :: "nat \<Rightarrow> mutexBase" where
  "Mutex junk = \<lparr>mutex = None, has_owner = False, owner = junk\<rparr>"

text \<open>\<open>GTestMutexLock\<close> holds the mutex from its constructor to its destructor.\<close>

datatype call = GTestMutexLock | GTestMutexLock_destructor | AssertHeld_call

fun accesses :: "call \<Rightarrow> access list" where
  "accesses GTestMutexLock = Lock"
| "accesses GTestMutexLock_destructor = Unlock"
| "accesses AssertHeld_call = AssertHeld"

subsection \<open>Threads\<close>

record thread =
  now :: "access list"
  calls :: "call list"

record process =
  base :: mutexBase
  threads :: "thread list"
  dead :: "fault option"

inductive step :: "process \<Rightarrow> nat \<Rightarrow> process \<Rightarrow> bool" where
  call: "dead s = None \<Longrightarrow> t < length (threads s) \<Longrightarrow> threads s ! t = \<lparr>now = [], calls = c # cs\<rparr>
    \<Longrightarrow> step s t (s\<lparr>threads := (threads s)[t := \<lparr>now = accesses c, calls = cs\<rparr>]\<rparr>)"
| go: "dead s = None \<Longrightarrow> t < length (threads s) \<Longrightarrow> threads s ! t = \<lparr>now = i # is, calls = cs\<rparr>
    \<Longrightarrow> perform t i (base s) = Goes m
    \<Longrightarrow> step s t (s\<lparr>base := m, threads := (threads s)[t := \<lparr>now = is, calls = cs\<rparr>]\<rparr>)"
| die: "dead s = None \<Longrightarrow> t < length (threads s) \<Longrightarrow> threads s ! t = \<lparr>now = i # is, calls = cs\<rparr>
    \<Longrightarrow> perform t i (base s) = Faults f \<Longrightarrow> step s t (s\<lparr>dead := Some f\<rparr>)"

text \<open>
  Scopes of locks do not overlap in a thread; \<open>well_scoped True\<close> is what is left of the calls inside
  a scope. \<open>AssertHeld\<close> may be called anywhere.
\<close>

fun well_scoped :: "bool \<Rightarrow> call list \<Rightarrow> bool" where
  "well_scoped h [] \<longleftrightarrow> \<not> h"
| "well_scoped h (GTestMutexLock # cs) \<longleftrightarrow> \<not> h \<and> well_scoped True cs"
| "well_scoped h (GTestMutexLock_destructor # cs) \<longleftrightarrow> h \<and> well_scoped False cs"
| "well_scoped h (AssertHeld_call # cs) \<longleftrightarrow> well_scoped h cs"

definition start :: "nat \<Rightarrow> call list list \<Rightarrow> process" where
  "start junk ps = \<lparr>base = Mutex junk, threads = map (\<lambda>p. \<lparr>now = [], calls = p\<rparr>) ps, dead = None\<rparr>"

text \<open>A step as a function.\<close>

definition step_of :: "process \<Rightarrow> nat \<Rightarrow> process option" where
  "step_of s t = (if dead s = None \<and> t < length (threads s) then
       let th = threads s ! t in
       (case now th of
          [] \<Rightarrow> (case calls th of [] \<Rightarrow> None
            | c # cs \<Rightarrow> Some (s\<lparr>threads := (threads s)[t := \<lparr>now = accesses c, calls = cs\<rparr>]\<rparr>))
        | i # is \<Rightarrow> (case perform t i (base s) of
            Blocks \<Rightarrow> None
          | Faults f \<Rightarrow> Some (s\<lparr>dead := Some f\<rparr>)
          | Goes m \<Rightarrow> Some (s\<lparr>base := m, threads := (threads s)[t := \<lparr>now = is, calls = calls th\<rparr>]\<rparr>)))
     else None)"

lemma step_of_step: "step_of s t = Some s' \<Longrightarrow> step s t s'"
  by (cases "threads s ! t")
     (auto simp: step_of_def Let_def split: if_splits list.splits effect.splits intro: step.intros)

subsection \<open>What holds in every state\<close>

definition good :: "mutexBase \<Rightarrow> nat \<Rightarrow> thread \<Rightarrow> bool" where
  "good m t th \<longleftrightarrow>
     (if mutex m = Some t then
        (now th \<in> {[], AssertHeld, [Check_owner]} \<and> has_owner m \<and> owner m = t \<and> well_scoped True (calls th)
       \<or> now th = [Write_owner, Write_has_owner True] \<and> \<not> has_owner m \<and> well_scoped True (calls th)
       \<or> now th = [Write_has_owner True] \<and> \<not> has_owner m \<and> owner m = t \<and> well_scoped True (calls th)
       \<or> now th = Unlock \<and> has_owner m \<and> owner m = t \<and> well_scoped False (calls th)
       \<or> now th = [Pthread_unlock] \<and> \<not> has_owner m \<and> well_scoped False (calls th))
      else
        (now th \<in> {[], AssertHeld} \<and> well_scoped False (calls th)
       \<or> now th = [Check_owner] \<and> owner m \<noteq> t \<and> well_scoped False (calls th)
       \<or> now th = Lock \<and> well_scoped True (calls th)))"

definition mutex_ok :: "process \<Rightarrow> bool" where
  "mutex_ok s \<longleftrightarrow>
     (\<forall>t < length (threads s). good (base s) t (threads s ! t))
   \<and> (case mutex (base s) of
        None \<Rightarrow> \<not> has_owner (base s)
      | Some h \<Rightarrow> h < length (threads s) \<and> (has_owner (base s) \<longrightarrow> owner (base s) = h))"

text \<open>What one thread does leaves the others as they are.\<close>

lemma good_other:
  assumes "good m u th" and "mutex m' = Some u \<longleftrightarrow> mutex m = Some u" and "mutex m = Some u \<Longrightarrow> m' = m"
    and "owner m \<noteq> u \<Longrightarrow> owner m' \<noteq> u"
  shows "good m' u th"
  using assms by (auto simp: good_def)

lemma good_own:
  assumes "good m t \<lparr>now = i # is, calls = cs\<rparr>" and "perform t i m = Goes m'"
    and "case mutex m of None \<Rightarrow> \<not> has_owner m | Some h \<Rightarrow> has_owner m \<longrightarrow> owner m = h"
  shows "good m' t \<lparr>now = is, calls = cs\<rparr>"
  using assms by (cases i) (auto simp: good_def access_lists split: if_splits option.splits)

lemma perform_other:
  assumes "perform t i m = Goes m'" and "good m t \<lparr>now = i # is, calls = cs\<rparr>" and "u \<noteq> t" and "good m u th"
  shows "good m' u th"
proof (rule good_other [OF assms(4)])
  show "mutex m' = Some u \<longleftrightarrow> mutex m = Some u" "owner m \<noteq> u \<Longrightarrow> owner m' \<noteq> u"
    using assms(1-3) by (cases i; auto split: if_splits option.splits)+
  show "mutex m = Some u \<Longrightarrow> m' = m"
    using assms(1-3) by (cases i) (auto simp: good_def access_lists split: if_splits option.splits)
qed

lemma perform_holder:
  assumes "perform t i m = Goes m'" and "good m t \<lparr>now = i # is, calls = cs\<rparr>" and "t < n"
    and "case mutex m of None \<Rightarrow> \<not> has_owner m | Some h \<Rightarrow> h < n \<and> (has_owner m \<longrightarrow> owner m = h)"
  shows "case mutex m' of None \<Rightarrow> \<not> has_owner m' | Some h \<Rightarrow> h < n \<and> (has_owner m' \<longrightarrow> owner m' = h)"
  using assms by (cases i) (auto simp: good_def access_lists split: if_splits option.splits)

lemma good_call:
  "good m t \<lparr>now = [], calls = c # cs\<rparr> \<Longrightarrow> good m t \<lparr>now = accesses c, calls = cs\<rparr>"
  by (cases c) (simp_all add: good_def access_lists split: if_splits)

lemma mutex_ok_step:
  assumes "mutex_ok s" and "step s t s'"
  shows "mutex_ok s'"
  using assms(2)
proof cases
  case (call c cs)
  then have "good (base s) t \<lparr>now = accesses c, calls = cs\<rparr>"
    using assms(1) good_call [of "base s" t c cs] by (auto simp: mutex_ok_def)
  then show ?thesis using assms(1) call by (simp add: mutex_ok_def nth_list_update split: option.splits)
next
  case (go i "is" cs m)
  have ok: "good (base s) t \<lparr>now = i # is, calls = cs\<rparr>"
    and holder: "case mutex (base s) of None \<Rightarrow> \<not> has_owner (base s)
      | Some h \<Rightarrow> h < length (threads s) \<and> (has_owner (base s) \<longrightarrow> owner (base s) = h)"
    using assms(1) go by (auto simp: mutex_ok_def)
  have "good m t \<lparr>now = is, calls = cs\<rparr>"
    using good_own [OF ok go(5)] holder by (simp split: option.splits)
  moreover have "good m u (threads s ! u)" if "u \<noteq> t" "u < length (threads s)" for u
    using perform_other [OF go(5) ok that(1)] that(2) assms(1) by (simp add: mutex_ok_def)
  ultimately show ?thesis
    using go perform_holder [OF go(5) ok go(3) holder] by (simp add: mutex_ok_def nth_list_update split: option.splits)
next
  case (die i "is" cs f)
  then show ?thesis using assms(1) by (simp add: mutex_ok_def split: option.splits)
qed

lemma mutex_ok_start:
  "\<forall>p \<in> set ps. well_scoped False p \<Longrightarrow> mutex_ok (start junk ps)"
  by (simp add: mutex_ok_def start_def Mutex_def good_def)

interpretation locks: machine step step_of mutex_ok
  by unfold_locales (fact step_of_step, fact mutex_ok_step)

lemma mutex_okD: "mutex_ok s \<Longrightarrow> t < length (threads s) \<Longrightarrow> good (base s) t (threads s ! t)"
  by (simp add: mutex_ok_def)

subsection \<open>AssertHeld\<close>

lemma assert_step:
  assumes "mutex_ok s" and "step s t s'"
  shows "(now (threads s ! t) = AssertHeld \<and> mutex (base s) = Some t \<longrightarrow> dead s' = None)
    \<and> (now (threads s ! t) = [Check_owner] \<longrightarrow> (dead s' = None \<longleftrightarrow> mutex (base s) = Some t))
    \<and> (\<forall>f. dead s' = Some f \<longrightarrow> f = not_holding \<and> mutex (base s) \<noteq> Some t)"
  using assms(2)
proof cases
  case (call c cs)
  then show ?thesis by (simp add: AssertHeld_def)
next
  case (go i "is" cs m)
  then have "good (base s) t \<lparr>now = i # is, calls = cs\<rparr>" using mutex_okD [OF assms(1), of t] by simp
  with go show ?thesis by (auto simp: good_def access_lists split: if_splits)
next
  case (die i "is" cs f)
  then have "good (base s) t \<lparr>now = i # is, calls = cs\<rparr>" using mutex_okD [OF assms(1), of t] by simp
  with die show ?thesis
    by (cases i) (auto simp: good_def access_lists split: if_splits option.splits)
qed



subsection \<open>Exclusion and progress\<close>

definition inside :: "process \<Rightarrow> nat \<Rightarrow> bool" where
  "inside s t \<longleftrightarrow> t < length (threads s) \<and> now (threads s ! t) \<in> {[], AssertHeld, [Check_owner]}
     \<and> well_scoped True (calls (threads s ! t))"

lemma well_scoped_one: "well_scoped True cs \<Longrightarrow> \<not> well_scoped False cs"
  by (induction cs) (auto elim: well_scoped.elims)

lemma inside_holds: "mutex_ok s \<Longrightarrow> inside s t \<Longrightarrow> mutex (base s) = Some t"
  using mutex_okD [of s t] well_scoped_one
  by (auto simp: inside_def good_def access_lists split: if_splits)

definition finished :: "process \<Rightarrow> bool" where
  "finished s \<longleftrightarrow> (\<forall>th \<in> set (threads s). now th = [] \<and> calls th = [])"

lemma can_step:
  assumes "dead s = None" and "t < length (threads s)" and "now (threads s ! t) \<noteq> [] \<or> calls (threads s ! t) \<noteq> []"
    and "\<forall>i is. now (threads s ! t) = i # is \<longrightarrow> perform t i (base s) \<noteq> Blocks"
  shows "\<exists>s'. step s t s'"
proof (cases "now (threads s ! t)")
  case Nil
  then obtain c cs where "threads s ! t = \<lparr>now = [], calls = c # cs\<rparr>"
    using assms(3) by (cases "threads s ! t"; cases "calls (threads s ! t)") auto
  then show ?thesis using step.call [OF assms(1,2)] by blast
next
  case (Cons i "is")
  then obtain cs where th: "threads s ! t = \<lparr>now = i # is, calls = cs\<rparr>" by (cases "threads s ! t") auto
  show ?thesis
  proof (cases "perform t i (base s)")
    case (Faults f)
    then show ?thesis using step.die [OF assms(1,2) th] by blast
  next
    case (Goes m)
    then show ?thesis using step.go [OF assms(1,2) th] by blast
  qed (use assms(4) Cons in simp)
qed

lemma only_waiters_block: "perform t i m = Blocks \<Longrightarrow> \<exists>h. mutex m = Some h \<and> h \<noteq> t"
  by (cases i) (auto split: option.splits if_splits)

lemma holder_busy: "good m t th \<Longrightarrow> mutex m = Some t \<Longrightarrow> now th \<noteq> [] \<or> calls th \<noteq> []"
  by (auto simp: good_def access_lists)

lemma stuck_finished:
  assumes "mutex_ok s" and "dead s = None" and "\<not> (\<exists>t s'. step s t s')"
  shows "finished s \<and> mutex (base s) = None"
proof -
  have free: "mutex (base s) = None"
  proof (rule ccontr)
    assume "mutex (base s) \<noteq> None"
    then obtain h where h: "mutex (base s) = Some h" by blast
    then have "h < length (threads s)" using assms(1) by (simp add: mutex_ok_def)
    then have "\<exists>s'. step s h s'"
      using can_step [OF assms(2), of h] holder_busy [OF mutex_okD [OF assms(1), of h] h] only_waiters_block [of h _ "base s"] h by force
    then show False using assms(3) by blast
  qed
  have "now (threads s ! t) = [] \<and> calls (threads s ! t) = []" if "t < length (threads s)" for t
    using can_step [OF assms(2) that] only_waiters_block [of t _ "base s"] free assms(3) by force
  then show ?thesis using free by (auto simp: finished_def in_set_conv_nth)
qed

definition work :: "thread \<Rightarrow> nat" where
  "work th = length (now th) + sum_list (map (\<lambda>c. Suc (length (accesses c))) (calls th))"

definition left :: "process \<Rightarrow> nat" where
  "left s = sum_list (map work (threads s)) + (if dead s = None then 1 else 0)"

lemma sum_list_less: "t < length xs \<Longrightarrow> f y < f (xs ! t) \<Longrightarrow> sum_list (map f (xs[t := y])) < sum_list (map (f :: 'a \<Rightarrow> nat) xs)"
  by (induction xs arbitrary: t) (auto split: nat.split)

lemma left_decreases: "step s t s' \<Longrightarrow> left s' < left s"
proof (cases rule: step.cases)
  assume "step s t s'"
  then show "step s t s'" .
qed (auto simp: left_def work_def intro!: sum_list_less)

text \<open>
  C32. Locks held by \<open>GTestMutexLock\<close> in any number of threads: two threads are never inside their scopes at the
  same time, every run ends, and a run that no \<open>AssertHeld\<close> has aborted ends only when all threads
  have done all their calls and the mutex is free, so no thread waits for ever.
\<close>

theorem locks_exclude_and_end:
  assumes "\<forall>p \<in> set ps. well_scoped False p" and "reach step (start junk ps) s"
  shows "(inside s t \<and> inside s u \<longrightarrow> t = u)
    \<and> wfP (\<lambda>s' s. \<exists>t. step s t s')
    \<and> (dead s = None \<and> \<not> (\<exists>t s'. step s t s') \<longrightarrow> finished s \<and> mutex (base s) = None)"
proof -
  have ok: "mutex_ok s" by (rule locks.always [OF assms(2) mutex_ok_start [OF assms(1)]])
  have "wfP (\<lambda>s' s. \<exists>t. step s t s')"
    by (rule wfp_subset [OF wfp_on_inv_imagep [OF wfp_on_less]]) (use left_decreases in \<open>auto simp: inv_imagep_def\<close>)
  moreover have "t = u" if "inside s t" "inside s u" using that [THEN inside_holds [OF ok]] by simp
  ultimately show ?thesis using stuck_finished [OF ok] by blast
qed

theorem locks_exclude_and_end_witness:
  "\<exists>s. reach step (start 0 [[GTestMutexLock, GTestMutexLock_destructor], [GTestMutexLock, GTestMutexLock_destructor]]) s
    \<and> inside s 0 \<and> \<not> inside s 1"
proof -
  let ?ps = "[[GTestMutexLock, GTestMutexLock_destructor], [GTestMutexLock, GTestMutexLock_destructor]]"
  let ?s = "the (schedule step_of (start 0 ?ps) [0, 1, 0, 0, 0])"
  have scoped: "\<forall>p \<in> set ?ps. well_scoped False p" by simp
  have run: "schedule step_of (start 0 ?ps) [0, 1, 0, 0, 0] = Some ?s" "inside ?s 0" by code_simp+
  from locks_exclude_and_end [OF scoped locks.scheduled [OF run(1)], of 0 1] have "\<not> inside ?s 1" using run(2) by simp
  then show ?thesis using locks.scheduled [OF run(1)] run(2) by blast
qed

end
