(* ===== verification/Gtest_Threads.thy ===== *)
theory Gtest_Threads
  imports Prelude Schedules
begin

section \<open>Notifications and threads of the test library (gtest-port.h)\<close>

text \<open>
  \<open>Notification\<close> holds back threads until a controlling thread notifies them, \<open>ThreadWithParam\<close>
  runs a function in a thread of its own. As in \<open>Gtest_Mutex\<close> the code is a list of accesses, and those of all
  threads interleave. The controller is thread 0; a \<open>ThreadWithParam\<close> and its thread have one number.
\<close>

subsection \<open>State\<close>

record threadWithParam =
  thread_can_start :: bool  \<comment> \<open>whether the pointer to the notification is not null\<close>
  param :: int
  finished :: bool

datatype access =
    Lock_mu
  | Wait_notified  \<comment> \<open>the wait for the predicate, with the lock held\<close>
  | Sleep          \<comment> \<open>inside the wait, the lock released\<close>
  | Unlock_mu
  | Write_notified
  | Notify_all
  | Init_fields nat bool int
  | Pthread_create nat
  | Read_can_start
  | Call_func
  | If_not_finished nat
  | Pthread_join nat
  | Write_finished nat
  | Free nat

datatype call = Notify_call | ThreadWithParam nat bool int | Join_call nat | ThreadWithParam_destructor nat

record pool =
  mu :: "nat option"
  notified :: bool
  objects :: "nat \<Rightarrow> threadWithParam option"
  started :: "nat \<Rightarrow> bool"
  joined :: "nat \<Rightarrow> bool"
  now :: "nat \<Rightarrow> access list"
  calls :: "call list"
  ran :: "(nat \<times> int) list"  \<comment> \<open>the calls of user functions: the thread and the parameter\<close>
  dead :: "fault option"

subsection \<open>The classes\<close>

definition Notify :: "access list" where
  "Notify = [Lock_mu, Write_notified, Notify_all, Unlock_mu]"

definition WaitForNotification :: "access list" where
  "WaitForNotification = [Lock_mu, Wait_notified, Unlock_mu]"

definition construct_thread :: "nat \<Rightarrow> bool \<Rightarrow> int \<Rightarrow> access list" where
  "construct_thread i can_start p = [Init_fields i can_start p, Pthread_create i]"

text \<open>What the new thread runs; it reads the members of the object when it gets there.\<close>

definition Run :: "access list" where
  "Run = [Read_can_start, Call_func]"

definition Join :: "nat \<Rightarrow> access list" where
  "Join i = [If_not_finished i]"

definition Join_body :: "nat \<Rightarrow> access list" where
  "Join_body i = [Pthread_join i, Write_finished i]"

definition destroy_thread :: "nat \<Rightarrow> access list" where
  "destroy_thread i = Join i @ [Free i]"

fun accesses :: "call \<Rightarrow> access list" where
  "accesses Notify_call = Notify"
| "accesses (ThreadWithParam i can_start p) = construct_thread i can_start p"
| "accesses (Join_call i) = Join i"
| "accesses (ThreadWithParam_destructor i) = destroy_thread i"

subsection \<open>Steps\<close>

datatype effect = Blocks | Faults fault | Goes pool

fun wake :: "access list \<Rightarrow> access list" where
  "wake (Sleep # is) = Lock_mu # is"
| "wake is = is"

definition with_object :: "pool \<Rightarrow> nat \<Rightarrow> (threadWithParam \<Rightarrow> effect) \<Rightarrow> effect" where
  "with_object s i f = (case objects s i of None \<Rightarrow> Faults (Undefined Dangling) | Some obj \<Rightarrow> f obj)"

text \<open>The effect of an access of a thread whose rest of code is \<open>is\<close>; the state has the rest already.\<close>

fun perform :: "nat \<Rightarrow> access \<Rightarrow> access list \<Rightarrow> pool \<Rightarrow> effect" where
  "perform t Lock_mu is s = (case mu s of
       None \<Rightarrow> Goes (s\<lparr>mu := Some t\<rparr>)
     | Some u \<Rightarrow> if u = t then Faults (Undefined Mutex_relock) else Blocks)"
| "perform t Unlock_mu is s = (if mu s = Some t then Goes (s\<lparr>mu := None\<rparr>) else Faults (Undefined Foreign_unlock))"
| "perform t Wait_notified is s =
     (if notified s then Goes s
      else if mu s = Some t then Goes (s\<lparr>mu := None, now := (now s)(t := Sleep # Wait_notified # is)\<rparr>)
      else Faults (Undefined Foreign_unlock))"
| "perform t Sleep is s = Blocks"
| "perform t Write_notified is s = Goes (s\<lparr>notified := True\<rparr>)"
| "perform t Notify_all is s = Goes (s\<lparr>now := (\<lambda>u. wake (now s u))\<rparr>)"
| "perform t (Init_fields i can_start p) is s =
     Goes (s\<lparr>objects := (objects s)(i \<mapsto> \<lparr>thread_can_start = can_start, param = p, finished = False\<rparr>)\<rparr>)"
| "perform t (Pthread_create i) is s = Goes (s\<lparr>started := (started s)(i := True), now := (now s)(i := Run)\<rparr>)"
| "perform t Read_can_start is s = with_object s t (\<lambda>obj.
     Goes (s\<lparr>now := (now s)(t := (if thread_can_start obj then WaitForNotification else []) @ is)\<rparr>))"
| "perform t Call_func is s = with_object s t (\<lambda>obj. Goes (s\<lparr>ran := ran s @ [(t, param obj)]\<rparr>))"
| "perform t (If_not_finished i) is s = with_object s i (\<lambda>obj.
     Goes (if finished obj then s else s\<lparr>now := (now s)(t := Join_body i @ is)\<rparr>))"
| "perform t (Pthread_join i) is s =
     (if joined s i then Faults (Undefined Joined_twice)
      else if started s i \<and> now s i = [] then Goes (s\<lparr>joined := (joined s)(i := True)\<rparr>)
      else Blocks)"
| "perform t (Write_finished i) is s = with_object s i (\<lambda>obj.
     Goes (s\<lparr>objects := (objects s)(i \<mapsto> obj\<lparr>finished := True\<rparr>)\<rparr>))"
| "perform t (Free i) is s = Goes (s\<lparr>objects := (objects s)(i := None)\<rparr>)"

text \<open>Only the controller has calls of its own; a sleeping thread may also wake without being notified.\<close>

inductive step :: "pool \<Rightarrow> nat \<Rightarrow> pool \<Rightarrow> bool" where
  call: "dead s = None \<Longrightarrow> now s 0 = [] \<Longrightarrow> calls s = c # cs
    \<Longrightarrow> step s 0 (s\<lparr>now := (now s)(0 := accesses c), calls := cs\<rparr>)"
| go: "dead s = None \<Longrightarrow> now s t = i # is \<Longrightarrow> perform t i is (s\<lparr>now := (now s)(t := is)\<rparr>) = Goes s'
    \<Longrightarrow> step s t s'"
| die: "dead s = None \<Longrightarrow> now s t = i # is \<Longrightarrow> perform t i is (s\<lparr>now := (now s)(t := is)\<rparr>) = Faults f
    \<Longrightarrow> step s t (s\<lparr>dead := Some f\<rparr>)"

inductive spurious :: "pool \<Rightarrow> nat \<Rightarrow> pool \<Rightarrow> bool" where
  "dead s = None \<Longrightarrow> now s t = Sleep # is \<Longrightarrow> spurious s t (s\<lparr>now := (now s)(t := Lock_mu # is)\<rparr>)"

definition moves :: "pool \<Rightarrow> nat \<Rightarrow> pool \<Rightarrow> bool" where
  "moves s t s' \<longleftrightarrow> step s t s' \<or> spurious s t s'"

text \<open>A step as a function.\<close>

definition step_of :: "pool \<Rightarrow> nat \<Rightarrow> pool option" where
  "step_of s t = (if dead s \<noteq> None then None else (case now s t of
       [] \<Rightarrow> (if t \<noteq> 0 then None else (case calls s of [] \<Rightarrow> None
         | c # cs \<Rightarrow> Some (s\<lparr>now := (now s)(0 := accesses c), calls := cs\<rparr>)))
     | i # is \<Rightarrow> (case perform t i is (s\<lparr>now := (now s)(t := is)\<rparr>) of
         Blocks \<Rightarrow> None | Faults f \<Rightarrow> Some (s\<lparr>dead := Some f\<rparr>) | Goes s' \<Rightarrow> Some s')))"

lemma pool_step_of: "step_of s t = Some s' \<Longrightarrow> step s t s'"
  by (auto simp: step_of_def split: if_splits list.splits effect.splits intro: step.intros)

text \<open>
  How the controller uses the classes: every object is constructed once and destroyed in the end, and a
  thread that waits for the notification is only joined or destroyed after it. The sets are the
  threads that wait, the objects that exist, and the threads started.
\<close>

fun ordered :: "bool \<Rightarrow> nat set \<Rightarrow> nat set \<Rightarrow> nat set \<Rightarrow> call list \<Rightarrow> bool" where
  "ordered n W A E [] \<longleftrightarrow> A = {}"
| "ordered n W A E (Notify_call # cs) \<longleftrightarrow> ordered True W A E cs"
| "ordered n W A E (ThreadWithParam i can_start p # cs) \<longleftrightarrow>
     i \<noteq> 0 \<and> i \<notin> A \<and> i \<notin> E \<and> ordered n (if can_start then insert i W else W) (insert i A) (insert i E) cs"
| "ordered n W A E (Join_call i # cs) \<longleftrightarrow> i \<in> A \<and> (n \<or> i \<notin> W) \<and> ordered n W A E cs"
| "ordered n W A E (ThreadWithParam_destructor i # cs) \<longleftrightarrow>
     i \<in> A \<and> (n \<or> i \<notin> W) \<and> ordered n (W - {i}) (A - {i}) E cs"

definition start :: "call list \<Rightarrow> pool" where
  "start cs = \<lparr>mu = None, notified = False, objects = Map.empty, started = (\<lambda>_. False), joined = (\<lambda>_. False),
     now = (\<lambda>_. []), calls = cs, ran = [], dead = None\<rparr>"

subsection \<open>What holds in every state\<close>

definition waits_in :: "(nat \<Rightarrow> threadWithParam option) \<Rightarrow> nat set" where
  "waits_in objs = {i. \<exists>obj. objs i = Some obj \<and> thread_can_start obj}"

abbreviation waiting :: "pool \<Rightarrow> nat set" where
  "waiting s \<equiv> waits_in (objects s)"

abbreviation born :: "pool \<Rightarrow> nat set" where
  "born s \<equiv> {i. started s i}"

lemma waits_in_upd [simp]:
  "waits_in (m(i \<mapsto> obj)) = (if thread_can_start obj then insert i (waits_in m) else waits_in m - {i})"
  "waits_in (m(i := None)) = waits_in m - {i}"
  by (auto simp: waits_in_def)

lemma waits_in_none: "m i = None \<Longrightarrow> waits_in m - {i} = waits_in m"
  by (auto simp: waits_in_def)

lemma born_upd [simp]: "{j. (f(i := True)) j} = insert i {j. f j}"
  by auto

lemma waits_in_iff: "i \<in> waits_in m \<longleftrightarrow> (\<exists>obj. m i = Some obj \<and> thread_can_start obj)"
  by (simp add: waits_in_def)

abbreviation orderly :: "bool \<Rightarrow> pool \<Rightarrow> bool" where
  "orderly n s \<equiv> ordered n (waiting s) (dom (objects s)) (born s) (calls s)"

definition calls_of :: "pool \<Rightarrow> nat \<Rightarrow> (nat \<times> int) list" where
  "calls_of s t = [e \<leftarrow> ran s. fst e = t]"

definition orderly_without :: "pool \<Rightarrow> nat \<Rightarrow> bool" where
  "orderly_without s i = ordered (notified s) (waiting s - {i}) (dom (objects s) - {i}) (born s) (calls s)"

definition joining :: "pool \<Rightarrow> nat \<Rightarrow> access list \<Rightarrow> bool" where
  "joining s i is \<longleftrightarrow> mu s \<noteq> Some 0 \<and> i \<noteq> 0 \<and> started s i \<and> i \<in> dom (objects s) \<and> (notified s \<or> i \<notin> waiting s)
     \<and> (is = [] \<and> orderly (notified s) s \<or> is = [Free i] \<and> orderly_without s i)"

fun controller_at :: "access list \<Rightarrow> pool \<Rightarrow> bool" where
  "controller_at [] s \<longleftrightarrow> mu s \<noteq> Some 0 \<and> orderly (notified s) s"
| "controller_at (Lock_mu # is) s \<longleftrightarrow> is = tl Notify \<and> mu s \<noteq> Some 0 \<and> orderly True s"
| "controller_at (Write_notified # is) s \<longleftrightarrow> is = [Notify_all, Unlock_mu] \<and> mu s = Some 0 \<and> orderly True s"
| "controller_at (Notify_all # is) s \<longleftrightarrow> is = [Unlock_mu] \<and> mu s = Some 0 \<and> notified s \<and> orderly True s"
| "controller_at (Unlock_mu # is) s \<longleftrightarrow> is = [] \<and> mu s = Some 0 \<and> notified s \<and> orderly True s"
| "controller_at (Init_fields i c p # is) s \<longleftrightarrow> is = [Pthread_create i] \<and> mu s \<noteq> Some 0 \<and> i \<noteq> 0 \<and> objects s i = None
     \<and> \<not> started s i \<and> ordered (notified s) (if c then insert i (waiting s) else waiting s) (insert i (dom (objects s)))
         (insert i (born s)) (calls s)"
| "controller_at (Pthread_create i # is) s \<longleftrightarrow> is = [] \<and> mu s \<noteq> Some 0 \<and> i \<noteq> 0 \<and> \<not> started s i
     \<and> i \<in> dom (objects s) \<and> ordered (notified s) (waiting s) (dom (objects s)) (insert i (born s)) (calls s)"
| "controller_at (If_not_finished i # is) s \<longleftrightarrow> joining s i is"
| "controller_at (Pthread_join i # is) s \<longleftrightarrow> (\<exists>is'. is = Write_finished i # is' \<and> joining s i is' \<and> \<not> joined s i)"
| "controller_at (Write_finished i # is) s \<longleftrightarrow> joining s i is \<and> joined s i"
| "controller_at (Free i # is) s \<longleftrightarrow> is = [] \<and> joining s i [Free i] \<and> joined s i"
| "controller_at _ s \<longleftrightarrow> False"

definition running :: "pool \<Rightarrow> nat \<Rightarrow> bool" where
  "running s t \<longleftrightarrow> started s t \<and> \<not> joined s t \<and> calls_of s t = [] \<and> t \<in> dom (objects s)"

definition has_run :: "pool \<Rightarrow> nat \<Rightarrow> bool" where
  "has_run s t \<longleftrightarrow> (\<exists>p. calls_of s t = [(t, p)] \<and> (\<forall>obj. objects s t = Some obj \<longrightarrow> p = param obj \<and> (thread_can_start obj \<longrightarrow> notified s)))"

fun worker_at :: "nat \<Rightarrow> access list \<Rightarrow> pool \<Rightarrow> bool" where
  "worker_at t [] s \<longleftrightarrow> mu s \<noteq> Some t \<and> (if started s t then has_run s t else calls_of s t = [] \<and> \<not> joined s t)"
| "worker_at t (Read_can_start # is) s \<longleftrightarrow> is = [Call_func] \<and> running s t \<and> mu s \<noteq> Some t"
| "worker_at t (Lock_mu # is) s \<longleftrightarrow> is = [Wait_notified, Unlock_mu, Call_func] \<and> running s t \<and> mu s \<noteq> Some t \<and> t \<in> waiting s"
| "worker_at t (Wait_notified # is) s \<longleftrightarrow> is = [Unlock_mu, Call_func] \<and> running s t \<and> mu s = Some t \<and> t \<in> waiting s"
| "worker_at t (Sleep # is) s \<longleftrightarrow> is = [Wait_notified, Unlock_mu, Call_func] \<and> running s t \<and> mu s \<noteq> Some t \<and> t \<in> waiting s
     \<and> (notified s \<longrightarrow> now s 0 = [Notify_all, Unlock_mu])"
| "worker_at t (Unlock_mu # is) s \<longleftrightarrow> is = [Call_func] \<and> running s t \<and> mu s = Some t \<and> notified s"
| "worker_at t (Call_func # is) s \<longleftrightarrow> is = [] \<and> running s t \<and> mu s \<noteq> Some t \<and> (notified s \<or> t \<notin> waiting s)"
| "worker_at t _ s \<longleftrightarrow> False"

definition object_ok :: "pool \<Rightarrow> nat \<Rightarrow> bool" where
  "object_ok s i \<longleftrightarrow> (\<forall>obj. objects s i = Some obj \<longrightarrow> (finished obj \<longrightarrow> joined s i)
     \<and> (joined s i \<and> \<not> finished obj \<longrightarrow> (\<exists>is. now s 0 = Write_finished i # is))
     \<and> (started s i \<or> now s 0 = [Pthread_create i]))"

definition pool_ok :: "pool \<Rightarrow> bool" where
  "pool_ok s \<longleftrightarrow> dead s = None \<and> \<not> started s 0 \<and> objects s 0 = None \<and> controller_at (now s 0) s
     \<and> (\<forall>t. t \<noteq> 0 \<longrightarrow> worker_at t (now s t) s \<and> object_ok s t \<and> (joined s t \<longrightarrow> started s t \<and> now s t = []))"

lemma worker_frame:
  assumes "worker_at t is s" and "mu s' = Some t \<longleftrightarrow> mu s = Some t" and "notified s \<longrightarrow> notified s'"
    and "objects s' t = objects s t" and "started s' t = started s t" and "joined s' t = joined s t" and "calls_of s' t = calls_of s t"
    and "(\<exists>is'. is = Sleep # is') \<Longrightarrow> notified s' \<Longrightarrow> now s' 0 = [Notify_all, Unlock_mu]"
  shows "worker_at t is s'"
  using assms by (cases "(t, is, s)" rule: worker_at.cases) (auto simp: running_def has_run_def waits_in_iff dom_def)

lemma controller_frame:
  assumes "controller_at is s" and "mu s' = Some 0 \<longleftrightarrow> mu s = Some 0" and "notified s' = notified s"
    and "objects s' = objects s" and "started s' = started s" and "joined s' = joined s" and "calls s' = calls s"
  shows "controller_at is s'"
  using assms by (cases "(is, s)" rule: controller_at.cases)
    (auto simp: joining_def orderly_without_def)

text \<open>A step that concerns at most the thread \<open>i\<close> and the controller.\<close>

fun target :: "access list \<Rightarrow> nat option" where
  "target (Write_finished i # is) = Some i"
| "target [Pthread_create i] = Some i"
| "target _ = None"

lemma object_other:
  assumes "object_ok s t" and "target (now s 0) \<noteq> Some t"
    and "objects s' t = objects s t" and "started s' t = started s t" and "joined s' t = joined s t"
  shows "object_ok s' t"
  using assms by (auto simp: object_ok_def)

lemma pool_ok_change:
  assumes "pool_ok s" and "dead s' = None" and "started s' 0 = started s 0" and "objects s' 0 = objects s 0" and "controller_at (now s' 0) s'"
    and "\<And>t. t \<noteq> 0 \<Longrightarrow> mu s' = Some t \<longleftrightarrow> mu s = Some t" and "notified s \<longrightarrow> notified s'" and "ran s' = ran s"
    and "\<And>t. t \<noteq> 0 \<Longrightarrow> t \<noteq> i \<Longrightarrow> objects s' t = objects s t \<and> started s' t = started s t \<and> joined s' t = joined s t \<and> now s' t = now s t"
    and "\<And>t. t \<noteq> i \<Longrightarrow> target (now s 0) \<noteq> Some t"
    and "notified s' \<Longrightarrow> now s' 0 = [Notify_all, Unlock_mu] \<or> notified s \<and> now s 0 \<noteq> [Notify_all, Unlock_mu]"
    and "i \<noteq> 0 \<Longrightarrow> worker_at i (now s i) s \<Longrightarrow> object_ok s i \<Longrightarrow> joined s i \<longrightarrow> started s i \<and> now s i = []
      \<Longrightarrow> worker_at i (now s' i) s' \<and> object_ok s' i \<and> (joined s' i \<longrightarrow> started s' i \<and> now s' i = [])"
  shows "pool_ok s'"
proof -
  have "worker_at t (now s' t) s' \<and> object_ok s' t \<and> (joined s' t \<longrightarrow> started s' t \<and> now s' t = [])" if t: "t \<noteq> 0" for t
  proof (cases "t = i")
    case True
    then show ?thesis using assms(12) t assms(1) by (auto simp: pool_ok_def)
  next
    case False
    note same = assms(9) [OF t False]
    have ok: "worker_at t (now s t) s" "object_ok s t" "joined s t \<longrightarrow> started s t \<and> now s t = []"
      using assms(1) t by (auto simp: pool_ok_def)
    have asleep: "now s' 0 = [Notify_all, Unlock_mu]" if "\<exists>is. now s t = Sleep # is" "notified s'"
      using that ok(1) assms(11) by auto
    have "worker_at t (now s t) s'"
      by (rule worker_frame [OF ok(1) assms(6) [OF t] assms(7)]) (use same assms(8) asleep in \<open>simp_all add: calls_of_def\<close>)
    then show ?thesis using same ok(3) object_other [OF ok(2) assms(10) [OF False], of s'] by simp
  qed
  then show ?thesis using assms(1-5) by (simp add: pool_ok_def)
qed

lemma pool_okD:
  assumes "pool_ok s"
  shows "controller_at (now s 0) s" "t \<noteq> 0 \<Longrightarrow> worker_at t (now s t) s"
    "objects s t = Some obj \<Longrightarrow> t \<noteq> 0" "t \<noteq> 0 \<Longrightarrow> object_ok s t"
    "joined s t \<Longrightarrow> t \<noteq> 0 \<Longrightarrow> started s t \<and> now s t = []" "\<not> started s 0" "objects s 0 = None" "dead s = None"
  using assms unfolding pool_ok_def by (cases "t = 0"; simp)+

lemma orderly_sets: "i \<in> dom (objects s) \<longleftrightarrow> objects s i \<noteq> None" "i \<in> born s \<longleftrightarrow> started s i"
  by auto

lemma call_ok:
  assumes "pool_ok s" and "now s 0 = []" and "calls s = c # cs"
  shows "pool_ok (s\<lparr>now := (now s)(0 := accesses c), calls := cs\<rparr>)"
proof (rule pool_ok_change [OF assms(1), where i = 0])
  let ?s = "s\<lparr>now := (now s)(0 := accesses c), calls := cs\<rparr>"
  have c: "controller_at [] s" and ok: "pool_ok s" using assms(1,2) by (auto simp: pool_ok_def)
  have here: "i \<noteq> 0 \<and> started s i" if "objects s i = Some obj" for i obj
    using pool_okD(3,4) [OF ok, of i] that assms(2) by (simp add: object_ok_def)
  have order: "ordered (notified s) (waiting s) (dom (objects s)) (born s) (c # cs)" "mu s \<noteq> Some 0"
    using c assms(3) by simp_all
  show "controller_at (now ?s 0) ?s"
  proof (cases c)
    case Notify_call
    then show ?thesis using order by (simp add: Notify_def)
  next
    case (ThreadWithParam i can_start p)
    then show ?thesis using order by (simp add: orderly_sets construct_thread_def split: if_splits)
  next
    case (Join_call i)
    then obtain obj where "objects s i = Some obj" using order by auto
    then show ?thesis using order Join_call here [of i obj] by (simp add: Join_def joining_def domIff)
  next
    case (ThreadWithParam_destructor i)
    then obtain obj where "objects s i = Some obj" using order by auto
    then show ?thesis using order ThreadWithParam_destructor here [of i obj]
      by (simp add: Join_def destroy_thread_def joining_def orderly_without_def domIff)
  qed
qed (use assms(2) pool_okD(8) [OF assms(1)] in auto)

lemma unborn: "worker_at t is s \<Longrightarrow> \<not> started s t \<Longrightarrow> is = [] \<and> calls_of s t = [] \<and> \<not> joined s t"
  by (cases "(t, is, s)" rule: worker_at.cases) (auto simp: running_def)

lemma controller_notify_all:
  assumes "pool_ok s" and "now s 0 = Notify_all # is"
  shows "pool_ok (s\<lparr>now := (\<lambda>u. wake (((now s)(0 := is)) u))\<rparr>)"
proof -
  let ?s = "s\<lparr>now := (\<lambda>u. wake (((now s)(0 := is)) u))\<rparr>"
  have c: "is = [Unlock_mu]" "mu s = Some 0" "notified s" "orderly True s"
    using pool_okD(1) [OF assms(1)] assms(2) by simp_all
  have "worker_at t (now ?s t) ?s \<and> object_ok ?s t \<and> (joined ?s t \<longrightarrow> started ?s t \<and> now ?s t = [])" if t: "t \<noteq> 0" for t
  proof -
    have w: "worker_at t (now s t) s" by (rule pool_okD(2) [OF assms(1) t])
    have "worker_at t (wake (now s t)) ?s"
    proof (cases "\<exists>is'. now s t = Sleep # is'")
      case True
      then show ?thesis using w by (auto simp: running_def calls_of_def)
    next
      case False
      then have "wake (now s t) = now s t" by (cases "now s t" rule: wake.cases) auto
      then show ?thesis using False worker_frame [OF w, of ?s] by (simp add: calls_of_def)
    qed
    moreover have "object_ok ?s t"
      by (rule object_other [OF pool_okD(4) [OF assms(1) t]]) (simp_all add: assms(2) c(1))
    ultimately show ?thesis using t pool_okD(5) [OF assms(1) _ t] by auto
  qed
  then show ?thesis using pool_okD(6-8) [OF assms(1)] c by (simp add: pool_ok_def)
qed

lemma controller_ok:
  assumes ok: "pool_ok s" and at: "now s 0 = a # is" and go: "perform 0 a is (s\<lparr>now := (now s)(0 := is)\<rparr>) = Goes s'"
  shows "pool_ok s'"
proof -
  have c: "controller_at (a # is) s" using pool_okD(1) [OF ok] at by simp
  show ?thesis
  proof (cases a)
    case Lock_mu
    with c go have s': "s' = s\<lparr>now := (now s)(0 := is), mu := Some 0\<rparr>" "mu s = None" by (auto split: option.splits if_splits)
    show ?thesis
      by (rule pool_ok_change [OF ok, where i = 0]) (use pool_okD(6-8) [OF ok] c at Lock_mu s' in \<open>simp_all add: Notify_def\<close>)
  next
    case Write_notified
    with go have s': "s' = s\<lparr>now := (now s)(0 := is), notified := True\<rparr>" by simp
    show ?thesis
      by (rule pool_ok_change [OF ok, where i = 0]) (use pool_okD(6-8) [OF ok] c at Write_notified s' in \<open>simp_all\<close>)
  next
    case Notify_all
    with go have s': "s' = s\<lparr>now := (\<lambda>u. wake (((now s)(0 := is)) u))\<rparr>" by simp
    show ?thesis unfolding s' by (rule controller_notify_all [OF ok]) (use at Notify_all in simp)
  next
    case Unlock_mu
    with c go have s': "s' = s\<lparr>now := (now s)(0 := is), mu := None\<rparr>" by simp
    show ?thesis
      by (rule pool_ok_change [OF ok, where i = 0]) (use pool_okD(6-8) [OF ok] c at Unlock_mu s' in \<open>simp_all\<close>)
  next
    case (Init_fields i can_start p)
    with go have s': "s' = s\<lparr>now := (now s)(0 := is),
        objects := (objects s)(i \<mapsto> \<lparr>thread_can_start = can_start, param = p, finished = False\<rparr>)\<rparr>" by simp
    have "now s i = []" "calls_of s i = []" "\<not> joined s i"
      using unborn [OF pool_okD(2) [OF ok, of i]] c Init_fields by auto
    then show ?thesis
      by - (rule pool_ok_change [OF ok, where i = i],
        use pool_okD(6-8) [OF ok] c at Init_fields s' in \<open>simp_all add: object_ok_def calls_of_def waits_in_none split: if_splits\<close>)
  next
    case (Pthread_create i)
    with go have s': "s' = s\<lparr>started := (started s)(i := True), now := ((now s)(0 := is))(i := Run)\<rparr>" by simp
    have "now s i = []" "calls_of s i = []" "\<not> joined s i"
      using unborn [OF pool_okD(2) [OF ok, of i]] c Pthread_create by auto
    then show ?thesis
      by - (rule pool_ok_change [OF ok, where i = i],
        use pool_okD(6-8) [OF ok] c at Pthread_create s' in \<open>simp_all add: object_ok_def calls_of_def Run_def running_def\<close>)
  next
    case (If_not_finished i)
    then have j: "joining s i is" using c by simp
    then obtain obj where obj: "objects s i = Some obj" by (auto simp: joining_def)
    have fin: "finished obj \<longleftrightarrow> joined s i"
      using pool_okD(4) [OF ok, of i] j obj at If_not_finished by (auto simp: object_ok_def joining_def)
    have s': "s' = s\<lparr>now := (now s)(0 := (if joined s i then [] else Join_body i) @ is)\<rparr>"
      using go If_not_finished obj fin by (simp add: with_object_def split: if_splits)
    show ?thesis
      by (rule pool_ok_change [OF ok, where i = 0])
        (use pool_okD(6-8) [OF ok] j at If_not_finished s' in \<open>auto simp: Join_body_def joining_def orderly_without_def\<close>)
  next
    case (Pthread_join i)
    then obtain is' where j: "is = Write_finished i # is'" "joining s i is'" "\<not> joined s i" using c by auto
    then have s': "s' = s\<lparr>now := (now s)(0 := is), joined := (joined s)(i := True)\<rparr>" "started s i" "now s i = []"
      using go Pthread_join by (auto simp: joining_def split: if_splits)
    have "joining s' i is'" using j(2) by (simp add: s'(1) joining_def orderly_without_def)
    then show ?thesis
      by - (rule pool_ok_change [OF ok, where i = i],
        use pool_okD(6-8) [OF ok] j at Pthread_join s' in \<open>auto simp: joining_def has_run_def calls_of_def object_ok_def\<close>)
  next
    case (Write_finished i)
    then have j: "joining s i is" "joined s i" using c by simp_all
    then obtain obj where obj: "objects s i = Some obj" by (auto simp: joining_def)
    have s': "s' = s\<lparr>now := (now s)(0 := is), objects := (objects s)(i \<mapsto> obj\<lparr>finished := True\<rparr>)\<rparr>"
      using go Write_finished obj by (simp add: with_object_def)
    have w: "waits_in (objects s') = waits_in (objects s)" "dom (objects s') = dom (objects s)"
      using obj by (auto simp: s' waits_in_def)
    have i: "i \<noteq> 0" "now s i = []" "started s i" "mu s \<noteq> Some 0" using j pool_okD(5) [OF ok, of i] by (auto simp: joining_def)
    have "controller_at is s'"
      using j w by (auto simp: joining_def orderly_without_def s')
    then show ?thesis
      by - (rule pool_ok_change [OF ok, where i = i],
        use pool_okD(6-8) [OF ok] i j(2) obj at Write_finished s' in \<open>auto simp: has_run_def calls_of_def object_ok_def\<close>)
  next
    case (Free i)
    then have j: "is = []" "joining s i [Free i]" "joined s i" using c by simp_all
    have s': "s' = s\<lparr>now := (now s)(0 := is), objects := (objects s)(i := None)\<rparr>" using go Free by simp
    have i: "i \<noteq> 0" "now s i = []" "started s i" "mu s \<noteq> Some 0" using j pool_okD(5) [OF ok, of i] by (auto simp: joining_def)
    have "controller_at [] s'" using j(2) by (simp add: joining_def orderly_without_def s')
    then show ?thesis
      by - (rule pool_ok_change [OF ok, where i = i],
        use pool_okD(6-8) [OF ok] i j(1,3) at Free s' in \<open>auto simp: has_run_def calls_of_def object_ok_def\<close>)
  qed (use c in simp_all)
qed

text \<open>A step of another thread.\<close>

lemma pool_ok_worker_change:
  assumes "pool_ok s" and "t \<noteq> 0" and "\<not> joined s t" and "worker_at t (now s' t) s'"
    and "notified s' = notified s" and "objects s' = objects s" and "started s' = started s" and "joined s' = joined s"
    and "calls s' = calls s" and "dead s' = dead s"
    and "\<And>u. u \<noteq> t \<Longrightarrow> (mu s' = Some u \<longleftrightarrow> mu s = Some u) \<and> now s' u = now s u \<and> calls_of s' u = calls_of s u"
  shows "pool_ok s'"
proof -
  have zero: "now s' 0 = now s 0" "mu s' = Some 0 \<longleftrightarrow> mu s = Some 0" using assms(2,11) by auto
  have "worker_at u (now s' u) s' \<and> object_ok s' u \<and> (joined s' u \<longrightarrow> started s' u \<and> now s' u = [])" if u: "u \<noteq> 0" for u
  proof -
    have "worker_at u (now s' u) s'"
    proof (cases "u = t")
      case False
      have w: "worker_at u (now s u) s" by (rule pool_okD(2) [OF assms(1) u])
      have asleep: "now s' 0 = [Notify_all, Unlock_mu]" if "\<exists>is. now s u = Sleep # is" "notified s'"
        using that w assms(5) zero(1) by auto
      show ?thesis
        using worker_frame [OF w, of s'] assms(5-8) assms(11) [OF False] asleep by simp
    qed (use assms(4) in simp)
    moreover have "object_ok s' u"
      using pool_okD(4) [OF assms(1) u] assms(6-8) zero(1) by (simp add: object_ok_def)
    moreover have "joined s' u \<longrightarrow> started s' u \<and> now s' u = []"
      using pool_okD(5) [OF assms(1) _ u] assms(3,7,8,11) by (cases "u = t") auto
    ultimately show ?thesis by blast
  qed
  moreover have "controller_at (now s' 0) s'"
    using controller_frame [OF pool_okD(1) [OF assms(1)], of s'] zero assms(5-9) by simp
  ultimately show ?thesis using pool_okD(6-8) [OF assms(1)] assms(6,7,10) by (simp add: pool_ok_def)
qed

lemma worker_ok:
  assumes ok: "pool_ok s" and t: "t \<noteq> 0" and at: "now s t = a # is"
    and go: "perform t a is (s\<lparr>now := (now s)(t := is)\<rparr>) = Goes s'"
  shows "pool_ok s'"
proof -
  have w: "worker_at t (a # is) s" using pool_okD(2) [OF ok t] at by simp
  then have run: "running s t" by (cases "(t, a # is, s)" rule: worker_at.cases) auto
  then obtain obj where obj: "objects s t = Some obj" and j: "\<not> joined s t" by (auto simp: running_def)
  note change = pool_ok_worker_change [OF ok t j]
  show ?thesis
  proof (cases a)
    case Lock_mu
    with w go have s': "s' = s\<lparr>now := (now s)(t := is), mu := Some t\<rparr>" "mu s = None" by (auto split: option.splits if_splits)
    show ?thesis by (rule change) (use w Lock_mu s' in \<open>auto simp: running_def calls_of_def\<close>)
  next
    case Wait_notified
    with w go have s': "s' = (if notified s then s\<lparr>now := (now s)(t := is)\<rparr>
        else s\<lparr>mu := None, now := (now s)(t := Sleep # Wait_notified # is)\<rparr>)" by (simp split: if_splits)
    show ?thesis by (rule change) (use w Wait_notified s' in \<open>auto simp: running_def calls_of_def\<close>)
  next
    case Unlock_mu
    with w go have s': "s' = s\<lparr>now := (now s)(t := is), mu := None\<rparr>" by simp
    show ?thesis by (rule change) (use w Unlock_mu s' in \<open>auto simp: running_def calls_of_def\<close>)
  next
    case Read_can_start
    with go obj have s': "s' = s\<lparr>now := (now s)(t := (if thread_can_start obj then WaitForNotification else []) @ is)\<rparr>"
      by (simp add: with_object_def)
    show ?thesis
      by (rule change) (use w Read_can_start s' obj in \<open>auto simp: running_def calls_of_def WaitForNotification_def waits_in_iff\<close>)
  next
    case Call_func
    with go obj have s': "s' = s\<lparr>now := (now s)(t := is), ran := ran s @ [(t, param obj)]\<rparr>"
      by (simp add: with_object_def)
    show ?thesis
      by (rule change) (use w Call_func s' obj in \<open>auto simp: running_def has_run_def calls_of_def waits_in_iff\<close>)
  qed (use w go in simp_all)
qed

lemma spurious_ok:
  assumes "pool_ok s" and "spurious s t s'"
  shows "pool_ok s'"
  using assms(2)
proof cases
  case (1 "is")
  have t: "t \<noteq> 0" using pool_okD(1) [OF assms(1)] 1 by (cases "t = 0") auto
  then have w: "worker_at t (Sleep # is) s" using pool_okD(2) [OF assms(1)] 1 by metis
  then show ?thesis
    using 1 t by (intro pool_ok_worker_change [OF assms(1) t]) (auto simp: running_def calls_of_def)
qed

text \<open>No access faults.\<close>

lemma never_faults:
  assumes "pool_ok s" and "now s t = a # is"
  shows "perform t a is (s\<lparr>now := (now s)(t := is)\<rparr>) \<noteq> Faults f"
proof (cases "t = 0")
  case True
  then have "controller_at (a # is) s" using pool_okD(1) [OF assms(1)] assms(2) by simp
  then show ?thesis using True
    by (cases a) (auto simp: with_object_def joining_def split: option.splits if_splits)
next
  case False
  then have "worker_at t (a # is) s" using pool_okD(2) [OF assms(1)] assms(2) by metis
  then show ?thesis
    by (cases a) (auto simp: with_object_def running_def split: option.splits if_splits)
qed

lemma pool_ok_step:
  assumes "pool_ok s" and "step s t s'"
  shows "pool_ok s'"
  using assms(2)
proof cases
  case (call c cs)
  then show ?thesis using call_ok [OF assms(1) call(4,5)] by simp
next
  case (go a "is")
  show ?thesis
  proof (cases "t = 0")
    case True
    then show ?thesis using controller_ok [OF assms(1), of a "is" s'] go(2,3) by simp
  next
    case False
    then show ?thesis using worker_ok [OF assms(1) False go(2,3)] by simp
  qed
next
  case (die a "is" f)
  then show ?thesis using never_faults [OF assms(1) die(3)] by simp
qed

lemma pool_ok_start: "ordered False {} {} {} cs \<Longrightarrow> pool_ok (start cs)"
  by (simp add: pool_ok_def start_def object_ok_def calls_of_def waits_in_def)

interpretation pools: machine moves step_of pool_ok
  by unfold_locales (auto simp: moves_def intro: pool_step_of pool_ok_step spurious_ok)

subsection \<open>Progress\<close>

definition all_done :: "pool \<Rightarrow> bool" where
  "all_done s \<longleftrightarrow> calls s = [] \<and> (\<forall>t. now s t = []) \<and> mu s = None \<and> objects s = Map.empty"

lemma unblocked:
  assumes "pool_ok s" and "now s t = a # is" and "perform t a is (s\<lparr>now := (now s)(t := is)\<rparr>) \<noteq> Blocks"
  shows "\<exists>s'. step s t s'"
  using assms step.intros(2,3) [OF pool_okD(8) [OF assms(1)] assms(2)]
  by (cases "perform t a is (s\<lparr>now := (now s)(t := is)\<rparr>)") auto

lemma holder_moves:
  assumes "pool_ok s" and "mu s = Some t"
  shows "\<exists>s'. step s t s'"
proof (cases "t = 0")
  case True
  with assms pool_okD(1) [OF assms(1)] obtain a "is" where
    "now s 0 = a # is" "a \<in> {Write_notified, Notify_all, Unlock_mu}"
    by (cases "(now s 0, s)" rule: controller_at.cases) (auto simp: joining_def)
  then show ?thesis using unblocked [OF assms(1), of t a "is"] True assms(2) by auto
next
  case False
  with assms pool_okD(2) [OF assms(1) False] obtain a "is" where
    "now s t = a # is" "a \<in> {Wait_notified, Unlock_mu}"
    by (cases "(t, now s t, s)" rule: worker_at.cases) auto
  then show ?thesis using unblocked [OF assms(1), of t a "is"] assms(2) by auto
qed

lemma stuck_worker:
  assumes "pool_ok s" and "mu s = None" and "t \<noteq> 0" and "\<not> (\<exists>s'. step s t s')"
  shows "now s t = [] \<or> t \<in> waiting s \<and> \<not> notified s"
  using pool_okD(2) [OF assms(1,3)] pool_okD(1) [OF assms(1)] unblocked [OF assms(1), of t] assms(2,4)
  by (cases "(t, now s t, s)" rule: worker_at.cases) (auto simp: with_object_def running_def split: option.splits)

lemma stuck_controller:
  assumes "pool_ok s" and "mu s = None" and "\<not> (\<exists>t s'. step s t s')"
  shows "now s 0 = [] \<and> calls s = []"
proof -
  have c: "controller_at (now s 0) s" by (rule pool_okD(1) [OF assms(1)])
  have blocked: "perform 0 a is (s\<lparr>now := (now s)(0 := is)\<rparr>) = Blocks" if "now s 0 = a # is" for a "is"
    using unblocked [OF assms(1) that] assms(3) by blast
  have "now s 0 = []"
  proof (rule ccontr)
    assume "now s 0 \<noteq> []"
    then obtain a "is" where at: "now s 0 = a # is" by (cases "now s 0") auto
    obtain i is' where j: "a = Pthread_join i" "joining s i is'" "\<not> joined s i"
      using c at blocked [OF at] assms(2)
      by (cases "(now s 0, s)" rule: controller_at.cases) (auto simp: with_object_def joining_def split: option.splits if_splits)
    then have "now s i = []" using stuck_worker [OF assms(1,2), of i] assms(3) by (auto simp: joining_def)
    then show False using j blocked [OF at] by (auto simp: joining_def split: if_splits)
  qed
  moreover have "calls s = []" using step.call [OF pool_okD(8) [OF assms(1)] \<open>now s 0 = []\<close>] assms(3) by (cases "calls s") auto
  ultimately show ?thesis by simp
qed

lemma stuck_done:
  assumes "pool_ok s" and "\<not> (\<exists>t s'. step s t s')"
  shows "all_done s"
proof -
  have free: "mu s = None" using holder_moves [OF assms(1)] assms(2) by (cases "mu s") auto
  have c: "now s 0 = []" "calls s = []" using stuck_controller [OF assms(1) free assms(2)] by simp_all
  then have none: "objects s = Map.empty" using pool_okD(1) [OF assms(1)] by simp
  then have "now s t = []" for t
    using c stuck_worker [OF assms(1) free, of t] assms(2) by (cases "t = 0") (auto simp: waits_in_iff)
  then show ?thesis using c free none by (simp add: all_done_def)
qed

text \<open>
  C33. Threads held back by a notification, in any interleaving and with any spurious wake-ups: no access is
  undefined; a thread that waits never calls its function before it is notified; when \<open>Join\<close> has
  returned, the function has been called exactly once, with the parameter of the constructor; and no
  wake-up is lost, because when nothing can go on any more, every thread has ended and every object is destroyed.
\<close>

theorem notified_threads:
  assumes "ordered False {} {} {} cs" and "reach moves (start cs) s"
  shows "dead s = None
    \<and> (\<forall>t obj. objects s t = Some obj \<and> thread_can_start obj \<and> \<not> notified s \<longrightarrow> calls_of s t = [])
    \<and> (\<forall>t obj. objects s t = Some obj \<and> finished obj \<longrightarrow> calls_of s t = [(t, param obj)])
    \<and> ((\<exists>t s'. step s t s') \<or> all_done s)"
proof -
  have ok: "pool_ok s" by (rule pools.always [OF assms(2) pool_ok_start [OF assms(1)]])
  have early: "calls_of s t = []" if "objects s t = Some obj" "thread_can_start obj" "\<not> notified s" for t obj
    using pool_okD(2,3) [OF ok, of t] that
    by (cases "(t, now s t, s)" rule: worker_at.cases) (auto simp: has_run_def running_def split: if_splits)
  have fin: "calls_of s t = [(t, param obj)]" if "objects s t = Some obj" "finished obj" for t obj
  proof -
    have t: "t \<noteq> 0" using pool_okD(3) [OF ok that(1)] .
    then have "joined s t" using pool_okD(4) [OF ok t] that by (simp add: object_ok_def)
    then have "now s t = []" "started s t" using pool_okD(5) [OF ok _ t] by auto
    then have "has_run s t" using pool_okD(2) [OF ok t] by simp
    then show ?thesis using that(1) by (auto simp: has_run_def)
  qed
  show ?thesis using pool_okD(8) [OF ok] early fin stuck_done [OF ok] by blast
qed

theorem notified_threads_witness:
  "\<exists>s obj. reach moves (start [ThreadWithParam 1 True 7, Notify_call, Join_call 1, ThreadWithParam_destructor 1]) s
    \<and> objects s 1 = Some obj \<and> finished obj \<and> calls_of s 1 = [(1, 7)]"
proof -
  let ?cs = "[ThreadWithParam 1 True 7, Notify_call, Join_call 1, ThreadWithParam_destructor 1]"
  let ?run = "schedule step_of (start ?cs) [0, 0, 0, 1, 1, 1, 0, 0, 0, 0, 0, 1, 1, 1, 1, 0, 0, 0, 0]"
  have ordered: "ordered False {} {} {} ?cs" by simp
  have "?run \<noteq> None"
    and "case ?run of Some s \<Rightarrow> map_option (\<lambda>obj. (finished obj, param obj)) (objects s 1) = Some (True, 7) | None \<Rightarrow> False"
    by code_simp+
  then obtain s obj where s: "?run = Some s" and obj: "objects s 1 = Some obj" "finished obj" "param obj = 7" by auto
  then show ?thesis using notified_threads [OF ordered pools.scheduled [OF s]] pools.scheduled [OF s] by auto
qed

end
