(* ===== verification/Gtest_Thread_Local.thy ===== *)
theory Gtest_Thread_Local
  imports Prelude
begin

section \<open>Values of each thread (gtest-port.h)\<close>

text \<open>
  \<open>ThreadLocal\<close> on a system with POSIX threads: a key of the system, which has a pointer for every thread, and
  a factory of the holders the pointers go to. Threads, keys and holders are numbers.
\<close>

subsection \<open>State\<close>

record 'a storage =
  keys :: "bool list"                          \<comment> \<open>by key: not yet deleted\<close>
  specific :: "nat \<Rightarrow> nat \<Rightarrow> nat option"       \<comment> \<open>by key and thread: the pointer\<close>
  holders :: "'a option list"                  \<comment> \<open>the \<open>ValueHolder\<close> objects; a deleted one is \<open>None\<close>\<close>

text \<open>\<open>DefaultValueHolderFactory\<close> makes holders of \<open>T()\<close>, \<open>InstanceValueHolderFactory\<close> of its value.\<close>

datatype 'a factory = DefaultValueHolderFactory | InstanceValueHolderFactory 'a

record 'a threadLocal =
  key :: nat
  default_factory :: "'a factory"

subsection \<open>The class\<close>

definition MakeNewHolder :: "'a \<Rightarrow> 'a factory \<Rightarrow> ('a storage, nat) cpp" where
  "MakeNewHolder dflt f =
     bnd (get (\<lambda>s. length (holders s))) (\<lambda>a.
     seq (upd (\<lambda>s. s\<lparr>holders := holders s @
           [Some (case f of DefaultValueHolderFactory \<Rightarrow> dflt | InstanceValueHolderFactory v \<Rightarrow> v)]\<rparr>))
         (ret a))"

definition DeleteThreadLocalValue :: "nat option \<Rightarrow> ('a storage, unit) cpp" where
  "DeleteThreadLocalValue value_holder = (case value_holder of
     None \<Rightarrow> ret ()
   | Some a \<Rightarrow> bnd (get (\<lambda>s. a < length (holders s) \<and> holders s ! a \<noteq> None)) (\<lambda>alive.
       if alive then upd (\<lambda>s. s\<lparr>holders := (holders s)[a := None]\<rparr>) else fail (Undefined Dangling)))"

definition CreateKey :: "('a storage, nat) cpp" where
  "CreateKey =
     bnd (get (\<lambda>s. length (keys s))) (\<lambda>k.
     seq (upd (\<lambda>s. s\<lparr>keys := keys s @ [True], specific := (specific s)(k := (\<lambda>_. None))\<rparr>))
         (ret k))"

definition ThreadLocal :: "('a storage, 'a threadLocal) cpp" where
  "ThreadLocal = bnd CreateKey (\<lambda>k. ret \<lparr>key = k, default_factory = DefaultValueHolderFactory\<rparr>)"

definition ThreadLocal_of :: "'a \<Rightarrow> ('a storage, 'a threadLocal) cpp" where
  "ThreadLocal_of value = bnd CreateKey (\<lambda>k. ret \<lparr>key = k, default_factory = InstanceValueHolderFactory value\<rparr>)"

text \<open>Access to the pointer of a key that is deleted is undefined.\<close>

definition pthread_getspecific :: "nat \<Rightarrow> nat \<Rightarrow> ('a storage, nat option) cpp" where
  "pthread_getspecific self k = bnd (get (\<lambda>s. k < length (keys s) \<and> keys s ! k)) (\<lambda>live.
     if live then get (\<lambda>s. specific s k self) else fail (Undefined Dangling))"

definition pthread_setspecific :: "nat \<Rightarrow> nat \<Rightarrow> nat option \<Rightarrow> ('a storage, unit) cpp" where
  "pthread_setspecific self k p = bnd (get (\<lambda>s. k < length (keys s) \<and> keys s ! k)) (\<lambda>live.
     if live then upd (\<lambda>s. s\<lparr>specific := (specific s)(k := (specific s k)(self := p))\<rparr>) else fail (Undefined Dangling))"

definition GetOrCreateValue :: "'a \<Rightarrow> nat \<Rightarrow> 'a threadLocal \<Rightarrow> ('a storage, nat) cpp" where
  "GetOrCreateValue dflt self loc =
     bnd (pthread_getspecific self (key loc)) (\<lambda>holder. case holder of
       Some a \<Rightarrow> ret a
     | None \<Rightarrow>
         bnd (MakeNewHolder dflt (default_factory loc)) (\<lambda>new_holder.
         seq (pthread_setspecific self (key loc) (Some new_holder))
             (ret new_holder)))"

text \<open>Reading and writing through the pointer to the value of a holder.\<close>

definition value_at :: "nat \<Rightarrow> ('a storage, 'a) cpp" where
  "value_at a = bnd (get (\<lambda>s. if a < length (holders s) then holders s ! a else None)) (\<lambda>h.
     case h of None \<Rightarrow> fail (Undefined Dangling) | Some v \<Rightarrow> ret v)"

definition get_value :: "'a \<Rightarrow> nat \<Rightarrow> 'a threadLocal \<Rightarrow> ('a storage, 'a) cpp" where
  "get_value dflt self loc = bnd (GetOrCreateValue dflt self loc) value_at"

definition set_value :: "'a \<Rightarrow> nat \<Rightarrow> 'a threadLocal \<Rightarrow> 'a \<Rightarrow> ('a storage, unit) cpp" where
  "set_value dflt self loc v =
     bnd (GetOrCreateValue dflt self loc) (\<lambda>a.
     seq (value_at a) (upd (\<lambda>s. s\<lparr>holders := (holders s)[a := Some v]\<rparr>)))"

definition ThreadLocal_destructor :: "nat \<Rightarrow> 'a threadLocal \<Rightarrow> ('a storage, unit) cpp" where
  "ThreadLocal_destructor self loc =
     bnd (pthread_getspecific self (key loc)) (\<lambda>holder.
     seq (DeleteThreadLocalValue holder)
         (upd (\<lambda>s. s\<lparr>keys := (keys s)[key loc := False]\<rparr>)))"

text \<open>When a thread exits, the system calls \<open>DeleteThreadLocalValue\<close> on each of its pointers that is not null.\<close>

definition exit_key :: "nat \<Rightarrow> nat \<Rightarrow> ('a storage, unit) cpp" where
  "exit_key self k =
     bnd (get (\<lambda>s. keys s ! k)) (\<lambda>live.
     if \<not> live then ret ()
     else bnd (pthread_getspecific self k) (\<lambda>p.
       seq (pthread_setspecific self k None) (DeleteThreadLocalValue p)))"

definition thread_exit :: "nat \<Rightarrow> ('a storage, unit) cpp" where
  "thread_exit self = bnd (get (\<lambda>s. length (keys s))) (\<lambda>n. for_each [0..<n] (exit_key self))"

subsection \<open>Uses of thread-local objects\<close>

datatype 'a use = Get nat nat | Set nat nat 'a | Exit nat

text \<open>A thread reads or writes the object of some index, or exits.\<close>

fun perform :: "'a \<Rightarrow> 'a threadLocal list \<Rightarrow> 'a use \<Rightarrow> ('a storage, 'a option) cpp" where
  "perform dflt objs (Get t i) = bnd (get_value dflt t (objs ! i)) (\<lambda>v. ret (Some v))"
| "perform dflt objs (Set t i v) = seq (set_value dflt t (objs ! i) v) (ret None)"
| "perform dflt objs (Exit t) = seq (thread_exit t) (ret None)"

fun run :: "'a \<Rightarrow> 'a threadLocal list \<Rightarrow> 'a use list \<Rightarrow> ('a storage, 'a option list) cpp" where
  "run dflt objs [] = ret []"
| "run dflt objs (u # us) = bnd (perform dflt objs u) (\<lambda>r. bnd (run dflt objs us) (\<lambda>rs. ret (r # rs)))"

text \<open>What it should mean: every object has a value for every thread, which starts, and starts again, as its initial one.\<close>

definition initial :: "'a \<Rightarrow> 'a threadLocal \<Rightarrow> 'a" where
  "initial dflt loc = (case default_factory loc of DefaultValueHolderFactory \<Rightarrow> dflt | InstanceValueHolderFactory v \<Rightarrow> v)"

type_synonym 'a contents = "nat \<Rightarrow> nat \<Rightarrow> 'a"

fun meaning :: "(nat \<Rightarrow> 'a) \<Rightarrow> 'a use \<Rightarrow> 'a contents \<Rightarrow> 'a option \<times> 'a contents" where
  "meaning init (Get t i) c = (Some (c i t), c)"
| "meaning init (Set t i v) c = (None, c(i := (c i)(t := v)))"
| "meaning init (Exit t) c = (None, (\<lambda>i. (c i)(t := init i)))"

fun meanings :: "(nat \<Rightarrow> 'a) \<Rightarrow> 'a use list \<Rightarrow> 'a contents \<Rightarrow> 'a option list \<times> 'a contents" where
  "meanings init [] c = ([], c)"
| "meanings init (u # us) c = (case meaning init u c of (r, c') \<Rightarrow> case meanings init us c' of (rs, c'') \<Rightarrow> (r # rs, c''))"

text \<open>The threads that have used an object since they last exited.\<close>

fun active :: "nat set \<Rightarrow> 'a use list \<Rightarrow> nat set" where
  "active A [] = A"
| "active A (Get t i # us) = active (insert t A) us"
| "active A (Set t i v # us) = active (insert t A) us"
| "active A (Exit t # us) = active (A - {t}) us"

fun uses_objects :: "nat \<Rightarrow> 'a use list \<Rightarrow> bool" where
  "uses_objects n [] \<longleftrightarrow> True"
| "uses_objects n (Get t i # us) \<longleftrightarrow> i < n \<and> uses_objects n us"
| "uses_objects n (Set t i v # us) \<longleftrightarrow> i < n \<and> uses_objects n us"
| "uses_objects n (Exit t # us) \<longleftrightarrow> uses_objects n us"

text \<open>Objects constructed one after the other, without or with an initial value.\<close>

fun construct :: "'a option list \<Rightarrow> ('a storage, 'a threadLocal list) cpp" where
  "construct [] = ret []"
| "construct (v # vs) =
     bnd (case v of None \<Rightarrow> ThreadLocal | Some x \<Rightarrow> ThreadLocal_of x) (\<lambda>loc.
     bnd (construct vs) (\<lambda>locs. ret (loc # locs)))"

definition empty_storage :: "'a storage" where
  "empty_storage = \<lparr>keys = [], specific = (\<lambda>_ _. None), holders = []\<rparr>"

subsection \<open>The storage\<close>

definition live :: "'a storage \<Rightarrow> nat \<Rightarrow> bool" where
  "live s k \<longleftrightarrow> k < length (keys s) \<and> keys s ! k"

text \<open>Every pointer of a live key goes to a holder of its own, and every holder is pointed to from an active thread.\<close>

definition pointers_ok :: "'a storage \<Rightarrow> bool" where
  "pointers_ok s \<longleftrightarrow>
     (\<forall>k t a. live s k \<longrightarrow> specific s k t = Some a \<longrightarrow> a < length (holders s) \<and> holders s ! a \<noteq> None)
   \<and> (\<forall>k t k' t' a. live s k \<longrightarrow> live s k' \<longrightarrow> specific s k t = Some a \<longrightarrow> specific s k' t' = Some a \<longrightarrow> k = k' \<and> t = t')"

lemma pointers_okI:
  assumes "\<And>k t a. live s k \<Longrightarrow> specific s k t = Some a \<Longrightarrow> a < length (holders s) \<and> holders s ! a \<noteq> None"
    and "\<And>k t k' t' a. live s k \<Longrightarrow> live s k' \<Longrightarrow> specific s k t = Some a \<Longrightarrow> specific s k' t' = Some a \<Longrightarrow> k = k' \<and> t = t'"
  shows "pointers_ok s"
  using assms unfolding pointers_ok_def by blast

lemma pointer_alive:
  assumes "pointers_ok s" and "live s k" and "specific s k t = Some a"
  shows "a < length (holders s)" and "holders s ! a \<noteq> None"
  using assms unfolding pointers_ok_def by blast+

lemma pointers_apart:
  "pointers_ok s \<Longrightarrow> live s k \<Longrightarrow> live s k' \<Longrightarrow> specific s k t = Some a \<Longrightarrow> specific s k' t' = Some a \<Longrightarrow> k = k' \<and> t = t'"
  unfolding pointers_ok_def by blast

definition owned_by :: "nat set \<Rightarrow> 'a storage \<Rightarrow> bool" where
  "owned_by A s \<longleftrightarrow> (\<forall>a < length (holders s). holders s ! a \<noteq> None \<longrightarrow>
     (\<exists>k. \<exists>t \<in> A. live s k \<and> specific s k t = Some a))"

definition content :: "'a \<Rightarrow> 'a storage \<Rightarrow> 'a threadLocal \<Rightarrow> nat \<Rightarrow> 'a" where
  "content dflt s loc t = (case specific s (key loc) t of None \<Rightarrow> initial dflt loc | Some a \<Rightarrow> the (holders s ! a))"

lemma storage_runs [run_simps]:
  "live s k \<Longrightarrow> pthread_getspecific t k s = (Inr (specific s k t), s)"
  "live s k \<Longrightarrow> pthread_setspecific t k p s = (Inr (), s\<lparr>specific := (specific s)(k := (specific s k)(t := p))\<rparr>)"
  "MakeNewHolder dflt (default_factory loc) s = (Inr (length (holders s)), s\<lparr>holders := holders s @ [Some (initial dflt loc)]\<rparr>)"
  "a < length (holders s) \<Longrightarrow> holders s ! a = Some v \<Longrightarrow> value_at a s = (Inr v, s)"
  by (simp_all add: pthread_getspecific_def pthread_setspecific_def MakeNewHolder_def value_at_def initial_def live_def bnd_app seq_def)

lemma owned_mono: "owned_by A s \<Longrightarrow> A \<subseteq> B \<Longrightarrow> owned_by B s"
  unfolding owned_by_def by blast

lemma get_or_create:
  assumes "pointers_ok s" and "live s (key loc)" and "owned_by A s"
  shows "\<exists>a s'. GetOrCreateValue dflt t loc s = (Inr a, s') \<and> pointers_ok s' \<and> owned_by (insert t A) s' \<and> keys s' = keys s
    \<and> specific s' (key loc) t = Some a \<and> a < length (holders s') \<and> holders s' ! a = Some (content dflt s loc t)
    \<and> (\<forall>loc' u. live s (key loc') \<and> (key loc' = key loc \<longrightarrow> loc' = loc) \<longrightarrow> content dflt s' loc' u = content dflt s loc' u)"
proof (cases "specific s (key loc) t")
  case (Some a)
  then have "a < length (holders s)" "holders s ! a \<noteq> None" using assms(1,2) by (auto simp: pointers_ok_def)
  then show ?thesis using Some assms
    by (intro exI [of _ a] exI [of _ s])
      (use owned_mono [OF assms(3), of "insert t A"] in \<open>auto simp: GetOrCreateValue_def bnd_app run_simps content_def\<close>)
next
  case None
  let ?a = "length (holders s)"
  let ?s = "s\<lparr>holders := holders s @ [Some (initial dflt loc)],
      specific := (specific s)(key loc := (specific s (key loc))(t := Some ?a))\<rparr>"
  have run: "GetOrCreateValue dflt t loc s = (Inr ?a, ?s)"
    using None assms(2) by (simp add: GetOrCreateValue_def bnd_app seq_def run_simps live_def)
  have live [simp]: "live ?s k = live s k" for k by (simp add: live_def)
  have old: "a < length (holders s) \<and> holders s ! a \<noteq> None" if "live s k" "specific s k u = Some a" for k u a
    using assms(1) that by (auto simp: pointers_ok_def)
  have ptr: "specific ?s k u = (if k = key loc \<and> u = t then Some ?a else specific s k u)" for k u by simp
  have holder: "holders ?s ! a = (if a = ?a then Some (initial dflt loc) else holders s ! a)" if "a \<le> ?a" for a
    using that by (simp add: nth_append)
  have "pointers_ok ?s"
  proof (rule pointers_okI; unfold live ptr)
    fix k u a assume "live s k" "(if k = key loc \<and> u = t then Some ?a else specific s k u) = Some a"
    then show "a < length (holders ?s) \<and> holders ?s ! a \<noteq> None"
      using old [of k u a] by (simp add: nth_append less_SucI split: if_splits)
  next
    fix k u k' u' a
    assume "live s k" "live s k'" "(if k = key loc \<and> u = t then Some ?a else specific s k u) = Some a"
      "(if k' = key loc \<and> u' = t then Some ?a else specific s k' u') = Some a"
    then show "k = k' \<and> u = u'"
      using old [of k u a] old [of k' u' a] pointers_apart [OF assms(1), of k k' u a u'] by (simp split: if_splits)
  qed
  moreover have "owned_by (insert t A) ?s"
    unfolding owned_by_def live ptr
  proof (intro allI impI)
    fix a assume a: "a < length (holders ?s)" "holders ?s ! a \<noteq> None"
    show "\<exists>k. \<exists>u \<in> insert t A. live s k \<and> (if k = key loc \<and> u = t then Some ?a else specific s k u) = Some a"
    proof (cases "a = ?a")
      case False
      then have "a < ?a" "holders s ! a \<noteq> None" using a holder [of a] by simp_all
      then obtain k u where "u \<in> A" "live s k" "specific s k u = Some a"
        using assms(3) unfolding owned_by_def by blast
      then show ?thesis using None by (intro exI [of _ k] bexI [of _ u]) auto
    qed (use assms(2) in auto)
  qed
  moreover have "content dflt ?s loc' u = content dflt s loc' u"
    if "live s (key loc')" "key loc' = key loc \<longrightarrow> loc' = loc" for loc' u
    using that None old [of "key loc'" u] unfolding content_def ptr by (auto simp: nth_append split: option.splits if_splits)
  ultimately show ?thesis using run None by (intro exI [of _ ?a] exI [of _ ?s]) (auto simp: content_def)
qed

lemma get_run:
  assumes "pointers_ok s" and "live s (key loc)" and "owned_by A s"
  shows "\<exists>s'. get_value dflt t loc s = (Inr (content dflt s loc t), s') \<and> pointers_ok s' \<and> owned_by (insert t A) s' \<and> keys s' = keys s
    \<and> (\<forall>loc' u. live s (key loc') \<and> (key loc' = key loc \<longrightarrow> loc' = loc) \<longrightarrow> content dflt s' loc' u = content dflt s loc' u)"
proof -
  obtain a s' where a: "GetOrCreateValue dflt t loc s = (Inr a, s')" "a < length (holders s')" "holders s' ! a = Some (content dflt s loc t)"
    and rest: "pointers_ok s'" "owned_by (insert t A) s'" "keys s' = keys s"
      "\<forall>loc' u. live s (key loc') \<and> (key loc' = key loc \<longrightarrow> loc' = loc) \<longrightarrow> content dflt s' loc' u = content dflt s loc' u"
    using get_or_create [OF assms, of dflt t] by blast
  have "get_value dflt t loc s = (Inr (content dflt s loc t), s')"
    using a by (simp add: get_value_def bnd_app run_simps)
  then show ?thesis using rest by blast
qed

lemma set_run:
  assumes "pointers_ok s" and "live s (key loc)" and "owned_by A s"
  shows "\<exists>s'. set_value dflt t loc v s = (Inr (), s') \<and> pointers_ok s' \<and> owned_by (insert t A) s' \<and> keys s' = keys s
    \<and> (\<forall>loc' u. live s (key loc') \<and> (key loc' = key loc \<longrightarrow> loc' = loc) \<longrightarrow>
         content dflt s' loc' u = (if loc' = loc \<and> u = t then v else content dflt s loc' u))"
proof -
  obtain a s1 where a: "GetOrCreateValue dflt t loc s = (Inr a, s1)" "a < length (holders s1)" "holders s1 ! a = Some (content dflt s loc t)"
    and ptr: "specific s1 (key loc) t = Some a"
    and rest: "pointers_ok s1" "owned_by (insert t A) s1" "keys s1 = keys s"
      "\<forall>loc' u. live s (key loc') \<and> (key loc' = key loc \<longrightarrow> loc' = loc) \<longrightarrow> content dflt s1 loc' u = content dflt s loc' u"
    using get_or_create [OF assms, of dflt t] by blast
  let ?s = "s1\<lparr>holders := (holders s1)[a := Some v]\<rparr>"
  have live [simp]: "live ?s k = live s k" "live s1 k = live s k" for k using rest(3) by (simp_all add: live_def)
  have run: "set_value dflt t loc v s = (Inr (), ?s)"
    using a by (simp add: set_value_def bnd_app seq_def run_simps)
  have "pointers_ok ?s"
  proof (rule pointers_okI; unfold live)
    fix k u b assume "live s k" "specific ?s k u = Some b"
    then show "b < length (holders ?s) \<and> holders ?s ! b \<noteq> None"
      using pointer_alive [OF rest(1), of k u b] by (cases "b = a") simp_all
  qed (use pointers_apart [OF rest(1)] in simp)
  moreover have "owned_by (insert t A) ?s"
    using rest(2) a(2,3) unfolding owned_by_def live by (auto simp: nth_list_update split: if_splits)
  moreover have "content dflt ?s loc' u = (if loc' = loc \<and> u = t then v else content dflt s loc' u)"
    if loc': "live s (key loc')" "key loc' = key loc \<longrightarrow> loc' = loc" for loc' u
  proof (cases "loc' = loc \<and> u = t")
    case True
    then show ?thesis using ptr a(2) by (simp add: content_def)
  next
    case False
    then have "specific s1 (key loc') u \<noteq> Some a"
      using rest(1) ptr loc' assms(2) unfolding pointers_ok_def live by metis
    then have "content dflt ?s loc' u = content dflt s1 loc' u"
      by (auto simp: content_def split: option.split)
    then show ?thesis using False rest(4) loc' by auto
  qed
  ultimately show ?thesis using run rest(3) by (intro exI [of _ ?s]) simp
qed

lemma exit_key_run:
  assumes "pointers_ok s" and "k < length (keys s)"
  shows "\<exists>s'. exit_key t k s = (Inr (), s') \<and> pointers_ok s' \<and> keys s' = keys s \<and> length (holders s') = length (holders s)
    \<and> specific s' = (\<lambda>k' u. if k' = k \<and> u = t \<and> live s k then None else specific s k' u)
    \<and> (\<forall>a < length (holders s). holders s' ! a = (if live s k \<and> specific s k t = Some a then None else holders s ! a))"
proof (cases "live s k")
  case False
  then show ?thesis using assms by (intro exI [of _ s]) (auto simp: exit_key_def bnd_app live_def fun_eq_iff)
next
  case True
  let ?s = "s\<lparr>specific := (specific s)(k := (specific s k)(t := None)),
      holders := (case specific s k t of None \<Rightarrow> holders s | Some a \<Rightarrow> (holders s)[a := None])\<rparr>"
  have ptr: "a < length (holders s) \<and> holders s ! a \<noteq> None" if "specific s k t = Some a" for a
    using assms(1) True that by (auto simp: pointers_ok_def)
  have run: "exit_key t k s = (Inr (), ?s)"
    using True ptr by (auto simp: exit_key_def bnd_app seq_def run_simps DeleteThreadLocalValue_def live_def split: option.split)
  have live: "live ?s k' = live s k'" for k' by (simp add: live_def)
  have spec: "specific ?s k' u = (if k' = k \<and> u = t then None else specific s k' u)" for k' u by simp
  have "pointers_ok ?s"
  proof (rule pointers_okI; unfold live spec)
    fix k' u a assume a: "live s k'" "(if k' = k \<and> u = t then None else specific s k' u) = Some a"
    then have "specific s k t \<noteq> Some a" using pointers_apart [OF assms(1) _ True, of k' u a t] by (auto split: if_splits)
    then show "a < length (holders ?s) \<and> holders ?s ! a \<noteq> None"
      using a pointer_alive [OF assms(1), of k' u a] by (auto simp: nth_list_update split: option.split if_splits)
  qed (use pointers_apart [OF assms(1)] in \<open>auto split: if_splits\<close>)
  then show ?thesis using run True ptr
    by (intro exI [of _ ?s]) (auto simp: fun_eq_iff split: option.split)
qed

lemma exit_loop:
  assumes "pointers_ok s" and "n \<le> length (keys s)"
  shows "\<exists>s'. for_each [0..<n] (exit_key t) s = (Inr (), s') \<and> pointers_ok s' \<and> keys s' = keys s \<and> length (holders s') = length (holders s)
    \<and> specific s' = (\<lambda>k u. if k < n \<and> u = t \<and> live s k then None else specific s k u)
    \<and> (\<forall>a < length (holders s). holders s' ! a = (if \<exists>k < n. live s k \<and> specific s k t = Some a then None else holders s ! a))"
  using assms(2)
proof (induction n)
  case (Suc n)
  then obtain s1 where s1: "for_each [0..<n] (exit_key t) s = (Inr (), s1)" "pointers_ok s1" "keys s1 = keys s" "length (holders s1) = length (holders s)"
    "specific s1 = (\<lambda>k u. if k < n \<and> u = t \<and> live s k then None else specific s k u)"
    "\<forall>a < length (holders s). holders s1 ! a = (if \<exists>k < n. live s k \<and> specific s k t = Some a then None else holders s ! a)"
    by auto
  have live: "live s1 k = live s k" for k using s1(3) by (simp add: live_def)
  obtain s2 where s2: "exit_key t n s1 = (Inr (), s2)" "pointers_ok s2" "keys s2 = keys s1" "length (holders s2) = length (holders s1)"
    "specific s2 = (\<lambda>k' u. if k' = n \<and> u = t \<and> live s n then None else specific s1 k' u)"
    "\<forall>a < length (holders s1). holders s2 ! a = (if live s n \<and> specific s1 n t = Some a then None else holders s1 ! a)"
    using exit_key_run [OF s1(2), of n t] Suc.prems s1(3) live by auto
  have "for_each [0..<Suc n] (exit_key t) s = (Inr (), s2)"
    using s1(1) s2(1) by (simp add: for_each_append seq_def bnd_app)
  moreover have "specific s2 = (\<lambda>k u. if k < Suc n \<and> u = t \<and> live s k then None else specific s k u)"
    using s1(5) s2(5) by (auto simp: fun_eq_iff less_Suc_eq)
  moreover have "holders s2 ! a = (if \<exists>k < Suc n. live s k \<and> specific s k t = Some a then None else holders s ! a)"
    if "a < length (holders s)" for a
    using that s1(4,6) s2(6) by (simp add: s1(5) less_Suc_eq) blast
  ultimately show ?case using s1(3,4) s2(2-4) by (intro exI [of _ s2]) simp
qed (use assms(1) in \<open>auto intro!: exI [of _ s]\<close>)

lemma exit_run:
  assumes "pointers_ok s" and "owned_by A s"
  shows "\<exists>s'. thread_exit t s = (Inr (), s') \<and> pointers_ok s' \<and> owned_by (A - {t}) s' \<and> keys s' = keys s
    \<and> (\<forall>loc u. live s (key loc) \<longrightarrow> content dflt s' loc u = (if u = t then initial dflt loc else content dflt s loc u))"
proof -
  obtain s' where s': "for_each [0..<length (keys s)] (exit_key t) s = (Inr (), s')" "pointers_ok s'" "keys s' = keys s"
      "length (holders s') = length (holders s)"
    and spec: "specific s' = (\<lambda>k u. if k < length (keys s) \<and> u = t \<and> live s k then None else specific s k u)"
    and hold: "\<forall>a < length (holders s). holders s' ! a = (if \<exists>k < length (keys s). live s k \<and> specific s k t = Some a then None else holders s ! a)"
    using exit_loop [OF assms(1), of "length (keys s)" t] by blast
  have live: "live s' k = live s k" for k using s'(3) by (simp add: live_def)
  have short: "live s k \<Longrightarrow> k < length (keys s)" for k by (simp add: live_def)
  have "owned_by (A - {t}) s'"
    unfolding owned_by_def live
  proof (intro allI impI)
    fix a assume a: "a < length (holders s')" "holders s' ! a \<noteq> None"
    then have "holders s ! a \<noteq> None" and not_t: "\<not> (\<exists>k < length (keys s). live s k \<and> specific s k t = Some a)"
      using hold s'(4) by (metis (no_types, lifting))+
    then obtain k u where u: "u \<in> A" "live s k" "specific s k u = Some a" using assms(2) a(1) s'(4) by (auto simp: owned_by_def)
    then have "u \<noteq> t" using not_t short by blast
    then show "\<exists>k. \<exists>u \<in> A - {t}. live s k \<and> specific s' k u = Some a" using u by (auto simp: spec)
  qed
  moreover have "content dflt s' loc u = (if u = t then initial dflt loc else content dflt s loc u)" if l: "live s (key loc)" for loc u
  proof (cases "u = t")
    case True
    then show ?thesis using l short by (simp add: content_def spec)
  next
    case False
    have "holders s' ! a = holders s ! a" if "specific s (key loc) u = Some a" for a
    proof -
      have "a < length (holders s)" "\<not> (\<exists>k < length (keys s). live s k \<and> specific s k t = Some a)"
        using assms(1) l that False unfolding pointers_ok_def by blast+
      then have "holders s' ! a = (if False then None else holders s ! a)" using hold by metis
      then show ?thesis by simp
    qed
    then show ?thesis using False by (auto simp: content_def spec split: option.split)
  qed
  ultimately show ?thesis using s' by (intro exI [of _ s']) (simp add: thread_exit_def bnd_app)
qed

subsection \<open>Refinement\<close>

definition objects_ok :: "'a threadLocal list \<Rightarrow> 'a storage \<Rightarrow> bool" where
  "objects_ok objs s \<longleftrightarrow> distinct (map key objs) \<and> (\<forall>loc \<in> set objs. live s (key loc))"

definition contains :: "'a \<Rightarrow> 'a threadLocal list \<Rightarrow> 'a storage \<Rightarrow> 'a contents \<Rightarrow> bool" where
  "contains dflt objs s c \<longleftrightarrow> (\<forall>i < length objs. \<forall>t. content dflt s (objs ! i) t = c i t)"

lemma objects_apart:
  assumes "objects_ok objs s" and "i < length objs" and "j < length objs"
  shows "live s (key (objs ! i))" and "objs ! j = objs ! i \<longleftrightarrow> j = i" and "key (objs ! j) = key (objs ! i) \<longleftrightarrow> j = i"
proof -
  have d: "distinct (map key objs)" using assms(1) by (simp add: objects_ok_def)
  show "live s (key (objs ! i))" using assms by (simp add: objects_ok_def)
  show "key (objs ! j) = key (objs ! i) \<longleftrightarrow> j = i" using nth_eq_iff_index_eq [OF d, of j i] assms(2,3) by simp
  show "objs ! j = objs ! i \<longleftrightarrow> j = i"
    using nth_eq_iff_index_eq [of objs j i] assms(2,3) d by (simp add: distinct_map)
qed

lemma run_refines:
  assumes "pointers_ok s" and "owned_by A s" and "objects_ok objs s" and "contains dflt objs s c" and "uses_objects (length objs) us"
    and init: "\<And>i. i < length objs \<Longrightarrow> init i = initial dflt (objs ! i)"
  shows "\<exists>s'. run dflt objs us s = (Inr (fst (meanings init us c)), s')
    \<and> owned_by (active A us) s' \<and> contains dflt objs s' (snd (meanings init us c))"
  using assms(1-5)
proof (induction us arbitrary: s A c)
  case (Cons u us)
  have "\<exists>s1 r c1 A1. perform dflt objs u s = (Inr r, s1) \<and> meaning init u c = (r, c1) \<and> active A (u # us) = active A1 us
    \<and> pointers_ok s1 \<and> owned_by A1 s1 \<and> keys s1 = keys s \<and> contains dflt objs s1 c1"
  proof (cases u)
    case (Get t i)
    then have i: "i < length objs" using Cons.prems(5) by simp
    note apart = objects_apart [OF Cons.prems(3) i]
    obtain s1 where "get_value dflt t (objs ! i) s = (Inr (content dflt s (objs ! i) t), s1)" "pointers_ok s1" "owned_by (insert t A) s1"
      "keys s1 = keys s" "\<forall>loc' u. live s (key loc') \<and> (key loc' = key (objs ! i) \<longrightarrow> loc' = objs ! i) \<longrightarrow> content dflt s1 loc' u = content dflt s loc' u"
      using get_run [OF Cons.prems(1) apart(1) [OF i] Cons.prems(2), of dflt t] by blast
    then show ?thesis using Get i apart objects_apart(1) [OF Cons.prems(3)] Cons.prems(4)
      by (intro exI [of _ s1] exI [of _ "Some (c i t)"] exI [of _ c] exI [of _ "insert t A"]) (simp add: bnd_app contains_def)
  next
    case (Set t i v)
    then have i: "i < length objs" using Cons.prems(5) by simp
    note apart = objects_apart [OF Cons.prems(3) i]
    obtain s1 where "set_value dflt t (objs ! i) v s = (Inr (), s1)" "pointers_ok s1" "owned_by (insert t A) s1" "keys s1 = keys s"
      "\<forall>loc' u. live s (key loc') \<and> (key loc' = key (objs ! i) \<longrightarrow> loc' = objs ! i) \<longrightarrow>
         content dflt s1 loc' u = (if loc' = objs ! i \<and> u = t then v else content dflt s loc' u)"
      using set_run [OF Cons.prems(1) apart(1) [OF i] Cons.prems(2), of dflt t v] by blast
    then show ?thesis using Set i apart objects_apart(1) [OF Cons.prems(3)] Cons.prems(4)
      by (intro exI [of _ s1] exI [of _ None] exI [of _ "c(i := (c i)(t := v))"] exI [of _ "insert t A"])
        (simp add: seq_def bnd_app contains_def)
  next
    case (Exit t)
    obtain s1 where "thread_exit t s = (Inr (), s1)" "pointers_ok s1" "owned_by (A - {t}) s1" "keys s1 = keys s"
      "\<forall>loc u. live s (key loc) \<longrightarrow> content dflt s1 loc u = (if u = t then initial dflt loc else content dflt s loc u)"
      using exit_run [OF Cons.prems(1,2), of t dflt] by blast
    then show ?thesis using Exit init objects_apart(1) [OF Cons.prems(3)] Cons.prems(4)
      by (intro exI [of _ s1] exI [of _ None] exI [of _ "\<lambda>i. (c i)(t := init i)"] exI [of _ "A - {t}"])
        (simp add: seq_def bnd_app contains_def)
  qed
  then obtain s1 r c1 A1 where one: "perform dflt objs u s = (Inr r, s1)" "meaning init u c = (r, c1)" "active A (u # us) = active A1 us"
    and ok: "pointers_ok s1" "owned_by A1 s1" "keys s1 = keys s" "contains dflt objs s1 c1" by blast
  have "objects_ok objs s1" using Cons.prems(3) ok(3) by (simp add: objects_ok_def live_def)
  moreover have "uses_objects (length objs) us" using Cons.prems(5) by (cases u) simp_all
  ultimately show ?case
    using Cons.IH [OF ok(1,2) _ ok(4)] one by (fastforce simp: bnd_app split: prod.split)
qed auto

lemma construct_run:
  "\<exists>locs. construct vs s = (Inr locs, s\<lparr>keys := keys s @ replicate (length vs) True,
       specific := (\<lambda>k. if length (keys s) \<le> k \<and> k < length (keys s) + length vs then (\<lambda>_. None) else specific s k)\<rparr>)
     \<and> map key locs = [length (keys s)..<length (keys s) + length vs]
     \<and> map default_factory locs = map (\<lambda>v. case v of None \<Rightarrow> DefaultValueHolderFactory | Some x \<Rightarrow> InstanceValueHolderFactory x) vs"
proof (induction vs arbitrary: s)
  case (Cons v vs)
  let ?n = "length (keys s)"
  let ?s = "s\<lparr>keys := keys s @ [True], specific := (specific s)(?n := (\<lambda>_. None))\<rparr>"
  let ?loc = "\<lparr>key = ?n, default_factory = (case v of None \<Rightarrow> DefaultValueHolderFactory | Some x \<Rightarrow> InstanceValueHolderFactory x)\<rparr>"
  have one: "(case v of None \<Rightarrow> ThreadLocal | Some x \<Rightarrow> ThreadLocal_of x) s = (Inr ?loc, ?s)"
    by (auto simp: ThreadLocal_def ThreadLocal_of_def CreateKey_def bnd_app seq_def split: option.split)
  obtain locs where locs: "construct vs ?s = (Inr locs, ?s\<lparr>keys := keys ?s @ replicate (length vs) True,
       specific := (\<lambda>k. if length (keys ?s) \<le> k \<and> k < length (keys ?s) + length vs then (\<lambda>_. None) else specific ?s k)\<rparr>)"
     "map key locs = [length (keys ?s)..<length (keys ?s) + length vs]"
     "map default_factory locs = map (\<lambda>v. case v of None \<Rightarrow> DefaultValueHolderFactory | Some x \<Rightarrow> InstanceValueHolderFactory x) vs"
    using Cons.IH [of ?s] by blast
  show ?case
    by (intro exI [of _ "?loc # locs"])
      (use one locs upt_conv_Cons [of ?n "?n + Suc (length vs)"] in \<open>auto simp: bnd_app fun_eq_iff simp del: upt_Suc\<close>)
next
  case Nil
  show ?case by (auto intro!: storage.equality simp: fun_eq_iff)
qed



text \<open>
  Destroying an object frees the holder of the thread that does it; the holders of other threads are out of
  reach afterwards, so even the exit of their threads does not free them.
\<close>

lemma destroyed_object:
  assumes "pointers_ok s" and "live s (key loc)" and "specific s (key loc) t = Some a" and "specific s (key loc) u = Some b" and "t \<noteq> u"
  shows "\<exists>s1. ThreadLocal_destructor t loc s = (Inr (), s1) \<and> holders s1 ! a = None \<and> holders s1 ! b \<noteq> None
    \<and> exit_key u (key loc) s1 = (Inr (), s1)"
proof -
  have "a \<noteq> b" using pointers_apart [OF assms(1,2,2,3), of u] assms(4,5) by auto
  then show ?thesis
    using assms(2,3) pointer_alive [OF assms(1,2,3)] pointer_alive [OF assms(1,2,4)]
    by (intro exI [of _ "s\<lparr>holders := (holders s)[a := None], keys := (keys s)[key loc := False]\<rparr>"])
      (simp add: ThreadLocal_destructor_def DeleteThreadLocalValue_def exit_key_def bnd_app seq_def run_simps live_def)
qed

end
