(* ===== verification/Spec2Isabelle.thy ===== *)
theory Spec2Isabelle
  imports Order_Flow Execution_Flow Market_Facts Logwriter Gtest_Float Gtest_Values Gtest_Typed Gtest_Death Gtest_Spi Gtest_Matchers Gtest_Printing
    Gtest_Results Teardown Gtest_Mutex Gtest_Threads Gtest_Thread_Local
begin

text \<open>
  A verification library for InertiaTrader, a small stock exchange: a server process that
  takes orders over TCP, checks and stores them, matches buy with sell orders and reports
  the executions (\<open>src/main.cpp\<close>, \<open>src/InertiaTrader\<close>), the access to its database
  (\<open>src/Database\<close>), a client that makes the market (\<open>src/MarketMaker\<close>), the small library
  they share (\<open>funclib\<close>), and the parts of the GoogleTest headers in \<open>include/gtest\<close> whose
  code is complete there.

  How the program works. \<open>main\<close> builds a \<open>Trader\<close>, which loads its data from the database
  and builds a \<open>Server\<close>. The server accepts connections; for each one a thread cuts the byte
  stream at \<open>&\<close> into messages and another one sends heartbeats. Until a connection is
  logged in, its messages are logins and registrations; afterwards orders go into the
  queue \<open>dq\<close>, changes into \<open>dq_orderhandle\<close>, and price queries are answered at once. Four
  threads of the trader take orders in (\<open>getOrder\<close>), cancel and change them
  (\<open>getCancelOrder\<close>), match (\<open>matchup\<close>) and report executions (\<open>generateExecReport\<close>).

  Conventions. A C++ function is a function from the state to an outcome and a new state
  (\<open>Prelude\<close>): a fault is an exception, a step the language leaves undefined, or an
  abort, and the state after a fault keeps what was written before it. Everything the
  outside sees is an event of the trace, and everything the outside answers (sockets, the
  database, random numbers, uninitialised memory, files) is a field of the environment
  \<open>env\<close>, a function of the trace so far, so the theorems hold for every behaviour of it.
  \<open>double\<close> is modelled exactly (\<open>Double\<close>: signed zeros, infinities, NaN, correct rounding),
  \<open>int\<close> and \<open>unsigned int\<close> are words where they wrap or overflow, \<open>std::map\<close> is a sorted
  association list (\<open>Std_Map\<close>), a multiset of pointers is the sorted list of the addresses,
  pointers are addresses with an explicit heap.

  The theories, each with its definitions first and its facts behind them:

  \<^item> \<open>Prelude\<close>: faults, the outcome monad with its rules for running, preserving and
    triples, the world; \<open>Double\<close>, \<open>Text\<close> (\<open>stoi\<close>, \<open>stod\<close>, \<open>to_string\<close> and their round
    trips), \<open>Std_Map\<close> (with the interface \<open>ordered_map\<close> and its interpretation).
  \<^item> \<open>Simplefunc\<close>, \<open>Data_Queue\<close>, \<open>Logwriter\<close>, \<open>Init_Parser\<close>: the files of \<open>funclib\<close>.
  \<^item> \<open>Tables\<close>, \<open>Trading_Data\<close>: the records and the statements sent to the database.
  \<^item> \<open>Connection_Model\<close>, \<open>Server_Model\<close>, \<open>Server_Facts\<close>: connections, framing, login, message
    handling, quotes; what each does on every branch.
  \<^item> \<open>Orders\<close>, \<open>Trader_Model\<close>, \<open>Trader_Facts\<close>: orders, the risk control, serial numbers, the
    turns of the four threads, start-up. \<open>Teardown\<close>: the destructors, which never run.
  \<^item> \<open>System_Model\<close>: all threads of the process as a step relation; one turn of a thread is
    a step, with finer steps for the matching and the report thread. \<open>System_Facts\<close> and
    \<open>System_Safety\<close> prove invariants of all reachable states by rule induction,
    \<open>Startup_Facts\<close> that \<open>main\<close> establishes them, \<open>Process_Faults\<close> that every pointer goes to
    an object of its type and which faults each thread can have at all.
    \<open>Order_Flow\<close> follows an order from the socket through the queue into the book, and
    \<open>Execution_Flow\<close> a chosen pair through its execution to the reports of both clients.
  \<^item> \<open>Market_Maker\<close>, \<open>Market_Facts\<close>: the client, and what becomes of the server's messages in it.
  \<^item> \<open>Gtest_Float\<close> (comparison in units in the last place), \<open>Gtest_Params\<close> and
    \<open>Gtest_Product\<close> (generators of parameters behind the interface \<open>enumerates\<close>, ranges,
    containers, Cartesian products, conversions), \<open>Gtest_Values\<close> (the functions and macros of
    \<open>gtest-param-test.h\<close> on top of them), \<open>Gtest_Names\<close> and \<open>Gtest_Registry\<close> (names
    and registration of parameterised and typed suites), \<open>Gtest_Typed\<close> (the macros for typed
    tests), \<open>Gtest_Types\<close> (names of types).
  \<^item> \<open>Gtest_Matchers\<close> (matchers with shared, counted payloads, refined to plain values),
    \<open>Gtest_Arrays\<close>, \<open>Gtest_Printing\<close> and \<open>Gtest_Resolution\<close> (native arrays, the choice of a
    printer and the printers, the number of digits of a \<open>double\<close>), \<open>Gtest_Results\<close> (messages,
    assertion results, comparison helpers), \<open>Gtest_Assertions\<close>, \<open>Gtest_Death\<close> and \<open>Gtest_Spi\<close>
    (statements of test code and the macros for assertions, death tests, and assertions about
    failures).
  \<^item> \<open>Schedules\<close>: the interface \<open>machine\<close> of a step relation with an invariant and a function that
    runs a schedule. \<open>Gtest_Mutex\<close> and \<open>Gtest_Threads\<close> interpret it for the mutex, and for
    notifications and threads, with one access to shared memory as a step; \<open>Gtest_Thread_Local\<close>
    refines thread-local objects, kept behind keys of the system, to a table.

  What the properties show. For the server: the messages of a stream are recovered exactly
  however it is cut, logins succeed exactly for a known name with its password, a
  registered user can log in, price queries are answered, and which inputs crash it. For
  the trader: what becomes of an order on every branch, which pair is chosen and what an
  execution changes, that serial numbers are unique until they overflow, the band of
  the risk control, loading, cancelling and reporting. For the process: the books stay
  sorted, separate and free of dangling addresses, the matching thread never faults,
  only known users are logged in, and a chosen pair waits for the next order. For the
  client: prices arrive unchanged, answers to orders are never counted, whole blocks
  overflow its buffer, connecting again ends. For the test library: what is registered and in
  which order, that generators yield the documented sequences, that matchers behave as
  values, that comparisons of floating-point numbers count the numbers in between, that the
  mutex excludes and \<open>AssertHeld\<close> is exact under every interleaving, that no wake-up of a
  notification is lost, and what the macros report and where they end a test.

  Bounds and fuel. No definition uses fuel. Loops that end are recursive with a measure
  (\<open>allow_loop\<close> and \<open>connect_loop\<close> by the attempts left, \<open>strtok_all\<close> by the rest of the
  text); the endless loops of the threads are modelled by their turns. A loop over a
  generator of parameters is a partial function (\<open>collect_from\<close>), and that it returns is part of
  what is proved of each generator. The steps of a
  range with a number of elements that an \<open>int\<close> cannot hold end in the overflow that
  counting them causes. The reference counts of matchers are unbounded numbers: more
  than \<open>2 ^ 31\<close> copies of one matcher do not fit into memory.

  The runs of threads in the test library have no bound; that those of the mutex end is proved by a
  measure, and the witnesses run schedules of a fixed length.

  Not modelled: \<open>errorMsg.h\<close>, which nothing includes; the members that are only declared;
  timing, so a wait is its outcome; data races on plain members of the server, so one access is atomic;
  the SQL schema and the build files. Of GoogleTest: the configuration for platforms, the
  classes for Windows and those for systems without threads, and everything whose body is not in the
  repository: the framework that runs tests and counts their results, the flags, file
  names, strings of other widths, regular expressions and the parts of death tests that
  start processes. Where modelled code calls such a function, it is a parameter or a recorded event.
\<close>

end
